(* ===== verification/Prelude.thy ===== *)
theory Prelude
  imports Complex_Main "HOL-Library.Multiset" "HOL-Library.List_Lexorder" "HOL-Library.Char_ord"
begin

section \<open>Shared types, errors, Go map iteration, decimal numerals\<close>

text \<open>
  The vocabulary every component theory shares:
  \<^item> time: a \<open>gtime\<close> counts nanoseconds since Go's zero time (January 1 of year 1, UTC), so that
    \<open>time.Time{}\<close> is \<open>0\<close> and \<open>IsZero\<close> is a test against \<open>0\<close>; \<open>UnixMilli\<close> is the code's conversion;
  \<^item> errors: \<open>goerror\<close> has one constructor per sentinel or error type of the packages modelled and
    two for \<open>fmt.Errorf\<close>, without and with a wrapped error (\<open>%w\<close>); \<open>errors_Is\<close> follows the chain
    as \<open>errors.Is\<close> does;
  \<^item> iteration over a Go map: the order is not specified, so each model function that ranges over a
    map takes an order \<open>ord\<close> (any function that lists a finite set without repetition,
    \<open>fair_order\<close>) and the theorems hold for all of them;
  \<^item> decimal numerals, for the identifiers the code prints with \<open>%d\<close> and parses back.
\<close>

named_theorems model_simps \<open>unfolding of the model's small definitions\<close>
named_theorems model_splits \<open>case splits of the model's results\<close>

subsection \<open>Time\<close>

type_synonym gtime = int

text \<open>Durations are nanoseconds, as \<open>time.Duration\<close>.\<close>

type_synonym duration = int

definition Millisecond :: duration where
  "Millisecond = 1000000"

definition Second :: duration where
  "Second = 1000 * Millisecond"

definition Hour :: duration where
  "Hour = 3600 * Second"

definition unix_epoch :: gtime where
  "unix_epoch = 62135596800 * Second"

definition IsZero :: "gtime \<Rightarrow> bool" where
  "IsZero t \<longleftrightarrow> t = 0"

definition UnixMilli :: "gtime \<Rightarrow> int" where
  "UnixMilli t = (t - unix_epoch) div Millisecond"

text \<open>\<open>Duration.Milliseconds\<close> truncates towards zero.\<close>

definition Milliseconds :: "duration \<Rightarrow> int" where
  "Milliseconds d = sgn d * (\<bar>d\<bar> div Millisecond)"

lemma UnixMilli_mono: "s \<le> t \<Longrightarrow> UnixMilli s \<le> UnixMilli t"
  by (simp add: UnixMilli_def Millisecond_def zdiv_mono1)

subsection \<open>Errors\<close>

datatype goerror =
    ErrAgentNotFound | ErrQueueEmpty | StateConflictError string string
  | InvalidTransitionError string string
  | ErrCircuitOpen | ErrSupervisorStopped | ErrInvalidAgentID
  | ErrCycleDetected | ErrEmptyDAG | ErrNodeNotFound | ErrDuplicateNode | ErrMissingTaskSpec
  | ErrExecutionNotFound
  | ErrTmuxNotFound | ErrSessionNotFound | ErrSessionExists | ErrPaneLimit | ErrInvalidLines
  | ErrNoServer | ErrInvalidCommand
  | ContextCanceled | DeadlineExceeded
  | ErrorNew string "string list"
  | Errorf string "string list" goerror

fun errors_Is :: "goerror \<Rightarrow> goerror \<Rightarrow> bool" where
  "errors_Is (Errorf f args e) t \<longleftrightarrow> Errorf f args e = t \<or> errors_Is e t"
| "errors_Is e t \<longleftrightarrow> e = t"

text \<open>\<open>errors.As\<close> for the two struct error types: the first one in the chain.\<close>

fun as_InvalidTransition :: "goerror \<Rightarrow> (string \<times> string) option" where
  "as_InvalidTransition (InvalidTransitionError s ev) = Some (s, ev)"
| "as_InvalidTransition (Errorf f args e) = as_InvalidTransition e"
| "as_InvalidTransition _ = None"

fun as_StateConflict :: "goerror \<Rightarrow> (string \<times> string) option" where
  "as_StateConflict (StateConflictError x a) = Some (x, a)"
| "as_StateConflict (Errorf f args e) = as_StateConflict e"
| "as_StateConflict _ = None"

lemma errors_Is_refl [simp]: "errors_Is e e"
  by (cases e) simp_all

lemma errors_Is_Errorf [simp]: "errors_Is e t \<Longrightarrow> errors_Is (Errorf f args e) t"
  by simp

subsection \<open>Results: an error leaves no partial effect\<close>

text \<open>
  An operation that either fails without changing the state or returns the new state has the
  result type \<open>goerror + 's\<close>. \<open>err_of\<close> is the Go error value, \<open>state_after\<close> the state the caller
  goes on with.
\<close>

definition err_of :: "goerror + 's \<Rightarrow> goerror option" where
  "err_of r = (case r of Inl e \<Rightarrow> Some e | Inr _ \<Rightarrow> None)"

definition state_after :: "'s \<Rightarrow> goerror + 's \<Rightarrow> 's" where
  "state_after s r = (case r of Inl _ \<Rightarrow> s | Inr s' \<Rightarrow> s')"

lemma err_of_simps [simp]: "err_of (Inl e) = Some e" "err_of (Inr s) = None"
  by (simp_all add: err_of_def)

lemma state_after_simps [simp]: "state_after s (Inl e) = s" "state_after s (Inr s') = s'"
  by (simp_all add: state_after_def)

subsection \<open>Ranging over a Go map\<close>

type_synonym 'k map_order = "'k set \<Rightarrow> 'k list"

definition fair_order :: "'k map_order \<Rightarrow> bool" where
  "fair_order ord \<longleftrightarrow> (\<forall>A. finite A \<longrightarrow> set (ord A) = A \<and> distinct (ord A))"

lemma fair_order_set [simp]: "fair_order ord \<Longrightarrow> finite A \<Longrightarrow> set (ord A) = A"
  by (simp add: fair_order_def)

lemma fair_order_distinct [simp]: "fair_order ord \<Longrightarrow> finite A \<Longrightarrow> distinct (ord A)"
  by (simp add: fair_order_def)

lemma fair_order_length [simp]: "fair_order ord \<Longrightarrow> finite A \<Longrightarrow> length (ord A) = card A"
  by (metis distinct_card fair_order_distinct fair_order_set)

lemma fair_order_sorted: "fair_order (sorted_list_of_set :: 'k::linorder map_order)"
  by (simp add: fair_order_def)

lemma length_filter_fair_order:
  assumes "fair_order ord" and "finite A"
  shows "length (filter P (ord A)) = card {k \<in> A. P k}"
proof -
  have "set (filter P (ord A)) = {k \<in> A. P k}" and "distinct (filter P (ord A))"
    using assms by auto
  then show ?thesis by (metis distinct_card)
qed

text \<open>Sorting removes the dependence on the iteration order.\<close>

lemma sort_filter_fair_order:
  assumes "fair_order ord" and "finite A"
  shows "sort (filter P (ord A)) = sorted_list_of_set {k \<in> A. P k}"
proof (rule sorted_distinct_set_unique)
  show "set (sort (filter P (ord A))) = set (sorted_list_of_set {k \<in> A. P k})"
    using assms by auto
qed (use assms in auto)

subsection \<open>Decimal numerals\<close>

definition digit_char :: "nat \<Rightarrow> char" where
  "digit_char d = ''0123456789'' ! d"

fun dec :: "nat \<Rightarrow> string" where
  "dec n = (if n < 10 then [digit_char n] else dec (n div 10) @ [digit_char (n mod 10)])"

declare dec.simps [simp del]

definition is_digit :: "char \<Rightarrow> bool" where
  "is_digit c \<longleftrightarrow> 48 \<le> (of_char c :: nat) \<and> (of_char c :: nat) \<le> 57"

definition digit_val :: "char \<Rightarrow> nat" where
  "digit_val c = of_char c - 48"

definition parse_digits :: "string \<Rightarrow> nat" where
  "parse_digits ds = foldl (\<lambda>acc c. acc * 10 + digit_val c) 0 ds"

lemma digit_char_digit:
  assumes "d < 10"
  shows "is_digit (digit_char d) \<and> digit_val (digit_char d) = d"
proof -
  have "d \<in> {0, 1, 2, 3, 4, 5, 6, 7, 8, 9}" using assms by auto
  then show ?thesis by (auto simp: is_digit_def digit_val_def digit_char_def)
qed

lemma dec_digits: "list_all is_digit (dec n)"
proof (induction n rule: dec.induct)
  case (1 n)
  show ?case
    by (subst dec.simps) (use 1 digit_char_digit [of n] digit_char_digit [of "n mod 10"] in auto)
qed

lemma dec_nonempty [simp]: "dec n \<noteq> []"
  by (subst dec.simps) simp

lemma parse_digits_snoc: "parse_digits (ds @ [c]) = parse_digits ds * 10 + digit_val c"
  by (simp add: parse_digits_def)

lemma parse_digits_dec [simp]: "parse_digits (dec n) = n"
proof (induction n rule: dec.induct)
  case (1 n)
  show ?case
  proof (cases "n < 10")
    case True
    then show ?thesis
      by (subst dec.simps) (use digit_char_digit [of n] in \<open>simp add: parse_digits_def\<close>)
  next
    case False
    then show ?thesis
      by (subst dec.simps) (use 1 digit_char_digit [of "n mod 10"] in \<open>simp add: parse_digits_snoc\<close>)
  qed
qed

lemma dec_inject [simp]: "dec m = dec n \<longleftrightarrow> m = n"
  by (metis parse_digits_dec)

end
