(* ===== verification/Go_Strings.thy ===== *)
theory Go_Strings
  imports Prelude
begin

section \<open>The parts of Go's packages strings, strconv and utf8 the code uses\<close>

text \<open>
  A Go string is a list of bytes, here a list of characters. \<open>TrimSpace\<close> and \<open>ToLower\<close> are those of
  ASCII text (the words of a judge, the identifiers of a request, the messages of tmux); \<open>Atoi\<close>
  returns the value and the error, since callers use the value in spite of an error; \<open>rune_len\<close> is
  the length of the UTF-8 sequence a string starts with, by the table of \<open>utf8.DecodeRuneInString\<close>.
\<close>

subsection \<open>Prefixes and substrings\<close>

definition HasPrefix :: "string \<Rightarrow> string \<Rightarrow> bool" where
  "HasPrefix s pre \<longleftrightarrow> take (length pre) s = pre"

lemma HasPrefix_Cons: "HasPrefix s (c # cs) \<longleftrightarrow> (\<exists>t. s = c # t \<and> HasPrefix t cs)"
  by (cases s) (auto simp: HasPrefix_def)

lemma HasPrefix_iff: "HasPrefix s p \<longleftrightarrow> (\<exists>t. s = p @ t)"
  by (auto simp: HasPrefix_def intro: exI [of _ "drop (length p) s"]) (metis append_take_drop_id)

lemma HasPrefix_append [simp]: "HasPrefix (p @ t) p"
  by (simp add: HasPrefix_def)

fun Contains :: "string \<Rightarrow> string \<Rightarrow> bool" where
  "Contains [] sub \<longleftrightarrow> sub = []"
| "Contains (c # cs) sub \<longleftrightarrow> HasPrefix (c # cs) sub \<or> Contains cs sub"

lemma Contains_iff: "Contains s sub \<longleftrightarrow> (\<exists>a b. s = a @ sub @ b)"
proof (induction s)
  case (Cons c cs)
  have "(\<exists>a b. c # cs = a @ sub @ b) \<longleftrightarrow> (\<exists>b. c # cs = sub @ b) \<or> (\<exists>a b. cs = a @ sub @ b)"
    by (auto simp: Cons_eq_append_conv)
  then show ?case using Cons.IH by (simp add: HasPrefix_iff)
qed simp

subsection \<open>Trimming, case, splitting\<close>

definition is_space :: "char \<Rightarrow> bool" where
  "is_space c \<longleftrightarrow> of_char c \<in> {9, 10, 11, 12, 13, 32 :: nat}"

definition TrimSpace :: "string \<Rightarrow> string" where
  "TrimSpace s = rev (dropWhile is_space (rev (dropWhile is_space s)))"

definition TrimRight :: "char \<Rightarrow> string \<Rightarrow> string" where
  "TrimRight c s = rev (dropWhile (\<lambda>x. x = c) (rev s))"

definition lower_char :: "char \<Rightarrow> char" where
  "lower_char c = (if 65 \<le> (of_char c :: nat) \<and> (of_char c :: nat) \<le> 90
     then char_of (of_char c + 32 :: nat) else c)"

definition ToLower :: "string \<Rightarrow> string" where
  "ToLower s = map lower_char s"

lemma dropWhile_hd: "s = [] \<or> \<not> P (hd s) \<Longrightarrow> dropWhile P s = s"
  by (cases s) auto

lemma TrimSpace_id:
  assumes "s = [] \<or> \<not> is_space (hd s) \<and> \<not> is_space (last s)"
  shows "TrimSpace s = s"
  using assms by (cases "s = []") (simp_all add: TrimSpace_def dropWhile_hd hd_rev)

lemma TrimSpace_Nil_iff: "TrimSpace s = '''' \<longleftrightarrow> (\<forall>c \<in> set s. is_space c)"
proof (cases "dropWhile is_space s = []")
  case True
  then show ?thesis by (auto simp: TrimSpace_def dropWhile_eq_Nil_conv dest: set_dropWhileD)
next
  case False
  let ?d = "dropWhile is_space s"
  have "\<not> is_space (hd ?d)" "hd ?d \<in> set (rev ?d)" using hd_dropWhile [OF False] False by simp_all
  then have ne: "dropWhile is_space (rev ?d) \<noteq> []" unfolding dropWhile_eq_Nil_conv by blast
  have "\<not> (\<forall>c \<in> set s. is_space c)" using False by (simp add: dropWhile_eq_Nil_conv)
  moreover have "TrimSpace s \<noteq> []" using ne unfolding TrimSpace_def rev_is_Nil_conv .
  ultimately show ?thesis by simp
qed

lemma TrimSpace_TrimSpace [simp]: "TrimSpace (TrimSpace s) = TrimSpace s"
proof -
  have last: "\<not> is_space (last (TrimSpace s))" if "TrimSpace s \<noteq> []"
    using that hd_dropWhile [of is_space "rev (dropWhile is_space s)"]
    by (auto simp: TrimSpace_def last_rev)
  have hd: "\<not> is_space (hd (TrimSpace s))" if "TrimSpace s \<noteq> []"
  proof -
    let ?d = "dropWhile is_space s"
    define ys where "ys = rev (takeWhile is_space (rev ?d))"
    have "rev ?d = takeWhile is_space (rev ?d) @ dropWhile is_space (rev ?d)" by simp
    then have "rev (rev ?d) = rev (takeWhile is_space (rev ?d) @ dropWhile is_space (rev ?d))" by (rule arg_cong)
    then have ys: "?d = TrimSpace s @ ys" by (simp add: TrimSpace_def ys_def del: takeWhile_dropWhile_id)
    then have "?d \<noteq> []" and "hd ?d = hd (TrimSpace s)" using that by auto
    then show ?thesis using hd_dropWhile [of is_space s] by auto
  qed
  show ?thesis by (rule TrimSpace_id) (use last hd in blast)
qed

text \<open>\<open>strings.Split\<close> and \<open>strings.SplitN\<close> for a separator of one byte (and a positive limit).\<close>

function (sequential) split_on :: "char \<Rightarrow> string \<Rightarrow> string list" where
  "split_on c s =
     (if c \<in> set s then takeWhile (\<lambda>x. x \<noteq> c) s # split_on c (tl (dropWhile (\<lambda>x. x \<noteq> c) s)) else [s])"
  by pat_completeness auto
termination
proof (relation "measure (\<lambda>(c, s). length s)")
  fix c :: char and s :: string
  assume "c \<in> set s"
  then have "s \<noteq> []" by auto
  moreover have "length (dropWhile (\<lambda>x. x \<noteq> c) s) \<le> length s" by (rule length_dropWhile_le)
  ultimately have "length (tl (dropWhile (\<lambda>x. x \<noteq> c) s)) < length s" by (cases s) auto
  then show "((c, tl (dropWhile (\<lambda>x. x \<noteq> c) s)), c, s) \<in> measure (\<lambda>(c, s). length s)" by simp
qed simp

declare split_on.simps [simp del]

fun split_n :: "char \<Rightarrow> nat \<Rightarrow> string \<Rightarrow> string list" where
  "split_n c (Suc (Suc n)) s =
     (if c \<in> set s
      then takeWhile (\<lambda>x. x \<noteq> c) s # split_n c (Suc n) (tl (dropWhile (\<lambda>x. x \<noteq> c) s)) else [s])"
| "split_n c n s = [s]"

text \<open>Joining with a separator, which the code leaves to tmux.\<close>

fun join_with :: "char \<Rightarrow> string list \<Rightarrow> string" where
  "join_with c [] = ''''"
| "join_with c [s] = s"
| "join_with c (s # ss) = s @ c # join_with c ss"

lemma takeWhile_sep: "c \<notin> set s \<Longrightarrow> takeWhile (\<lambda>x. x \<noteq> c) (s @ c # t) = s"
  by (induction s) auto

lemma dropWhile_sep: "c \<notin> set s \<Longrightarrow> dropWhile (\<lambda>x. x \<noteq> c) (s @ c # t) = c # t"
  by (induction s) auto

lemma split_on_join:
  assumes "ss \<noteq> []" and "\<forall>s \<in> set ss. c \<notin> set s"
  shows "split_on c (join_with c ss) = ss"
  using assms
proof (induction c ss rule: join_with.induct)
  case (2 c s)
  then show ?case by (subst split_on.simps) simp
next
  case (3 c s s' ss)
  then show ?case
    by (subst split_on.simps) (simp add: takeWhile_sep dropWhile_sep)
qed simp

lemma split_n_join:
  assumes "length ss = Suc n" and "\<forall>s \<in> set ss. c \<notin> set s"
  shows "split_n c (Suc n) (join_with c ss) = ss"
  using assms
proof (induction c ss arbitrary: n rule: join_with.induct)
  case (3 c s s' ss)
  then obtain m where "n = Suc m" by (cases n) auto
  then show ?case using 3 by (simp add: takeWhile_sep dropWhile_sep)
qed auto

subsection \<open>Numbers\<close>

text \<open>\<open>strconv.Atoi\<close> on a 64-bit platform: out of range it returns the nearest value and an error.\<close>

definition Atoi :: "string \<Rightarrow> int \<times> goerror option" where
  "Atoi s =
     (let neg = HasPrefix s ''-'';
          digits = (if neg \<or> HasPrefix s ''+'' then tl s else s);
          v = (if neg then - int (parse_digits digits) else int (parse_digits digits))
      in if digits = '''' \<or> \<not> list_all is_digit digits
         then (0, Some (ErrorNew ''invalid syntax'' [s]))
         else if v > 9223372036854775807 then (9223372036854775807, Some (ErrorNew ''value out of range'' [s]))
         else if v < - 9223372036854775808 then (- 9223372036854775808, Some (ErrorNew ''value out of range'' [s]))
         else (v, None))"

lemma Atoi_dec:
  assumes "int n \<le> 9223372036854775807"
  shows "Atoi (dec n) = (int n, None)"
proof -
  obtain c cs where d: "dec n = c # cs" "is_digit c"
    using dec_digits [of n] dec_nonempty [of n] by (cases "dec n") auto
  have "c \<noteq> CHR ''-''" "c \<noteq> CHR ''+''" using d(2) by (auto simp: is_digit_def)
  then have "\<not> HasPrefix (dec n) ''-''" "\<not> HasPrefix (dec n) ''+''" by (simp_all add: HasPrefix_def d)
  then show ?thesis using dec_digits [of n] assms by (simp add: Atoi_def Let_def)
qed

lemma dec_no_space:
  assumes "c \<in> set (dec n)"
  shows "\<not> is_space c"
proof -
  have "is_digit c" using dec_digits [of n] assms by (auto simp: list_all_iff)
  then show ?thesis by (auto simp: is_digit_def is_space_def)
qed

subsection \<open>UTF-8\<close>

definition byte_in :: "nat \<Rightarrow> nat \<Rightarrow> char \<Rightarrow> bool" where
  "byte_in lo hi c \<longleftrightarrow> lo \<le> of_char c \<and> of_char c \<le> hi"

definition cont :: "char \<Rightarrow> bool" where
  "cont c \<longleftrightarrow> byte_in 128 191 c"

text \<open>0 stands for \<open>RuneError\<close> of width 1 (or the empty string).\<close>

fun rune_len :: "string \<Rightarrow> nat" where
  "rune_len [] = 0"
| "rune_len (a # s) =
     (if byte_in 0 127 a then 1
      else if byte_in 194 223 a then (case s of b # _ \<Rightarrow> if cont b then 2 else 0 | _ \<Rightarrow> 0)
      else if byte_in 224 239 a then
        (case s of b # c # _ \<Rightarrow>
           if byte_in (if byte_in 224 224 a then 160 else 128) (if byte_in 237 237 a then 159 else 191) b \<and> cont c
           then 3 else 0
         | _ \<Rightarrow> 0)
      else if byte_in 240 244 a then
        (case s of b # c # d # _ \<Rightarrow>
           if byte_in (if byte_in 240 240 a then 144 else 128) (if byte_in 244 244 a then 143 else 191) b \<and>
              cont c \<and> cont d
           then 4 else 0
         | _ \<Rightarrow> 0)
      else 0)"

definition rune_error :: string where
  "rune_error = map char_of [239, 191, 189 :: nat]"

lemma rune_len_le: "rune_len s \<le> length s"
  by (cases s) (auto split: list.split)

lemma byte_high: "byte_in lo hi c \<Longrightarrow> 128 \<le> lo \<Longrightarrow> 128 \<le> (of_char c :: nat)"
  by (simp add: byte_in_def)

lemma rune_len_wide:
  assumes "1 < rune_len s"
  shows "\<forall>c \<in> set (take (rune_len s) s). 128 \<le> (of_char c :: nat)"
proof -
  obtain a t where s: "s = a # t" using assms by (cases s) auto
  consider "byte_in 194 223 a" "\<not> byte_in 0 127 a" | "byte_in 224 239 a" "\<not> byte_in 194 223 a" "\<not> byte_in 0 127 a"
    | "byte_in 240 244 a" "\<not> byte_in 224 239 a" "\<not> byte_in 194 223 a" "\<not> byte_in 0 127 a"
    using assms by (fastforce simp: s split: if_splits)
  then show ?thesis
  proof cases
    case 1
    then obtain b t1 where "t = b # t1" "cont b" using assms by (auto simp: s split: list.splits if_splits)
    then show ?thesis using 1 by (simp add: s cont_def byte_in_def numeral_2_eq_2)
  next
    case 2
    then obtain b c t1 where t: "t = b # c # t1" "cont c" "rune_len s = 3"
        "byte_in (if byte_in 224 224 a then 160 else 128) (if byte_in 237 237 a then 159 else 191) b"
      using assms by (auto simp: s split: list.splits if_splits)
    then have "128 \<le> (of_char b :: nat)" by (auto simp: byte_in_def split: if_splits)
    then show ?thesis using 2(1) t(1-3) by (simp add: s cont_def byte_in_def numeral_3_eq_3)
  next
    case 3
    then obtain b c d t1 where t: "t = b # c # d # t1" "cont c" "cont d" "rune_len s = 4"
        "byte_in (if byte_in 240 240 a then 144 else 128) (if byte_in 244 244 a then 143 else 191) b"
      using assms by (auto simp: s split: list.splits if_splits)
    then have "128 \<le> (of_char b :: nat)" by (auto simp: byte_in_def split: if_splits)
    then show ?thesis using 3(1) t(1-4) by (simp add: s cont_def byte_in_def eval_nat_numeral)
  qed
qed

end
