(* ===== verification/Gateway.thy ===== *)
theory Gateway
  imports Go_Strings
begin

section \<open>internal/gateway: tiers, fallback chains, routing, adapters, costs\<close>

text \<open>
  The model gateway: configuration and its validation, the fallback chain over per-model
  completers, the judge router, the provider adapters and the LiteLLM client that applies them,
  and the cost tracker. A completer, the HTTP transport and the context are the environment: their
  answers depend on a state \<open>'w\<close> that every call advances. Temperatures are rationals (the code
  only compares and copies them); the money amounts are of an arbitrary type with \<open>0\<close>, \<open>+\<close>, \<open>*\<close> and
  \<open>/\<close> and no laws, since float64 addition is not associative.
\<close>

subsection \<open>Errors\<close>

datatype gwerror =
    ErrNoProvider | ErrAllProvidersFailed | ErrInvalidTier | ErrClassificationFailed
  | ErrProviderUnavailable | ErrRateLimited | ErrConfigInvalid | ErrCostTrackerFull
  | GwCanceled | GwDeadlineExceeded
  | GwNew string "string list"
  | GwErrorf string "string list" gwerror
  | ProviderError string string gwerror
  | FallbackError "(string \<times> string \<times> gwerror) list"

text \<open>\<open>errors.Is\<close>; a \<open>FallbackError\<close> unwraps to the sentinel and the first context error it holds.\<close>

fun gw_Is :: "gwerror \<Rightarrow> gwerror \<Rightarrow> bool"
  and first_ctx_Is :: "(string \<times> string \<times> gwerror) list \<Rightarrow> gwerror \<Rightarrow> bool" where
  "gw_Is (GwErrorf f args e) t \<longleftrightarrow> GwErrorf f args e = t \<or> gw_Is e t"
| "gw_Is (ProviderError opn p e) t \<longleftrightarrow> ProviderError opn p e = t \<or> gw_Is e t"
| "gw_Is (FallbackError es) t \<longleftrightarrow> FallbackError es = t \<or> t = ErrAllProvidersFailed \<or> first_ctx_Is es t"
| "gw_Is e t \<longleftrightarrow> e = t"
| "first_ctx_Is [] t \<longleftrightarrow> False"
| "first_ctx_Is ((opn, p, e) # es) t \<longleftrightarrow>
     (if gw_Is e GwCanceled \<or> gw_Is e GwDeadlineExceeded then gw_Is e t else first_ctx_Is es t)"

text \<open>\<open>errors.As\<close> into a \<open>*ProviderError\<close>.\<close>

fun as_ProviderError :: "gwerror \<Rightarrow> (string \<times> string \<times> gwerror) option"
  and first_ctx_As :: "(string \<times> string \<times> gwerror) list \<Rightarrow> (string \<times> string \<times> gwerror) option" where
  "as_ProviderError (ProviderError opn p e) = Some (opn, p, e)"
| "as_ProviderError (GwErrorf f args e) = as_ProviderError e"
| "as_ProviderError (FallbackError es) = first_ctx_As es"
| "as_ProviderError _ = None"
| "first_ctx_As [] = None"
| "first_ctx_As ((opn, p, e) # es) =
     (if gw_Is e GwCanceled \<or> gw_Is e GwDeadlineExceeded then as_ProviderError e else first_ctx_As es)"

subsection \<open>Tiers, requests, configuration\<close>

type_synonym ModelTier = string

definition TierCheap :: ModelTier where "TierCheap = ''cheap''"
definition TierMid :: ModelTier where "TierMid = ''mid''"
definition TierFrontier :: ModelTier where "TierFrontier = ''frontier''"

definition Valid :: "ModelTier \<Rightarrow> bool" where
  "Valid t \<longleftrightarrow> t = TierCheap \<or> t = TierMid \<or> t = TierFrontier"

definition MarshalText :: "ModelTier \<Rightarrow> gwerror + string" where
  "MarshalText t = (if \<not> Valid t then Inl ErrInvalidTier else Inr t)"

definition UnmarshalText :: "string \<Rightarrow> gwerror + ModelTier" where
  "UnmarshalText b = (if \<not> Valid b then Inl ErrInvalidTier else Inr b)"

record Message =
  msgRole :: string
  msgContent :: string

record CompletionRequest =
  rqModel :: string
  rqMessages :: "Message list"
  rqSystemPrompt :: string
  rqMaxTokens :: int
  rqTemperature :: rat
  rqStream :: bool
  rqTier :: ModelTier
  rqMetadata :: "string \<rightharpoonup> string"

record CompletionResponse =
  rsContent :: string
  rsModel :: string
  rsInputTokens :: int
  rsOutputTokens :: int
  rsFallbackUsed :: bool
  rsProviderName :: string

record TierConfig =
  tcTier :: ModelTier
  tcPrimaryModel :: string
  tcFallbackChain :: "string list"

record ProviderConfig =
  pcName :: string
  pcBaseURL :: string
  pcAPIKey :: string
  pcModels :: "string list"

text \<open>Printing: \<open>print_list\<close> is \<open>%v\<close> of a slice; \<open>flag\<close> is the plus of \<open>%+v\<close>.\<close>

definition ProviderConfig_String :: "ProviderConfig \<Rightarrow> string" where
  "ProviderConfig_String p =
     ''ProviderConfig{Name: '' @ pcName p @ '', BaseURL: '' @ pcBaseURL p @ '', APIKey: [REDACTED]}''"

definition ProviderConfig_Format :: "(string list \<Rightarrow> string) \<Rightarrow> char \<Rightarrow> bool \<Rightarrow> ProviderConfig \<Rightarrow> string" where
  "ProviderConfig_Format print_list verb flag p =
     (if verb = CHR ''v'' \<and> flag
      then ''gateway.ProviderConfig{Name:'' @ pcName p @ '', BaseURL:'' @ pcBaseURL p @
           '', APIKey:[REDACTED], Models:'' @ print_list (pcModels p) @ ''}''
      else ProviderConfig_String p)"

record 'f TokenCost =
  tkInput :: 'f
  tkOutput :: 'f

record 'f GatewayConfig =
  gcLiteLLMBaseURL :: string
  gcTimeoutSeconds :: int
  gcTiers :: "ModelTier \<rightharpoonup> TierConfig"
  gcProviders :: "string \<rightharpoonup> ProviderConfig"
  gcCostPerMillionTokens :: "string \<rightharpoonup> 'f TokenCost"

text \<open>The domain conversion of \<open>parseConfig\<close>, from the maps the YAML decoder delivers.\<close>

record rawTierConfig =
  rtPrimaryModel :: string
  rtFallbackChain :: "string list"

record rawProviderConfig =
  rpBaseURL :: string
  rpModels :: "string list"

record 'f rawGatewayConfig =
  rawLiteLLMBaseURL :: string
  rawTimeoutSeconds :: int
  rawTiers :: "string \<rightharpoonup> rawTierConfig"
  rawProviders :: "string \<rightharpoonup> rawProviderConfig"
  rawCost :: "(string \<rightharpoonup> 'f TokenCost) option"

definition parseConfig :: "string + 'f rawGatewayConfig \<Rightarrow> gwerror + 'f GatewayConfig" where
  "parseConfig unmarshalled =
     (case unmarshalled of
        Inl err \<Rightarrow> Inl (GwErrorf ''%w: %v'' [err] ErrConfigInvalid)
      | Inr raw \<Rightarrow>
          Inr \<lparr>gcLiteLLMBaseURL = rawLiteLLMBaseURL raw, gcTimeoutSeconds = rawTimeoutSeconds raw,
               gcTiers = (\<lambda>tier. map_option (\<lambda>rt. \<lparr>tcTier = tier, tcPrimaryModel = rtPrimaryModel rt,
                 tcFallbackChain = rtFallbackChain rt\<rparr>) (rawTiers raw tier)),
               gcProviders = (\<lambda>name. map_option (\<lambda>rp. \<lparr>pcName = name, pcBaseURL = rpBaseURL rp,
                 pcAPIKey = '''', pcModels = rpModels rp\<rparr>) (rawProviders raw name)),
               gcCostPerMillionTokens = (case rawCost raw of None \<Rightarrow> Map.empty | Some m \<Rightarrow> m)\<rparr>)"

definition LoadConfig ::
  "(string \<Rightarrow> string + 'd) \<Rightarrow> ('d \<Rightarrow> string + 'f rawGatewayConfig) \<Rightarrow> string \<Rightarrow>
   gwerror + 'f GatewayConfig" where
  "LoadConfig read_file unmarshal path =
     (case read_file path of
        Inl err \<Rightarrow> Inl (GwErrorf ''%w: read config %q: %v'' [path, err] ErrConfigInvalid)
      | Inr data \<Rightarrow> parseConfig (unmarshal data))"

text \<open>The checks on one tier, and on the tiers in the order Go ranges over them.\<close>

fun check_chain :: "ModelTier \<Rightarrow> nat \<Rightarrow> string list \<Rightarrow> gwerror option" where
  "check_chain tier i [] = None"
| "check_chain tier i (m # ms) =
     (if m = '''' then Some (GwErrorf ''%w: tier %q fallback_chain[%d] is empty'' [tier, dec i] ErrConfigInvalid)
      else check_chain tier (Suc i) ms)"

fun check_tiers :: "(ModelTier \<rightharpoonup> TierConfig) \<Rightarrow> ModelTier list \<Rightarrow> gwerror option" where
  "check_tiers tiers [] = None"
| "check_tiers tiers (tier # rest) =
     (let tc = the (tiers tier)
      in if \<not> Valid tier then Some (GwErrorf ''%w: unknown tier %q'' [tier] ErrConfigInvalid)
         else if tcPrimaryModel tc = '''' then
           Some (GwErrorf ''%w: tier %q has no primary_model'' [tier] ErrConfigInvalid)
         else (case check_chain tier 0 (tcFallbackChain tc) of
                 Some e \<Rightarrow> Some e
               | None \<Rightarrow> check_tiers tiers rest))"

definition ValidateConfig :: "ModelTier map_order \<Rightarrow> 'f GatewayConfig \<Rightarrow> gwerror option" where
  "ValidateConfig ord cfg =
     (if gcLiteLLMBaseURL cfg = ''''
      then Some (GwErrorf ''%w: gateway.litellm_base_url is required'' [] ErrConfigInvalid)
      else if gcTimeoutSeconds cfg \<le> 0
      then Some (GwErrorf ''%w: gateway.timeout_seconds must be positive'' [] ErrConfigInvalid)
      else if dom (gcTiers cfg) = {}
      then Some (GwErrorf ''%w: at least one tier must be defined'' [] ErrConfigInvalid)
      else check_tiers (gcTiers cfg) (ord (dom (gcTiers cfg))))"

subsection \<open>FallbackCompleter\<close>

text \<open>The \<open>Completer\<close> interface.\<close>

record 'w Completer =
  Complete_call :: "CompletionRequest \<Rightarrow> 'w \<Rightarrow> (gwerror + CompletionResponse) \<times> 'w"
  Provider_name :: string

record ('w, 'f) FallbackCompleter =
  completers :: "string \<rightharpoonup> 'w Completer"
  fcConfig :: "'f GatewayConfig"

text \<open>\<open>ctx.Err()\<close> is the function \<open>ctx_err\<close> of the environment's state.\<close>

fun tryChain ::
  "(string \<rightharpoonup> 'w Completer) \<Rightarrow> ('w \<Rightarrow> gwerror option) \<Rightarrow> CompletionRequest \<Rightarrow> nat \<Rightarrow> string list \<Rightarrow>
   (string \<times> string \<times> gwerror) list \<Rightarrow> 'w \<Rightarrow> (gwerror + CompletionResponse) \<times> 'w" where
  "tryChain comps ctx_err req i [] errs w = (Inl (FallbackError errs), w)"
| "tryChain comps ctx_err req i (model # chain) errs w =
     (case ctx_err w of
        Some err \<Rightarrow> (Inl (FallbackError (errs @ [('''', model, err)])), w)
      | None \<Rightarrow>
        (case comps model of
           None \<Rightarrow> tryChain comps ctx_err req (Suc i) chain
                     (errs @ [('''', model, GwErrorf ''%w: %q'' [model] ErrNoProvider)]) w
         | Some c \<Rightarrow>
           (case Complete_call c (req\<lparr>rqModel := model\<rparr>) w of
              (Inl err, w') \<Rightarrow>
                (case as_ProviderError err of
                   Some pe \<Rightarrow> tryChain comps ctx_err req (Suc i) chain (errs @ [pe]) w'
                 | None \<Rightarrow> tryChain comps ctx_err req (Suc i) chain
                             (errs @ [('''', Provider_name c, err)]) w')
            | (Inr resp, w') \<Rightarrow> (Inr (resp\<lparr>rsFallbackUsed := (0 < i)\<rparr>), w'))))"

definition chainForModel ::
  "ModelTier map_order \<Rightarrow> ('w, 'f) FallbackCompleter \<Rightarrow> string \<Rightarrow> gwerror + string list" where
  "chainForModel ord fc model =
     (let tiers = gcTiers (fcConfig fc)
      in case find (\<lambda>t. tcPrimaryModel (the (tiers t)) = model) (ord (dom tiers)) of
           Some t \<Rightarrow> Inr (model # tcFallbackChain (the (tiers t)))
         | None \<Rightarrow>
             if completers fc model \<noteq> None then Inr [model]
             else Inl (GwErrorf ''%w: %q'' [model] ErrNoProvider))"

definition FallbackCompleter_Complete ::
  "ModelTier map_order \<Rightarrow> ('w, 'f) FallbackCompleter \<Rightarrow> ('w \<Rightarrow> gwerror option) \<Rightarrow>
   CompletionRequest \<Rightarrow> 'w \<Rightarrow> (gwerror + CompletionResponse) \<times> 'w" where
  "FallbackCompleter_Complete ord fc ctx_err req w =
     (case chainForModel ord fc (rqModel req) of
        Inl err \<Rightarrow> (Inl err, w)
      | Inr chain \<Rightarrow> tryChain (completers fc) ctx_err req 0 chain [] w)"

definition CompleteWithTier ::
  "('w, 'f) FallbackCompleter \<Rightarrow> ('w \<Rightarrow> gwerror option) \<Rightarrow> ModelTier \<Rightarrow>
   CompletionRequest \<Rightarrow> 'w \<Rightarrow> (gwerror + CompletionResponse) \<times> 'w" where
  "CompleteWithTier fc ctx_err tier req w =
     (if \<not> Valid tier then (Inl (GwErrorf ''%w: %q'' [tier] ErrInvalidTier), w)
      else (case gcTiers (fcConfig fc) tier of
              None \<Rightarrow> (Inl (GwErrorf ''%w: no tier config for %q'' [tier] ErrInvalidTier), w)
            | Some tc \<Rightarrow>
                tryChain (completers fc) ctx_err (req\<lparr>rqModel := tcPrimaryModel tc\<rparr>) 0
                  (tcPrimaryModel tc # tcFallbackChain tc) [] w))"

subsection \<open>JudgeRouter\<close>

record GwTaskSpec =
  gtID :: string
  gtDescription :: string
  gtPayload :: string
  gtMetadata :: "string \<rightharpoonup> string"
  gtOverrideTier :: ModelTier

record RoutingDecision =
  rdTier :: ModelTier
  rdModel :: string
  rdReasonText :: "string \<times> string list"
  rdRawResponse :: string

record 'w JudgeRouter =
  jrCompleter :: "'w Completer option"
  jrJudgeModel :: string
  jrDefaultTier :: ModelTier
  jrClassificationPrompt :: string

definition WithJudgeModel :: "string \<Rightarrow> 'w JudgeRouter \<Rightarrow> 'w JudgeRouter" where
  "WithJudgeModel m r = r\<lparr>jrJudgeModel := m\<rparr>"

definition WithDefaultTier :: "ModelTier \<Rightarrow> 'w JudgeRouter \<Rightarrow> 'w JudgeRouter" where
  "WithDefaultTier t r = r\<lparr>jrDefaultTier := t\<rparr>"

definition WithCompleter :: "'w Completer \<Rightarrow> 'w JudgeRouter \<Rightarrow> 'w JudgeRouter" where
  "WithCompleter c r = r\<lparr>jrCompleter := Some c\<rparr>"

definition WithClassificationPrompt :: "string \<Rightarrow> 'w JudgeRouter \<Rightarrow> 'w JudgeRouter" where
  "WithClassificationPrompt p r = r\<lparr>jrClassificationPrompt := p\<rparr>"

definition NewJudgeRouter ::
  "string \<Rightarrow> ('w JudgeRouter \<Rightarrow> 'w JudgeRouter) list \<Rightarrow> 'w JudgeRouter" where
  "NewJudgeRouter default_prompt opts =
     foldl (\<lambda>r opt. opt r)
       \<lparr>jrCompleter = None, jrJudgeModel = ''claude-haiku-4-5-20251001'', jrDefaultTier = TierMid,
        jrClassificationPrompt = default_prompt\<rparr> opts"

text \<open>\<open>strings.ReplaceAll(p, "%%", "")\<close>, the two counts, and \<open>fmt.Sprintf\<close> of a checked template.\<close>

fun drop_percent_pairs :: "string \<Rightarrow> string" where
  "drop_percent_pairs (c # d # cs) =
     (if c = CHR ''%'' \<and> d = CHR ''%'' then drop_percent_pairs cs else c # drop_percent_pairs (d # cs))"
| "drop_percent_pairs cs = cs"

fun count_verbs :: "string \<Rightarrow> nat" where
  "count_verbs (c # d # cs) =
     (if c = CHR ''%'' \<and> d = CHR ''s'' then Suc (count_verbs cs) else count_verbs (d # cs))"
| "count_verbs _ = 0"

definition prompt_ok :: "string \<Rightarrow> bool" where
  "prompt_ok p \<longleftrightarrow> (let cleaned = drop_percent_pairs p
     in \<not> (count_verbs cleaned \<noteq> 1 \<or> count_list cleaned (CHR ''%'') \<noteq> 1))"

fun sprintf_s :: "string \<Rightarrow> string \<Rightarrow> string" where
  "sprintf_s (c # d # cs) s =
     (if c = CHR ''%'' \<and> d = CHR ''%'' then CHR ''%'' # sprintf_s cs s
      else if c = CHR ''%'' \<and> d = CHR ''s'' then s @ sprintf_s cs s
      else c # sprintf_s (d # cs) s)"
| "sprintf_s cs s = cs"

definition parseTier :: "string \<Rightarrow> ModelTier" where
  "parseTier raw = (let word = ToLower (TrimSpace raw) in if Valid word then word else '''')"

text \<open>The question put to the judge.\<close>

definition judge_request :: "'w JudgeRouter \<Rightarrow> GwTaskSpec \<Rightarrow> CompletionRequest" where
  "judge_request r task =
     \<lparr>rqModel = jrJudgeModel r,
      rqMessages = [\<lparr>msgRole = ''user'', msgContent = sprintf_s (jrClassificationPrompt r) (gtDescription task)\<rparr>],
      rqSystemPrompt = '''', rqMaxTokens = 10, rqTemperature = 0, rqStream = False,
      rqTier = '''', rqMetadata = Map.empty\<rparr>"

text \<open>Reasons are kept as the format and its arguments; \<open>error_text\<close> prints an error.\<close>

definition Classify ::
  "(gwerror \<Rightarrow> string) \<Rightarrow> 'w JudgeRouter \<Rightarrow> GwTaskSpec \<Rightarrow> 'w \<Rightarrow> RoutingDecision \<times> 'w" where
  "Classify error_text r task w =
     (let default_decision = (\<lambda>reason raw. \<lparr>rdTier = jrDefaultTier r, rdModel = '''',
            rdReasonText = reason, rdRawResponse = raw\<rparr>)
      in if gtOverrideTier task \<noteq> '''' \<and> Valid (gtOverrideTier task)
         then (\<lparr>rdTier = gtOverrideTier task, rdModel = '''',
                rdReasonText = (''override: tier forced to %s'', [gtOverrideTier task]),
                rdRawResponse = ''''\<rparr>, w)
         else (case jrCompleter r of
            None \<Rightarrow> (default_decision (''no completer configured; using default tier'', []) '''', w)
          | Some c \<Rightarrow>
              if \<not> prompt_ok (jrClassificationPrompt r)
              then (default_decision (''classification prompt must contain exactly one %s verb and no other format verbs; using default tier'', []) '''', w)
              else
                let req = judge_request r task
                in (case Complete_call c req w of
                      (Inl err, w') \<Rightarrow>
                        (default_decision (''judge call failed (%v); falling back to default tier %s'',
                           [error_text err, jrDefaultTier r]) '''', w')
                    | (Inr resp, w') \<Rightarrow>
                        let tier = parseTier (rsContent resp)
                        in if \<not> Valid tier
                           then (default_decision
                                  (''judge returned unrecognised response %q; falling back to default tier %s'',
                                   [rsContent resp, jrDefaultTier r]) (rsContent resp), w')
                           else (\<lparr>rdTier = tier, rdModel = rsModel resp,
                                  rdReasonText = (''judge classified as %s'', [tier]),
                                  rdRawResponse = rsContent resp\<rparr>, w'))))"

subsection \<open>Provider adapters\<close>

definition strip_prefix :: "string \<Rightarrow> string \<Rightarrow> string" where
  "strip_prefix s pre = (if HasPrefix s pre then drop (length pre) s else s)"

record FormatAdapter =
  Adapter_name :: string
  ParseModelName :: "string \<Rightarrow> bool"
  FormatRequest :: "CompletionRequest \<Rightarrow> CompletionRequest"

definition anthropic_ParseModelName :: "string \<Rightarrow> bool" where
  "anthropic_ParseModelName model \<longleftrightarrow> HasPrefix model ''claude-''"

definition anthropic_FormatRequest :: "CompletionRequest \<Rightarrow> CompletionRequest" where
  "anthropic_FormatRequest req = (if rqTemperature req > 1 then req\<lparr>rqTemperature := 1\<rparr> else req)"

definition openai_ParseModelName :: "string \<Rightarrow> bool" where
  "openai_ParseModelName model \<longleftrightarrow>
     HasPrefix model ''gpt-'' \<or> HasPrefix model ''o1-'' \<or> HasPrefix model ''o3-''"

definition openai_FormatRequest :: "CompletionRequest \<Rightarrow> CompletionRequest" where
  "openai_FormatRequest req =
     (if HasPrefix (rqModel req) ''o1-'' \<or> HasPrefix (rqModel req) ''o3-''
      then req\<lparr>rqTemperature := - 1\<rparr> else req)"

definition ollama_ParseModelName :: "string \<Rightarrow> bool" where
  "ollama_ParseModelName model \<longleftrightarrow> HasPrefix model ''ollama/''"

definition ollama_FormatRequest :: "CompletionRequest \<Rightarrow> CompletionRequest" where
  "ollama_FormatRequest req = req\<lparr>rqModel := strip_prefix (rqModel req) ''ollama/''\<rparr>"

type_synonym Registry = "FormatAdapter list"

definition DefaultRegistry :: Registry where
  "DefaultRegistry =
     [\<lparr>Adapter_name = ''anthropic'', ParseModelName = anthropic_ParseModelName,
       FormatRequest = anthropic_FormatRequest\<rparr>,
      \<lparr>Adapter_name = ''openai'', ParseModelName = openai_ParseModelName,
       FormatRequest = openai_FormatRequest\<rparr>,
      \<lparr>Adapter_name = ''ollama'', ParseModelName = ollama_ParseModelName,
       FormatRequest = ollama_FormatRequest\<rparr>]"

definition Find :: "Registry \<Rightarrow> string \<Rightarrow> gwerror + FormatAdapter" where
  "Find r model = (case find (\<lambda>a. ParseModelName a model) r of
     None \<Rightarrow> Inl ErrNoProvider | Some a \<Rightarrow> Inr a)"

definition Resolve :: "Registry \<Rightarrow> string \<Rightarrow> CompletionRequest \<Rightarrow> gwerror + CompletionRequest" where
  "Resolve r model req = (case Find r model of Inl e \<Rightarrow> Inl e | Inr a \<Rightarrow> Inr (FormatRequest a req))"

subsection \<open>LiteLLM client\<close>

text \<open>The request body; \<open>None\<close> where \<open>omitempty\<close> leaves the field out.\<close>

record liteLLMRequest =
  lrModel :: string
  lrMessages :: "Message list"
  lrMaxTokens :: "int option"
  lrTemperature :: "rat option"

record liteLLMResponse =
  lsChoices :: "string list"
  lsModel :: string
  lsPromptTokens :: int
  lsCompletionTokens :: int

text \<open>An HTTP answer: the status, the body decoded as an error body, and as a response.\<close>

record HttpResponse =
  hrStatus :: int
  hrErrorMessage :: string
  hrBody :: "string + liteLLMResponse"

record LiteLLMClient =
  llBaseURL :: string
  llTimeout :: duration
  llProviderName :: string
  llResolver :: "Registry option"

definition defaultBaseURL :: string where "defaultBaseURL = ''http://localhost:8000''"

definition defaultTimeout :: duration where "defaultTimeout = 30 * Second"

text \<open>\<open>url_scheme\<close> is \<open>url.Parse\<close>: the scheme, or \<open>None\<close> if it fails.\<close>

definition WithBaseURL :: "(string \<Rightarrow> string option) \<Rightarrow> string \<Rightarrow> LiteLLMClient \<Rightarrow> LiteLLMClient" where
  "WithBaseURL url_scheme u c =
     (case url_scheme u of
        None \<Rightarrow> c
      | Some scheme \<Rightarrow> if scheme \<noteq> ''http'' \<and> scheme \<noteq> ''https'' then c else c\<lparr>llBaseURL := u\<rparr>)"

definition WithTimeout :: "duration \<Rightarrow> LiteLLMClient \<Rightarrow> LiteLLMClient" where
  "WithTimeout d c = c\<lparr>llTimeout := d\<rparr>"

definition WithProviderName :: "string \<Rightarrow> LiteLLMClient \<Rightarrow> LiteLLMClient" where
  "WithProviderName name c = c\<lparr>llProviderName := name\<rparr>"

definition WithAdapterResolver :: "Registry \<Rightarrow> LiteLLMClient \<Rightarrow> LiteLLMClient" where
  "WithAdapterResolver r c = c\<lparr>llResolver := Some r\<rparr>"

definition NewLiteLLMClient :: "(LiteLLMClient \<Rightarrow> LiteLLMClient) list \<Rightarrow> LiteLLMClient" where
  "NewLiteLLMClient opts =
     foldl (\<lambda>c opt. opt c) \<lparr>llBaseURL = defaultBaseURL, llTimeout = defaultTimeout,
       llProviderName = ''litellm'', llResolver = None\<rparr> opts"

definition buildRequest :: "CompletionRequest \<Rightarrow> liteLLMRequest" where
  "buildRequest req =
     \<lparr>lrModel = rqModel req,
      lrMessages = (if rqSystemPrompt req \<noteq> '''' then [\<lparr>msgRole = ''system'', msgContent = rqSystemPrompt req\<rparr>]
                    else []) @ map (\<lambda>m. \<lparr>msgRole = msgRole m, msgContent = msgContent m\<rparr>) (rqMessages req),
      lrMaxTokens = (if rqMaxTokens req > 0 then Some (rqMaxTokens req) else None),
      lrTemperature = (if rqTemperature req \<ge> 0 then Some (rqTemperature req) else None)\<rparr>"

definition LiteLLM_Complete ::
  "(string \<Rightarrow> liteLLMRequest \<Rightarrow> 'w \<Rightarrow> (string + HttpResponse) \<times> 'w) \<Rightarrow> (int \<Rightarrow> string) \<Rightarrow>
   LiteLLMClient \<Rightarrow> CompletionRequest \<Rightarrow> 'w \<Rightarrow> (gwerror + CompletionResponse) \<times> 'w" where
  "LiteLLM_Complete http_do show_int c req0 w =
     (case (case llResolver c of None \<Rightarrow> Inr req0 | Some r \<Rightarrow> Resolve r (rqModel req0) req0) of
        Inl err \<Rightarrow> (Inl (ProviderError ''Complete'' (llProviderName c) err), w)
      | Inr req \<Rightarrow>
        (case http_do (llBaseURL c @ ''/chat/completions'') (buildRequest req) w of
           (Inl err, w') \<Rightarrow>
             (Inl (ProviderError '''' (llProviderName c) (GwErrorf ''%w: %s'' [err] ErrProviderUnavailable)), w')
         | (Inr resp, w') \<Rightarrow>
             if hrStatus resp = 429 then (Inl (ProviderError '''' (llProviderName c) ErrRateLimited), w')
             else if hrStatus resp \<ge> 500 then
               (Inl (ProviderError '''' (llProviderName c)
                  (GwErrorf ''%w: status %d'' [show_int (hrStatus resp)] ErrProviderUnavailable)), w')
             else if hrStatus resp \<noteq> 200 then
               (let msg = (if hrErrorMessage resp = '''' then ''status '' @ show_int (hrStatus resp)
                           else hrErrorMessage resp)
                in (Inl (ProviderError '''' (llProviderName c) (GwNew ''unexpected response: %s'' [msg])), w'))
             else (case hrBody resp of
                     Inl err \<Rightarrow>
                       (Inl (ProviderError '''' (llProviderName c) (GwNew ''decode response: %w'' [err])), w')
                   | Inr body \<Rightarrow>
                     (case lsChoices body of
                        [] \<Rightarrow> (Inl (ProviderError '''' (llProviderName c) (GwNew ''empty choices in response'' [])), w')
                      | content # _ \<Rightarrow>
                          (Inr \<lparr>rsContent = content, rsModel = lsModel body,
                             rsInputTokens = lsPromptTokens body, rsOutputTokens = lsCompletionTokens body,
                             rsFallbackUsed = False, rsProviderName = llProviderName c\<rparr>, w')))))"

subsection \<open>Costs\<close>

record 'f CostRecord =
  crRequestID :: string
  crTimestamp :: gtime
  crModel :: string
  crTier :: ModelTier
  crProvider :: string
  crInputTokens :: int
  crOutputTokens :: int
  crEstimatedCost :: 'f
  crCacheHit :: bool
  crMetadata :: "string \<rightharpoonup> string"

record TimePeriod =
  tpStart :: gtime
  tpEnd :: gtime

text \<open>A UTC day is 24 hours, counted from the zero time; \<open>AddDate\<close> of days in UTC adds whole days.\<close>

definition midnight :: "gtime \<Rightarrow> gtime" where
  "midnight now = now - now mod (24 * Hour)"

definition Today :: "gtime \<Rightarrow> TimePeriod" where
  "Today now = (let start = midnight now in \<lparr>tpStart = start, tpEnd = start + 24 * Hour\<rparr>)"

definition LastNDays :: "int \<Rightarrow> gtime \<Rightarrow> TimePeriod" where
  "LastNDays n now =
     (let n = (if n < 0 then 0 else n)
      in \<lparr>tpStart = midnight now - n * (24 * Hour), tpEnd = now\<rparr>)"

definition Since :: "gtime \<Rightarrow> gtime \<Rightarrow> TimePeriod" where
  "Since t now = \<lparr>tpStart = t, tpEnd = now\<rparr>"

record 'f CostSummary =
  csRequestCount :: int
  csInputTokens :: int
  csOutputTokens :: int
  csEstimatedCost :: 'f

text \<open>\<open>TierCostSummary\<close> is a \<open>CostSummary\<close> with its tier.\<close>

record 'f TierCostSummary = "'f CostSummary" +
  csTier :: ModelTier

record 'f CostReport =
  coPeriod :: TimePeriod
  coTierCosts :: "ModelTier \<rightharpoonup> 'f TierCostSummary"
  coTotal :: "'f CostSummary"

type_synonym 'f InMemoryCostTracker = "'f CostRecord list"

definition Record :: "'f CostRecord \<Rightarrow> 'f InMemoryCostTracker \<Rightarrow> 'f InMemoryCostTracker" where
  "Record r t = t @ [r]"

definition RecordCount :: "'f InMemoryCostTracker \<Rightarrow> nat" where
  "RecordCount t = length t"

definition zeroSummary :: "'f::zero CostSummary" where
  "zeroSummary = \<lparr>csRequestCount = 0, csInputTokens = 0, csOutputTokens = 0, csEstimatedCost = 0\<rparr>"

definition add_record :: "'f::plus CostRecord \<Rightarrow> ('f, 'm) CostSummary_scheme \<Rightarrow> ('f, 'm) CostSummary_scheme" where
  "add_record r s =
     s\<lparr>csRequestCount := csRequestCount s + 1, csInputTokens := csInputTokens s + crInputTokens r,
       csOutputTokens := csOutputTokens s + crOutputTokens r,
       csEstimatedCost := csEstimatedCost s + crEstimatedCost r\<rparr>"

definition zeroTierSummary :: "'f::zero TierCostSummary" where
  "zeroTierSummary =
     \<lparr>csRequestCount = 0, csInputTokens = 0, csOutputTokens = 0, csEstimatedCost = 0, csTier = ''''\<rparr>"

text \<open>One iteration of the loop of \<open>Report\<close>.\<close>

definition report_step :: "TimePeriod \<Rightarrow> 'f::{zero,plus} CostRecord \<Rightarrow>
    (ModelTier \<rightharpoonup> 'f TierCostSummary) \<times> 'f CostSummary \<Rightarrow> (ModelTier \<rightharpoonup> 'f TierCostSummary) \<times> 'f CostSummary" where
  "report_step period r acc =
     (let (tierCosts, total) = acc
      in if crTimestamp r < tpStart period \<or> \<not> crTimestamp r < tpEnd period then acc
         else let s = (case tierCosts (crTier r) of None \<Rightarrow> zeroTierSummary | Some s \<Rightarrow> s)\<lparr>csTier := crTier r\<rparr>
              in (tierCosts(crTier r \<mapsto> add_record r s), add_record r total))"

definition Report :: "'f::{zero,plus} InMemoryCostTracker \<Rightarrow> TimePeriod \<Rightarrow> 'f CostReport" where
  "Report t period =
     (let (tierCosts, total) = foldl (\<lambda>acc r. report_step period r acc) (Map.empty, zeroSummary) t
      in \<lparr>coPeriod = period, coTierCosts = tierCosts, coTotal = total\<rparr>)"

definition EstimateCost ::
  "(int \<Rightarrow> 'f) \<Rightarrow> string \<Rightarrow> int \<Rightarrow> int \<Rightarrow> (string \<rightharpoonup> 'f TokenCost) \<Rightarrow> 'f::{zero,plus,times,divide}" where
  "EstimateCost float64 model inputTokens outputTokens pricing =
     (case pricing model of
        None \<Rightarrow> 0
      | Some tc \<Rightarrow> (float64 inputTokens * tkInput tc + float64 outputTokens * tkOutput tc)
                     div float64 1000000)"

definition NewCostRecordFromResponse ::
  "(int \<Rightarrow> 'f) \<Rightarrow> gtime \<Rightarrow> CompletionResponse \<Rightarrow> ModelTier \<Rightarrow> (string \<rightharpoonup> 'f TokenCost) \<Rightarrow>
   'f::{zero,plus,times,divide} CostRecord" where
  "NewCostRecordFromResponse float64 now resp tier pricing =
     \<lparr>crRequestID = '''', crTimestamp = now, crModel = rsModel resp, crTier = tier,
      crProvider = rsProviderName resp, crInputTokens = rsInputTokens resp,
      crOutputTokens = rsOutputTokens resp,
      crEstimatedCost = EstimateCost float64 (rsModel resp) (rsInputTokens resp) (rsOutputTokens resp) pricing,
      crCacheHit = False, crMetadata = Map.empty\<rparr>"

section \<open>Properties of the gateway\<close>

subsection \<open>The fallback chain\<close>

text \<open>
  The specification of a chain: \<open>attempt\<close> is one model's try, \<open>all_fail\<close> runs the tries of a list
  and gives their errors and the state after them if every one of them fails and the context stays
  alive before each.
\<close>

definition attempt :: "(string \<rightharpoonup> 'w Completer) \<Rightarrow> CompletionRequest \<Rightarrow> string \<Rightarrow> 'w \<Rightarrow>
    ((string \<times> string \<times> gwerror) + CompletionResponse) \<times> 'w" where
  "attempt comps req model w =
     (case comps model of
        None \<Rightarrow> (Inl ('''', model, GwErrorf ''%w: %q'' [model] ErrNoProvider), w)
      | Some c \<Rightarrow>
          (case Complete_call c (req\<lparr>rqModel := model\<rparr>) w of
             (Inl err, w') \<Rightarrow>
               (Inl (case as_ProviderError err of Some pe \<Rightarrow> pe | None \<Rightarrow> ('''', Provider_name c, err)), w')
           | (Inr resp, w') \<Rightarrow> (Inr resp, w')))"

fun all_fail :: "(string \<rightharpoonup> 'w Completer) \<Rightarrow> ('w \<Rightarrow> gwerror option) \<Rightarrow> CompletionRequest \<Rightarrow>
    string list \<Rightarrow> 'w \<Rightarrow> ((string \<times> string \<times> gwerror) list \<times> 'w) option" where
  "all_fail comps ctx_err req [] w = Some ([], w)"
| "all_fail comps ctx_err req (model # ms) w =
     (if ctx_err w \<noteq> None then None
      else case attempt comps req model w of
             (Inr _, _) \<Rightarrow> None
           | (Inl e, w') \<Rightarrow> map_option (\<lambda>(es, w''). (e # es, w'')) (all_fail comps ctx_err req ms w'))"

lemma tryChain_Cons:
  "tryChain comps ctx_err req i (model # chain) errs w =
     (case ctx_err w of
        Some err \<Rightarrow> (Inl (FallbackError (errs @ [('''', model, err)])), w)
      | None \<Rightarrow>
        (case attempt comps req model w of
           (Inl e, w') \<Rightarrow> tryChain comps ctx_err req (Suc i) chain (errs @ [e]) w'
         | (Inr resp, w') \<Rightarrow> (Inr (resp\<lparr>rsFallbackUsed := (0 < i)\<rparr>), w')))"
  by (auto simp: attempt_def split: option.splits prod.splits sum.splits)

declare tryChain.simps(2) [simp del]

definition chain_stops :: "(string \<rightharpoonup> 'w Completer) \<Rightarrow> ('w \<Rightarrow> gwerror option) \<Rightarrow> CompletionRequest \<Rightarrow>
    string list \<Rightarrow> 'w \<Rightarrow> (string \<times> string \<times> gwerror) list \<Rightarrow> 'w \<Rightarrow> bool" where
  "chain_stops comps ctx_err req chain w es w' \<longleftrightarrow>
     all_fail comps ctx_err req chain w = Some (es, w') \<or>
     (\<exists>pre m post. chain = pre @ m # post \<and>
        (\<exists>es0 err. all_fail comps ctx_err req pre w = Some (es0, w') \<and> ctx_err w' = Some err \<and>
           es = es0 @ [('''', m, err)]))"

lemma Cons_split: "(x # xs = pre @ m # post) \<longleftrightarrow>
    (pre = [] \<and> m = x \<and> post = xs) \<or> (\<exists>pre'. pre = x # pre' \<and> xs = pre' @ m # post)"
  by (cases pre) auto

lemma ex_Cons_split:
  "(\<exists>pre m post. x # xs = pre @ m # post \<and> P pre m) \<longleftrightarrow>
     P [] x \<or> (\<exists>pre m post. xs = pre @ m # post \<and> P (x # pre) m)"
  by (simp add: Cons_split) blast

lemma tryChain_success:
  "tryChain comps ctx_err req i chain errs w = (Inr resp, w') \<longleftrightarrow>
     (\<exists>pre m post. chain = pre @ m # post \<and>
        (\<exists>es w1 resp0. all_fail comps ctx_err req pre w = Some (es, w1) \<and> ctx_err w1 = None \<and>
           attempt comps req m w1 = (Inr resp0, w') \<and>
           resp = resp0\<lparr>rsFallbackUsed := (0 < i + length pre)\<rparr>))"
proof (induction chain arbitrary: i errs w)
  case Nil
  then show ?case by simp
next
  case (Cons m ms)
  show ?case
    unfolding ex_Cons_split
    by (auto simp: tryChain_Cons Cons.IH split: option.splits prod.splits sum.splits) blast+
qed

lemma chain_stops_Nil [simp]: "chain_stops comps ctx_err req [] w es w' \<longleftrightarrow> es = [] \<and> w' = w"
  by (auto simp: chain_stops_def)

lemma chain_stops_Cons:
  "chain_stops comps ctx_err req (m # ms) w es w' \<longleftrightarrow>
     (case ctx_err w of
        Some err \<Rightarrow> es = [('''', m, err)] \<and> w' = w
      | None \<Rightarrow>
        (case attempt comps req m w of
           (Inr _, _) \<Rightarrow> False
         | (Inl e, w1) \<Rightarrow> (\<exists>es'. es = e # es' \<and> chain_stops comps ctx_err req ms w1 es' w')))"
  unfolding chain_stops_def ex_Cons_split
  by (cases "ctx_err w"; cases "attempt comps req m w"; cases "fst (attempt comps req m w)")
     (auto, blast+)

lemma tryChain_failure:
  "tryChain comps ctx_err req i chain errs w = (Inl e, w') \<longleftrightarrow>
     (\<exists>es. chain_stops comps ctx_err req chain w es w' \<and> e = FallbackError (errs @ es))"
  by (induction chain arbitrary: i errs w)
     (auto simp: tryChain_Cons chain_stops_Cons split: option.splits prod.splits sum.splits)

definition tier_chain :: "TierConfig \<Rightarrow> string list" where
  "tier_chain tc = tcPrimaryModel tc # tcFallbackChain tc"

lemma CompleteWithTier_unfold:
  "Valid tier \<Longrightarrow> gcTiers (fcConfig fc) tier = Some tc \<Longrightarrow>
   CompleteWithTier fc ctx_err tier req w =
     tryChain (completers fc) ctx_err (req\<lparr>rqModel := tcPrimaryModel tc\<rparr>) 0 (tier_chain tc) [] w"
  by (simp add: CompleteWithTier_def tier_chain_def)

lemma attempt_rqModel [simp]:
  "attempt comps (req\<lparr>rqModel := x\<rparr>) m w = attempt comps req m w"
proof -
  have eq: "req\<lparr>rqModel := x\<rparr>\<lparr>rqModel := m\<rparr> = req\<lparr>rqModel := m\<rparr>" by (cases req) simp
  show ?thesis unfolding attempt_def eq ..
qed

lemma all_fail_rqModel [simp]:
  "all_fail comps ctx_err (req\<lparr>rqModel := x\<rparr>) ms w = all_fail comps ctx_err req ms w"
  by (induction ms arbitrary: w) (auto split: sum.splits prod.splits)

lemma chain_stops_rqModel [simp]:
  "chain_stops comps ctx_err (req\<lparr>rqModel := x\<rparr>) ms w es w' = chain_stops comps ctx_err req ms w es w'"
  by (simp add: chain_stops_def)

text \<open>
  C24. A request for a configured tier succeeds exactly if some model of the tier's chain (primary
  first, then the fallbacks in order) answers after every model before it failed, with the context
  alive at each attempt; the answer is that first one, nothing is called after it, and
  \<open>FallbackUsed\<close> says whether a model other than the primary gave it.
\<close>

theorem fallback_first_success:
  assumes "Valid tier" and "gcTiers (fcConfig fc) tier = Some tc"
  shows "CompleteWithTier fc ctx_err tier req w = (Inr resp, w') \<longleftrightarrow>
    (\<exists>pre m post. tier_chain tc = pre @ m # post \<and>
      (\<exists>es w1 resp0. all_fail (completers fc) ctx_err req pre w = Some (es, w1) \<and> ctx_err w1 = None \<and>
         attempt (completers fc) req m w1 = (Inr resp0, w') \<and>
         resp = resp0\<lparr>rsFallbackUsed := (pre \<noteq> [])\<rparr>))"
  using assms by (simp add: CompleteWithTier_unfold tryChain_success)

text \<open>
  A request for a configured tier fails exactly if every model of the chain failed, or all up to
  the moment the context died; the error is a \<open>FallbackError\<close> with one entry per model tried, in
  order, and one for the model the context death skipped.
\<close>

theorem fallback_failure:
  assumes "Valid tier" and "gcTiers (fcConfig fc) tier = Some tc"
  shows "CompleteWithTier fc ctx_err tier req w = (Inl e, w') \<longleftrightarrow>
    (\<exists>es.
      (all_fail (completers fc) ctx_err req (tier_chain tc) w = Some (es, w') \<or>
       (\<exists>pre m post. tier_chain tc = pre @ m # post \<and>
         (\<exists>es0 err. all_fail (completers fc) ctx_err req pre w = Some (es0, w') \<and>
            ctx_err w' = Some err \<and> es = es0 @ [('''', m, err)]))) \<and> e = FallbackError es)"
  using assms by (simp add: CompleteWithTier_unfold tryChain_failure chain_stops_def)

lemma first_ctx_Is_append:
  "first_ctx_Is (es @ es') t \<longleftrightarrow>
     (if \<exists>(opn, p, e) \<in> set es. gw_Is e GwCanceled \<or> gw_Is e GwDeadlineExceeded
      then first_ctx_Is es t else first_ctx_Is es' t)"
  by (induction es) (auto split: prod.splits)

text \<open>The sample gateway of the witnesses: the world counts the calls.\<close>

definition sample_completer :: "string \<Rightarrow> bool \<Rightarrow> nat Completer" where
  "sample_completer name ok =
     \<lparr>Complete_call = (\<lambda>req n. (if ok then Inr \<lparr>rsContent = ''hi'', rsModel = rqModel req, rsInputTokens = 1,
          rsOutputTokens = 1, rsFallbackUsed = False, rsProviderName = name\<rparr>
        else Inl (ProviderError ''Complete'' name ErrRateLimited), Suc n)), Provider_name = name\<rparr>"

definition sample_fc :: "(nat, nat) FallbackCompleter" where
  "sample_fc = \<lparr>completers = [''claude-a'' \<mapsto> sample_completer ''anthropic'' False,
       ''gpt-b'' \<mapsto> sample_completer ''openai'' True],
     fcConfig = \<lparr>gcLiteLLMBaseURL = ''http://l'', gcTimeoutSeconds = 30,
       gcTiers = [TierMid \<mapsto> \<lparr>tcTier = TierMid, tcPrimaryModel = ''claude-a'',
         tcFallbackChain = [''gone'', ''gpt-b'']\<rparr>,
         TierCheap \<mapsto> \<lparr>tcTier = TierCheap, tcPrimaryModel = ''claude-a'', tcFallbackChain = [''gone'']\<rparr>],
       gcProviders = Map.empty, gcCostPerMillionTokens = Map.empty\<rparr>\<rparr>"

definition sample_req :: CompletionRequest where
  "sample_req = \<lparr>rqModel = '''', rqMessages = [\<lparr>msgRole = ''user'', msgContent = ''q''\<rparr>], rqSystemPrompt = '''',
     rqMaxTokens = 10, rqTemperature = 1/2, rqStream = False, rqTier = '''', rqMetadata = Map.empty\<rparr>"

lemma Valid_tiers [simp]: "Valid TierCheap" "Valid TierMid" "Valid TierFrontier" "\<not> Valid ''''"
  by (simp_all add: Valid_def TierCheap_def TierMid_def TierFrontier_def)

lemma fallback_first_success_witness:
  "\<exists>resp w'. CompleteWithTier sample_fc (\<lambda>_. None) TierMid sample_req 0 = (Inr resp, w')
     \<and> rsFallbackUsed resp \<and> w' = 2"
proof -
  have "Valid TierMid" and "gcTiers (fcConfig sample_fc) TierMid = Some \<lparr>tcTier = TierMid, tcPrimaryModel = ''claude-a'',
         tcFallbackChain = [''gone'', ''gpt-b'']\<rparr>"
    by simp (simp add: sample_fc_def TierMid_def TierCheap_def)
  note success = fallback_first_success [OF this]
  have "CompleteWithTier sample_fc (\<lambda>_. None) TierMid sample_req 0 =
      (Inr \<lparr>rsContent = ''hi'', rsModel = ''gpt-b'', rsInputTokens = 1, rsOutputTokens = 1,
         rsFallbackUsed = True, rsProviderName = ''openai''\<rparr>, 2)"
    unfolding success
    by (rule exI [of _ "[''claude-a'', ''gone'']"], rule exI [of _ "''gpt-b''"], rule exI [of _ "[]"])
       (simp add: tier_chain_def sample_fc_def sample_completer_def attempt_def)
  then show ?thesis by simp
qed

lemma fallback_failure_witness:
  "\<exists>es. CompleteWithTier sample_fc (\<lambda>n. if n = 1 then Some GwCanceled else None) TierMid sample_req 0 =
     (Inl (FallbackError es), 1) \<and> length es = 2 \<and> gw_Is (FallbackError es) ErrAllProvidersFailed
     \<and> gw_Is (FallbackError es) GwCanceled"
proof -
  have "Valid TierMid" and "gcTiers (fcConfig sample_fc) TierMid = Some \<lparr>tcTier = TierMid, tcPrimaryModel = ''claude-a'',
         tcFallbackChain = [''gone'', ''gpt-b'']\<rparr>"
    by simp (simp add: sample_fc_def TierMid_def TierCheap_def)
  note failure = fallback_failure [OF this]
  have "CompleteWithTier sample_fc (\<lambda>n. if n = 1 then Some GwCanceled else None) TierMid sample_req 0 =
      (Inl (FallbackError [(''Complete'', ''anthropic'', ErrRateLimited), ('''', ''gone'', GwCanceled)]), 1)"
    unfolding failure
    by (rule exI [of _ "[(''Complete'', ''anthropic'', ErrRateLimited), ('''', ''gone'', GwCanceled)]"],
        rule conjI, rule disjI2, rule exI [of _ "[''claude-a'']"],
        rule exI [of _ "''gone''"], rule exI [of _ "[''gpt-b'']"])
       (simp_all add: tier_chain_def sample_fc_def sample_completer_def attempt_def)
  then show ?thesis by simp
qed

subsection \<open>Configurations\<close>

definition tier_ok :: "ModelTier \<Rightarrow> TierConfig \<Rightarrow> bool" where
  "tier_ok t tc \<longleftrightarrow> Valid t \<and> tcPrimaryModel tc \<noteq> '''' \<and> '''' \<notin> set (tcFallbackChain tc)"

lemma check_chain_None: "check_chain t i ms = None \<longleftrightarrow> '''' \<notin> set ms"
  by (induction ms arbitrary: i) auto

lemma check_chain_Is: "check_chain t i ms = Some e \<Longrightarrow> gw_Is e ErrConfigInvalid"
  by (induction ms arbitrary: i) (auto split: if_splits)

lemma check_tiers_None:
  "check_tiers tiers ts = None \<longleftrightarrow> (\<forall>t \<in> set ts. tier_ok t (the (tiers t)))"
proof (induction ts)
  case (Cons t ts)
  show ?case
    using check_chain_None [of t 0 "tcFallbackChain (the (tiers t))"] Cons.IH
    by (cases "check_chain t 0 (tcFallbackChain (the (tiers t)))") (auto simp: tier_ok_def Let_def)
qed simp

lemma check_tiers_Is: "check_tiers tiers ts = Some e \<Longrightarrow> gw_Is e ErrConfigInvalid"
  by (induction ts) (auto simp: Let_def check_chain_Is split: if_splits option.splits)

text \<open>
  For every order in which Go ranges over the tiers: a configuration is accepted exactly if it has
  a base URL, a positive timeout and at least one tier, every tier is a known one, has a primary
  model and no empty entry in its chain; every refusal is an \<open>ErrConfigInvalid\<close>.
\<close>

theorem ValidateConfig_iff:
  assumes "fair_order ord" and "finite (dom (gcTiers cfg))"
  shows "case ValidateConfig ord cfg of
      None \<Rightarrow> gcLiteLLMBaseURL cfg \<noteq> '''' \<and> gcTimeoutSeconds cfg > 0 \<and> gcTiers cfg \<noteq> Map.empty \<and>
        {(t, tc). gcTiers cfg t = Some tc} \<subseteq> {(t, tc). tier_ok t tc}
    | Some e \<Rightarrow> gw_Is e ErrConfigInvalid \<and>
        \<not> (gcLiteLLMBaseURL cfg \<noteq> '''' \<and> gcTimeoutSeconds cfg > 0 \<and> gcTiers cfg \<noteq> Map.empty \<and>
           {(t, tc). gcTiers cfg t = Some tc} \<subseteq> {(t, tc). tier_ok t tc})"
proof -
  let ?all = "{(t, tc). gcTiers cfg t = Some tc} \<subseteq> {(t, tc). tier_ok t tc}"
  have tiers: "check_tiers (gcTiers cfg) (ord (dom (gcTiers cfg))) = None \<longleftrightarrow> ?all"
  proof -
    have "set (ord (dom (gcTiers cfg))) = dom (gcTiers cfg)" using assms by simp
    then show ?thesis by (auto simp: check_tiers_None dom_def)
  qed
  show ?thesis
  proof (cases "check_tiers (gcTiers cfg) (ord (dom (gcTiers cfg)))")
    case None
    then show ?thesis using tiers by (auto simp: ValidateConfig_def)
  next
    case (Some e)
    then show ?thesis using tiers check_tiers_Is [OF Some] by (auto simp: ValidateConfig_def)
  qed
qed

definition sample_order :: "ModelTier map_order" where
  "sample_order = sorted_list_of_set"

lemma sample_order_fair: "fair_order sample_order"
  by (simp add: sample_order_def fair_order_sorted)

lemma ValidateConfig_iff_witness: "ValidateConfig sample_order (fcConfig sample_fc) = None"
proof -
  have "finite (dom (gcTiers (fcConfig sample_fc)))" by (simp add: sample_fc_def)
  note iff = ValidateConfig_iff [OF sample_order_fair this]
  have "{(t, tc). gcTiers (fcConfig sample_fc) t = Some tc} \<subseteq> {(t, tc). tier_ok t tc}"
    by (auto simp: sample_fc_def tier_ok_def split: if_splits)
  moreover have "gcLiteLLMBaseURL (fcConfig sample_fc) \<noteq> ''''" and "gcTimeoutSeconds (fcConfig sample_fc) > 0"
    and "gcTiers (fcConfig sample_fc) \<noteq> Map.empty" by (simp_all add: sample_fc_def)
  ultimately show ?thesis using iff by (cases "ValidateConfig sample_order (fcConfig sample_fc)") simp_all
qed

text \<open>The tiers that claim a model as their primary.\<close>

definition primary_tiers :: "(ModelTier \<rightharpoonup> TierConfig) \<Rightarrow> string \<Rightarrow> TierConfig set" where
  "primary_tiers tiers model = {tc. \<exists>t. tiers t = Some tc \<and> tcPrimaryModel tc = model}"

lemma find_in_tiers:
  assumes "fair_order ord" and "finite (dom tiers)"
  shows "case find (\<lambda>t. tcPrimaryModel (the (tiers t)) = m) (ord (dom tiers)) of
      None \<Rightarrow> primary_tiers tiers m = {}
    | Some t \<Rightarrow> the (tiers t) \<in> primary_tiers tiers m"
proof -
  have set_ord: "set (ord (dom tiers)) = dom tiers" using assms by simp
  show ?thesis
  proof (cases "find (\<lambda>t. tcPrimaryModel (the (tiers t)) = m) (ord (dom tiers))")
    case None
    then have "\<forall>t \<in> dom tiers. tcPrimaryModel (the (tiers t)) \<noteq> m"
      using set_ord by (simp add: find_None_iff)
    then have "primary_tiers tiers m = {}" by (force simp: primary_tiers_def dom_def)
    then show ?thesis unfolding None by simp
  next
    case (Some t)
    then have "t \<in> set (ord (dom tiers))" and "tcPrimaryModel (the (tiers t)) = m"
      by (auto simp: find_Some_iff)
    then have "t \<in> dom tiers" and "tcPrimaryModel (the (tiers t)) = m" by (simp_all add: set_ord)
    then show ?thesis unfolding Some by (auto simp: primary_tiers_def)
  qed
qed

text \<open>
  \<open>chainForModel\<close> starts with the model itself and continues with the fallbacks of a tier whose
  primary it is; a model that is no tier's primary is its own chain if it has a completer, and
  otherwise the request is refused with \<open>ErrNoProvider\<close>. If the tiers with that primary agree on
  the fallbacks, the answer does not depend on the order of the map.
\<close>

theorem chainForModel_exact:
  assumes "fair_order ord" and "finite (dom (gcTiers (fcConfig fc)))"
  shows "case chainForModel ord fc model of
      Inr chain \<Rightarrow> chain \<in> (if primary_tiers (gcTiers (fcConfig fc)) model \<noteq> {}
          then tier_chain ` primary_tiers (gcTiers (fcConfig fc)) model
          else if completers fc model \<noteq> None then {[model]} else {})
    | Inl e \<Rightarrow> primary_tiers (gcTiers (fcConfig fc)) model = {} \<and> completers fc model = None \<and>
        gw_Is e ErrNoProvider"
proof -
  let ?f = "find (\<lambda>t. tcPrimaryModel (the (gcTiers (fcConfig fc) t)) = model) (ord (dom (gcTiers (fcConfig fc))))"
  note found = find_in_tiers [OF assms, of model]
  show ?thesis
  proof (cases ?f)
    case None
    then show ?thesis using found by (simp add: chainForModel_def Let_def)
  next
    case (Some t)
    then have "the (gcTiers (fcConfig fc) t) \<in> primary_tiers (gcTiers (fcConfig fc)) model" using found by simp
    moreover from this have "tier_chain (the (gcTiers (fcConfig fc) t)) =
        model # tcFallbackChain (the (gcTiers (fcConfig fc) t))"
      by (auto simp: tier_chain_def primary_tiers_def)
    ultimately show ?thesis using Some by (auto simp: chainForModel_def Let_def intro: rev_image_eqI)
  qed
qed

lemma chainForModel_exact_witness:
  "\<exists>chain. chainForModel sample_order sample_fc ''gpt-b'' = Inr chain \<and> chain = [''gpt-b'']"
proof -
  have fin: "finite (dom (gcTiers (fcConfig sample_fc)))" by (simp add: sample_fc_def)
  have none: "primary_tiers (gcTiers (fcConfig sample_fc)) ''gpt-b'' = {}"
    by (auto simp: primary_tiers_def sample_fc_def split: if_splits)
  have some: "completers sample_fc ''gpt-b'' \<noteq> None" by (simp add: sample_fc_def)
  show ?thesis
    using chainForModel_exact [OF sample_order_fair fin, of "''gpt-b''"] none some
    by (cases "chainForModel sample_order sample_fc ''gpt-b''") simp_all
qed

subsection \<open>Routing\<close>

text \<open>
  The template check is exact: a template it accepts prints as a fixed prefix, the description, a
  fixed suffix.
\<close>

lemma drop_percent_pairs_no_percent:
  "CHR ''%'' \<notin> set (drop_percent_pairs p) \<Longrightarrow> sprintf_s p s = sprintf_s p s'"
  by (induction p rule: drop_percent_pairs.induct) (auto split: if_splits)

lemma count_verbs_Cons_other: "c \<noteq> CHR ''%'' \<Longrightarrow> count_verbs (c # cs) = count_verbs cs"
  by (cases cs) simp_all

lemma count_verbs_le: "count_verbs cs \<le> count_list cs (CHR ''%'')"
  by (induction cs rule: count_verbs.induct) (auto simp: le_SucI)

lemma drop_percent_pairs_head:
  "d \<noteq> CHR ''%'' \<Longrightarrow> drop_percent_pairs (d # cs) = d # drop_percent_pairs cs"
  by (cases cs) simp_all

lemma sprintf_verbatim:
  "count_verbs (drop_percent_pairs p) = 1 \<Longrightarrow> count_list (drop_percent_pairs p) (CHR ''%'') = 1 \<Longrightarrow>
     \<exists>pre post. \<forall>s. sprintf_s p s = pre @ s @ post"
proof (induction p rule: drop_percent_pairs.induct)
  case (1 c d cs)
  show ?case
  proof (cases "c = CHR ''%'' \<and> d = CHR ''%''")
    case True
    then obtain pre post where "\<forall>s. sprintf_s cs s = pre @ s @ post" using 1 by auto
    then have "\<forall>s. sprintf_s (c # d # cs) s = (CHR ''%'' # pre) @ s @ post" using True by simp
    then show ?thesis by blast
  next
    case pair: False
    show ?thesis
    proof (cases "c = CHR ''%''")
      case True
      then have d: "d \<noteq> CHR ''%''" using pair by simp
      have one: "count_verbs (CHR ''%'' # d # drop_percent_pairs cs) = 1"
        and none: "count_list (drop_percent_pairs cs) (CHR ''%'') = 0"
        using "1.prems" True d by (simp_all add: drop_percent_pairs_head)
      have "CHR ''%'' \<notin> set (drop_percent_pairs cs)" using none by (simp add: count_list_0_iff)
      then have post: "sprintf_s cs s = sprintf_s cs ''''" for s by (rule drop_percent_pairs_no_percent)
      have "count_verbs (d # drop_percent_pairs cs) \<le> 0"
        using count_verbs_le [of "d # drop_percent_pairs cs"] none d by simp
      then have "d = CHR ''s''" using one by (simp split: if_splits)
      then have "\<forall>s. sprintf_s (c # d # cs) s = [] @ s @ sprintf_s cs ''''"
        using True post by simp
      then show ?thesis by blast
    next
      case False
      then have "\<exists>pre post. \<forall>s. sprintf_s (d # cs) s = pre @ s @ post"
        using 1 by (auto simp: drop_percent_pairs_head count_verbs_Cons_other)
      then obtain pre post where "\<forall>s. sprintf_s (d # cs) s = pre @ s @ post" by blast
      then have "\<forall>s. sprintf_s (c # d # cs) s = (c # pre) @ s @ post" using False by simp
      then show ?thesis by blast
    qed
  qed
qed simp_all

text \<open>
  The judge is asked with the task's description inserted verbatim, once, in a text that does not
  depend on the task: every template that passes the check prints that way.
\<close>

theorem judge_prompt_verbatim:
  assumes "prompt_ok (jrClassificationPrompt r)"
  shows "\<exists>pre post. \<forall>task. map msgContent (rqMessages (judge_request r task)) = [pre @ gtDescription task @ post]"
proof -
  obtain pre post where "\<forall>s. sprintf_s (jrClassificationPrompt r) s = pre @ s @ post"
    using assms sprintf_verbatim unfolding prompt_ok_def Let_def by metis
  then show ?thesis by (auto simp: judge_request_def)
qed

definition sample_router :: "nat JudgeRouter" where
  "sample_router = NewJudgeRouter ''100%% of: %s?'' [WithCompleter (sample_completer ''a'' True)]"

lemma sample_prompt_ok: "prompt_ok (jrClassificationPrompt sample_router)"
  by (simp add: sample_router_def NewJudgeRouter_def WithCompleter_def prompt_ok_def)

lemma judge_prompt_verbatim_witness:
  "\<exists>pre post. \<forall>task. map msgContent (rqMessages (judge_request sample_router task)) = [pre @ gtDescription task @ post]"
  by (rule judge_prompt_verbatim [OF sample_prompt_ok])



subsection \<open>Provider adapters: the contract and the request body\<close>

text \<open>
  What the client relies on: an adapter rewrites at most the model name and the temperature of a
  request, and says by the name alone which models are its own.
\<close>

locale request_adapter =
  fixes owns :: "string \<Rightarrow> bool" and adapt :: "CompletionRequest \<Rightarrow> CompletionRequest"
  assumes frame: "\<exists>m t. adapt req = req\<lparr>rqModel := m, rqTemperature := t\<rparr>"
    and model_only: "rqModel req = rqModel req' \<Longrightarrow> rqModel (adapt req) = rqModel (adapt req')"
begin

lemma body_messages: "lrMessages (buildRequest (adapt req)) = lrMessages (buildRequest req)"
  using frame [of req] by (auto simp: buildRequest_def)

lemma body_max_tokens: "lrMaxTokens (buildRequest (adapt req)) = lrMaxTokens (buildRequest req)"
  using frame [of req] by (auto simp: buildRequest_def)

lemma metadata: "rqMetadata (adapt req) = rqMetadata req"
  using frame [of req] by auto

lemmas body = body_messages body_max_tokens metadata

end

lemma CompletionRequest_model_temperature:
  "req = req\<lparr>rqModel := rqModel req, rqTemperature := rqTemperature req\<rparr>"
  by simp

lemma adapter_frames:
  "anthropic_FormatRequest req = req\<lparr>rqModel := rqModel req, rqTemperature := min 1 (rqTemperature req)\<rparr>"
  "openai_FormatRequest req = req\<lparr>rqModel := rqModel req, rqTemperature :=
     (if HasPrefix (rqModel req) ''o1-'' \<or> HasPrefix (rqModel req) ''o3-'' then - 1 else rqTemperature req)\<rparr>"
  "ollama_FormatRequest req = req\<lparr>rqModel := strip_prefix (rqModel req) ''ollama/'',
     rqTemperature := rqTemperature req\<rparr>"
  by (simp_all add: anthropic_FormatRequest_def openai_FormatRequest_def ollama_FormatRequest_def min_def)

interpretation anthropic: request_adapter anthropic_ParseModelName anthropic_FormatRequest
  by unfold_locales (blast intro: adapter_frames, simp add: adapter_frames)

interpretation openai: request_adapter openai_ParseModelName openai_FormatRequest
  by unfold_locales (blast intro: adapter_frames, simp add: adapter_frames)

interpretation ollama: request_adapter ollama_ParseModelName ollama_FormatRequest
  by unfold_locales (blast intro: adapter_frames, simp add: adapter_frames)

lemma prefixes_exclusive:
  "anthropic_ParseModelName m \<Longrightarrow> \<not> openai_ParseModelName m \<and> \<not> ollama_ParseModelName m"
  "openai_ParseModelName m \<Longrightarrow> \<not> anthropic_ParseModelName m \<and> \<not> ollama_ParseModelName m"
  "ollama_ParseModelName m \<Longrightarrow> \<not> anthropic_ParseModelName m \<and> \<not> openai_ParseModelName m"
  by (auto simp: anthropic_ParseModelName_def openai_ParseModelName_def ollama_ParseModelName_def HasPrefix_Cons)

lemma unique_adapter:
  "anthropic_ParseModelName m \<or> openai_ParseModelName m \<or> ollama_ParseModelName m \<Longrightarrow>
     length (filter (\<lambda>a. ParseModelName a m) DefaultRegistry) = 1"
proof -
  assume owned: "anthropic_ParseModelName m \<or> openai_ParseModelName m \<or> ollama_ParseModelName m"
  have "\<not> (anthropic_ParseModelName m \<and> openai_ParseModelName m)"
    "\<not> (anthropic_ParseModelName m \<and> ollama_ParseModelName m)"
    "\<not> (openai_ParseModelName m \<and> ollama_ParseModelName m)"
    using prefixes_exclusive by blast+
  then show ?thesis using owned by (auto simp: DefaultRegistry_def)
qed

lemma Resolve_cases:
  "Resolve DefaultRegistry model req =
     (if anthropic_ParseModelName model then Inr (anthropic_FormatRequest req)
      else if openai_ParseModelName model then Inr (openai_FormatRequest req)
      else if ollama_ParseModelName model then Inr (ollama_FormatRequest req)
      else Inl ErrNoProvider)"
  by (simp add: Resolve_def Find_def DefaultRegistry_def)

text \<open>
  What the adapters make of a request on the wire: the messages (system prompt included) and the
  token limit are the caller's; Claude models get a temperature of at most 1, the o1 and o3 models
  none, the others the caller's; the name is the caller's except that \<open>ollama/\<close> is cut off. No
  other adapter of the registry would have claimed the model.
\<close>

theorem Resolve_wire:
  assumes "Resolve DefaultRegistry (rqModel req) req = Inr req'"
  shows "lrMessages (buildRequest req') = lrMessages (buildRequest req) \<and>
    lrMaxTokens (buildRequest req') = lrMaxTokens (buildRequest req) \<and>
    (if HasPrefix (rqModel req) ''ollama/'' then rqModel req = ''ollama/'' @ lrModel (buildRequest req')
     else lrModel (buildRequest req') = rqModel req) \<and>
    lrTemperature (buildRequest req') =
      (if HasPrefix (rqModel req) ''claude-'' then map_option (min 1) (lrTemperature (buildRequest req))
       else if HasPrefix (rqModel req) ''o1-'' \<or> HasPrefix (rqModel req) ''o3-'' then None
       else lrTemperature (buildRequest req)) \<and>
    length (filter (\<lambda>a. ParseModelName a (rqModel req)) DefaultRegistry) = 1"
proof -
  consider (anthropic) "anthropic_ParseModelName (rqModel req)" "req' = anthropic_FormatRequest req"
    | (openai) "openai_ParseModelName (rqModel req)" "req' = openai_FormatRequest req"
    | (ollama) "ollama_ParseModelName (rqModel req)" "req' = ollama_FormatRequest req"
    using assms by (auto simp: Resolve_cases split: if_splits)
  then show ?thesis
  proof cases
    case anthropic
    then show ?thesis using prefixes_exclusive(1) [OF anthropic(1)] unique_adapter [of "rqModel req"]
      unfolding anthropic(2) anthropic.body
      by (simp add: anthropic_ParseModelName_def openai_ParseModelName_def ollama_ParseModelName_def
          buildRequest_def anthropic_FormatRequest_def min_def)
  next
    case openai
    then show ?thesis using prefixes_exclusive(2) [OF openai(1)] unique_adapter [of "rqModel req"]
      unfolding openai(2) openai.body
      by (simp add: anthropic_ParseModelName_def openai_ParseModelName_def ollama_ParseModelName_def
          buildRequest_def openai_FormatRequest_def)
  next
    case ollama
    then obtain rest where "rqModel req = ''ollama/'' @ rest" by (auto simp: ollama_ParseModelName_def HasPrefix_iff)
    then show ?thesis using prefixes_exclusive(3) [OF ollama(1)] ollama(1) unique_adapter [of "rqModel req"]
      unfolding ollama(2) ollama.body
      by (simp add: anthropic_ParseModelName_def strip_prefix_def openai_ParseModelName_def
          ollama_ParseModelName_def buildRequest_def ollama_FormatRequest_def)
  qed
qed

lemma Resolve_wire_witness:
  "lrTemperature (buildRequest (ollama_FormatRequest (sample_req\<lparr>rqModel := ''ollama/llama3''\<rparr>))) = Some (1/2) \<and>
   lrModel (buildRequest (ollama_FormatRequest (sample_req\<lparr>rqModel := ''ollama/llama3''\<rparr>))) = ''llama3''"
proof -
  have "Resolve DefaultRegistry (rqModel (sample_req\<lparr>rqModel := ''ollama/llama3''\<rparr>)) (sample_req\<lparr>rqModel := ''ollama/llama3''\<rparr>) =
      Inr (ollama_FormatRequest (sample_req\<lparr>rqModel := ''ollama/llama3''\<rparr>))"
    by (simp add: Resolve_cases anthropic_ParseModelName_def openai_ParseModelName_def ollama_ParseModelName_def
        HasPrefix_def)
  from Resolve_wire [OF this] show ?thesis
    by (simp add: sample_req_def buildRequest_def HasPrefix_def)
qed

subsection \<open>The LiteLLM client\<close>

text \<open>The answer of the proxy that is a completion.\<close>

definition completion_of :: "HttpResponse \<Rightarrow> (string \<times> liteLLMResponse) option" where
  "completion_of resp =
     (case hrBody resp of
        Inr body \<Rightarrow> if hrStatus resp = 200 \<and> lsChoices body \<noteq> [] then Some (hd (lsChoices body), body) else None
      | Inl _ \<Rightarrow> None)"

text \<open>
  C27. A client without a resolver sends exactly one HTTP request, to its own endpoint and with the
  caller's model, and classifies the answer: the first choice and the usage for a decodable 200 with
  a choice; otherwise a \<open>ProviderError\<close> that names the provider and is \<open>ErrRateLimited\<close> exactly for
  status 429 and \<open>ErrProviderUnavailable\<close> exactly for a failed transport or a status from 500 up.
\<close>

theorem LiteLLM_Complete_classifies:
  assumes "llResolver c = None"
    and "http_do (llBaseURL c @ ''/chat/completions'') (buildRequest req) w = (answer, w')"
  shows "snd (LiteLLM_Complete http_do show_int c req w) = w' \<and>
    (case fst (LiteLLM_Complete http_do show_int c req w) of
       Inr resp \<Rightarrow> \<exists>a content body. answer = Inr a \<and> completion_of a = Some (content, body) \<and>
         resp = \<lparr>rsContent = content, rsModel = lsModel body, rsInputTokens = lsPromptTokens body,
           rsOutputTokens = lsCompletionTokens body, rsFallbackUsed = False, rsProviderName = llProviderName c\<rparr>
     | Inl e \<Rightarrow> (\<exists>cause. as_ProviderError e = Some ('''', llProviderName c, cause)) \<and>
         (case answer of
            Inl _ \<Rightarrow> gw_Is e ErrProviderUnavailable \<and> \<not> gw_Is e ErrRateLimited
          | Inr a \<Rightarrow> completion_of a = None \<and> gw_Is e ErrRateLimited = (hrStatus a = 429) \<and>
              gw_Is e ErrProviderUnavailable = (hrStatus a \<ge> 500)))"
proof (cases answer)
  case (Inl err)
  then show ?thesis using assms by (simp add: LiteLLM_Complete_def)
next
  case (Inr a)
  consider "hrStatus a = 429" | "hrStatus a \<ge> 500" | "hrStatus a \<noteq> 429" "hrStatus a < 500" "hrStatus a \<noteq> 200"
    | (ok) "hrStatus a = 200" by linarith
  then show ?thesis
  proof cases
    case ok
    show ?thesis
    proof (cases "hrBody a")
      case (Inr body)
      then show ?thesis using assms ok \<open>answer = Inr a\<close>
        by (cases "lsChoices body") (simp_all add: LiteLLM_Complete_def completion_of_def)
    qed (use assms ok Inr in \<open>simp add: LiteLLM_Complete_def completion_of_def\<close>)
  qed (use assms Inr in \<open>simp_all add: LiteLLM_Complete_def completion_of_def Let_def split: sum.split\<close>)
qed

definition sample_client :: LiteLLMClient where
  "sample_client = NewLiteLLMClient [WithBaseURL (\<lambda>_. Some ''https'') ''https://l'', WithProviderName ''anthropic'']"

lemma LiteLLM_Complete_classifies_witness:
  "\<exists>e. fst (LiteLLM_Complete (\<lambda>url body n. (Inr \<lparr>hrStatus = 429, hrErrorMessage = ''slow down'', hrBody = Inl ''x''\<rparr>, Suc n))
     (\<lambda>_. '''') sample_client sample_req 0) = Inl e \<and> gw_Is e ErrRateLimited"
proof -
  have "llResolver sample_client = None" by (simp add: sample_client_def NewLiteLLMClient_def WithBaseURL_def WithProviderName_def)
  note classified = LiteLLM_Complete_classifies [where req = sample_req and w = "0::nat" and show_int = "\<lambda>_. ''''"
      and http_do = "\<lambda>url body n. (Inr \<lparr>hrStatus = 429, hrErrorMessage = ''slow down'', hrBody = Inl ''x''\<rparr>, Suc n)",
      OF this refl]
  from classified
  show ?thesis
    by (cases "fst (LiteLLM_Complete (\<lambda>url body n. (Inr \<lparr>hrStatus = 429, hrErrorMessage = ''slow down'', hrBody = Inl ''x''\<rparr>, Suc n))
       (\<lambda>_. '''') sample_client sample_req (0::nat))")
       (auto simp: completion_of_def)
qed

subsection \<open>Cost reports\<close>

definition in_period :: "TimePeriod \<Rightarrow> 'f CostRecord \<Rightarrow> bool" where
  "in_period p r \<longleftrightarrow> tpStart p \<le> crTimestamp r \<and> crTimestamp r < tpEnd p"

text \<open>The periods: today contains now, and the last days reach back to a midnight and end before now.\<close>

lemma Today_contains: "tpStart (Today now) \<le> now \<and> now < tpEnd (Today now)"
proof -
  have "0 < 24 * Hour" by (simp add: Hour_def Second_def Millisecond_def)
  then have "0 \<le> now mod (24 * Hour) \<and> now mod (24 * Hour) < 24 * Hour" by simp
  then show ?thesis unfolding Today_def midnight_def Let_def by simp
qed

lemma LastNDays_start:
  "0 \<le> n \<Longrightarrow> tpStart (LastNDays n now) = tpStart (Today now) - n * (24 * Hour)"
  "n \<le> 0 \<Longrightarrow> LastNDays n now = LastNDays 0 now"
  by (simp_all add: LastNDays_def Today_def Let_def)

definition sum_records :: "'f::plus CostRecord list \<Rightarrow> ('f, 'm) CostSummary_scheme \<Rightarrow> ('f, 'm) CostSummary_scheme" where
  "sum_records rs s = foldl (\<lambda>s r. add_record r s) s rs"

lemma sum_records_simps [simp]:
  "sum_records [] s = s"
  "sum_records (rs @ [r]) s = add_record r (sum_records rs s)"
  by (simp_all add: sum_records_def)

lemma sum_records_counts:
  "csRequestCount (sum_records rs s) = csRequestCount s + int (length rs)"
  "csInputTokens (sum_records rs s) = csInputTokens s + sum_list (map crInputTokens rs)"
  "csOutputTokens (sum_records rs s) = csOutputTokens s + sum_list (map crOutputTokens rs)"
  "csEstimatedCost (sum_records rs s) = foldl (+) (csEstimatedCost s) (map crEstimatedCost rs)"
  by (induction rs rule: rev_induct) (simp_all add: add_record_def)

lemma add_record_tier [simp]: "csTier (add_record r s) = csTier s"
  "add_record r s\<lparr>csTier := t\<rparr> = add_record r (s\<lparr>csTier := t\<rparr>)"
  by (simp_all add: add_record_def)

lemma sum_records_tier [simp]: "csTier (sum_records rs s) = csTier s"
  "(sum_records rs s)\<lparr>csTier := t\<rparr> = sum_records rs (s\<lparr>csTier := t\<rparr>)"
  by (induction rs rule: rev_induct) simp_all

text \<open>What the tier map of a report must hold.\<close>

definition tier_summary :: "'f::{zero,plus} CostRecord list \<Rightarrow> ModelTier \<Rightarrow> 'f TierCostSummary option" where
  "tier_summary rs t =
     (let mine = filter (\<lambda>r. crTier r = t) rs
      in if mine = [] then None else Some (sum_records mine (zeroTierSummary\<lparr>csTier := t\<rparr>)))"

lemma report_fold:
  "foldl (\<lambda>acc r. report_step p r acc) (Map.empty, zeroSummary) rs =
     (tier_summary (filter (in_period p) rs), sum_records (filter (in_period p) rs) zeroSummary)"
proof (induction rs rule: rev_induct)
  case Nil
  then show ?case by (simp add: tier_summary_def fun_eq_iff)
next
  case (snoc r rs)
  have skip: "crTimestamp r < tpStart p \<or> \<not> crTimestamp r < tpEnd p \<longleftrightarrow> \<not> in_period p r"
    by (auto simp: in_period_def)
  show ?case
  proof (cases "in_period p r")
    case True
    let ?rs = "filter (in_period p) rs"
    have "(tier_summary ?rs)(crTier r \<mapsto> add_record r
        ((case tier_summary ?rs (crTier r) of None \<Rightarrow> zeroTierSummary | Some s \<Rightarrow> s)\<lparr>csTier := crTier r\<rparr>)) =
        tier_summary (?rs @ [r])"
      by (rule ext) (auto simp: tier_summary_def Let_def)
    then show ?thesis using snoc True by (simp add: report_step_def skip Let_def)
  next
    case False
    then have "report_step p r acc = acc" for acc by (cases acc) (simp add: report_step_def skip)
    then show ?thesis using snoc False by simp
  qed
qed

lemma length_filter_partition:
  "finite T \<Longrightarrow> {f r | r. r \<in> set rs} \<subseteq> T \<Longrightarrow>
     (\<Sum>t\<in>T. int (length (filter (\<lambda>r. f r = t) rs))) = int (length rs)"
proof (induction rs)
  case (Cons r rs)
  have "f r \<in> T" and sub: "{f r | r. r \<in> set rs} \<subseteq> T" using Cons.prems by auto
  have "(\<Sum>t\<in>T. int (length (filter (\<lambda>r. f r = t) (r # rs)))) =
      (\<Sum>t\<in>T. (if f r = t then 1 else 0) + int (length (filter (\<lambda>r. f r = t) rs)))"
    by (intro sum.cong) auto
  also have "\<dots> = 1 + int (length rs)"
    using Cons.IH [OF Cons.prems(1) sub] Cons.prems(1) \<open>f r \<in> T\<close> by (simp add: sum.distrib)
  finally show ?case by simp
qed simp

text \<open>
  C26. A report over a period counts exactly the records with a timestamp in the half-open interval
  from its start to its end: each tier's summary is the sum, in recording order, of its own such
  records (and a tier without any is absent), the total is the sum over all of them, and the
  request counts of the tiers add up to the total's.
\<close>

theorem Report_exact:
  fixes t :: "'f::{zero,plus} InMemoryCostTracker" and p :: TimePeriod
  shows "let rep = Report t p; rs = filter (in_period p) t
    in coTierCosts rep = tier_summary rs \<and>
       csRequestCount (coTotal rep) = int (length rs) \<and>
       csInputTokens (coTotal rep) = sum_list (map crInputTokens rs) \<and>
       csOutputTokens (coTotal rep) = sum_list (map crOutputTokens rs) \<and>
       csEstimatedCost (coTotal rep) = foldl (+) 0 (map crEstimatedCost rs) \<and>
       (\<Sum>tier\<in>dom (coTierCosts rep). csRequestCount (the (coTierCosts rep tier))) = csRequestCount (coTotal rep)"
proof -
  let ?rs = "filter (in_period p) t"
  have rep: "coTierCosts (Report t p) = tier_summary ?rs" "coTotal (Report t p) = sum_records ?rs zeroSummary"
    by (simp_all add: Report_def report_fold)
  have dom: "dom (tier_summary ?rs) = crTier ` set ?rs"
    by (auto simp: tier_summary_def Let_def filter_empty_conv dom_def split: if_splits)
  have "(\<Sum>tier\<in>dom (tier_summary ?rs). csRequestCount (the (tier_summary ?rs tier))) =
      (\<Sum>tier\<in>crTier ` set ?rs. int (length (filter (\<lambda>r. crTier r = tier) ?rs)))"
    unfolding dom
    by (intro sum.cong)
       (auto simp: tier_summary_def Let_def sum_records_counts zeroTierSummary_def filter_empty_conv)
  also have "\<dots> = int (length ?rs)" by (rule length_filter_partition) auto
  finally show ?thesis
    by (simp add: rep sum_records_counts zeroSummary_def)
qed

text \<open>
  The interval is half-open: a record stamped with the end of the period is not in the report, while
  the comment of \<open>Report\<close> calls the period inclusive.
\<close>

definition end_record :: "int CostRecord" where
  "end_record = \<lparr>crRequestID = ''r'', crTimestamp = 20, crModel = ''m'', crTier = TierMid, crProvider = ''p'',
     crInputTokens = 1, crOutputTokens = 1, crEstimatedCost = 1, crCacheHit = False, crMetadata = Map.empty\<rparr>"

lemma report_excludes_end:
  "csRequestCount (coTotal (Report (Record end_record []) \<lparr>tpStart = 10, tpEnd = 20\<rparr>)) = 0"
  by (simp add: Report_def Record_def report_step_def end_record_def zeroSummary_def)

end
