(* ===== verification/State_Store.thy ===== *)
theory State_Store
  imports Prelude
begin

section \<open>internal/state: the state store\<close>

text \<open>
  The \<open>StateStore\<close> the orchestrator runs on is \<open>MockStore\<close> (internal/state/mock.go): agents, an
  event stream with consumer groups, a priority queue of tasks and the tasks' metadata, plus the
  errors a test (or a degraded store) injects. The record below has the fields of the struct, every
  method is one definition, and the comment lines name the Go function. Each method runs under the
  store's mutex, so a method is one atomic step. Results: a reader returns \<open>goerror + 'a\<close>, a writer
  \<open>goerror + MockStore\<close> (no method changes anything when it fails).

  \<open>sort.Slice\<close> is modelled by \<open>sort_key\<close>, which keeps the order of equal priorities; Go leaves that
  order open, and no theorem of the development depends on it. Priorities are finite float64
  values that the code only copies and compares, so they are rationals here.
\<close>

subsection \<open>Data\<close>

definition AgentStateIdle :: string where "AgentStateIdle = ''idle''"
definition AgentStateAssigned :: string where "AgentStateAssigned = ''assigned''"
definition AgentStateWorking :: string where "AgentStateWorking = ''working''"
definition AgentStateReporting :: string where "AgentStateReporting = ''reporting''"

lemmas agent_state_defs =
  AgentStateIdle_def AgentStateAssigned_def AgentStateWorking_def AgentStateReporting_def

lemma agent_states_distinct [simp]:
  "AgentStateIdle \<noteq> AgentStateAssigned" "AgentStateIdle \<noteq> AgentStateWorking"
  "AgentStateIdle \<noteq> AgentStateReporting" "AgentStateAssigned \<noteq> AgentStateWorking"
  "AgentStateAssigned \<noteq> AgentStateReporting" "AgentStateWorking \<noteq> AgentStateReporting"
  "AgentStateAssigned \<noteq> AgentStateIdle" "AgentStateWorking \<noteq> AgentStateIdle"
  "AgentStateReporting \<noteq> AgentStateIdle" "AgentStateWorking \<noteq> AgentStateAssigned"
  "AgentStateReporting \<noteq> AgentStateAssigned" "AgentStateReporting \<noteq> AgentStateWorking"
  by (simp_all add: agent_state_defs)

record AgentFields =
  fState :: string
  fLastHeartbeat :: int
  fCurrentTaskID :: string
  fCurrentTaskPriority :: rat
  fRegisteredAt :: int

text \<open>The zero value of the struct.\<close>

definition zeroAgentFields :: AgentFields where
  "zeroAgentFields = \<lparr>fState = '''', fLastHeartbeat = 0, fCurrentTaskID = '''',
     fCurrentTaskPriority = 0, fRegisteredAt = 0\<rparr>"

record Event =
  eType :: string
  eAgentID :: string
  eTaskID :: string
  eTimestamp :: int
  ePayload :: string

record StreamEvent =
  seID :: string
  seEvent :: Event

record TaskMeta =
  mDescription :: string
  mProject :: string
  mFloor :: string
  mTier :: string
  mProvider :: string

definition zeroTaskMeta :: TaskMeta where
  "zeroTaskMeta = \<lparr>mDescription = '''', mProject = '''', mFloor = '''', mTier = '''', mProvider = ''''\<rparr>"

definition TaskMeta_IsZero :: "TaskMeta \<Rightarrow> bool" where
  "TaskMeta_IsZero m \<longleftrightarrow> mDescription m = '''' \<and> mProject m = '''' \<and> mFloor m = '''' \<and>
     mTier m = '''' \<and> mProvider m = ''''"

record queueItem =
  qTaskID :: string
  qPriority :: rat

record mockGroup =
  startIdx :: nat
  lastDelivered :: nat
  consumers :: "string \<rightharpoonup> string set"

record MockStore =
  agents :: "string \<rightharpoonup> AgentFields"
  events :: "Event list"
  streamEvents :: "StreamEvent list"
  streamSeq :: nat
  groups :: "string \<rightharpoonup> mockGroup"
  queue :: "queueItem list"
  taskMeta :: "string \<rightharpoonup> TaskMeta"
  pingErr :: "goerror option"
  getAllAgentStatesErr :: "goerror option"
  queueLenErr :: "goerror option"
  getAgentFieldsErr :: "goerror option"
  setAgentFieldsErr :: "goerror option"
  getAgentFieldsByAgent :: "string \<rightharpoonup> goerror"
  setAgentFieldsByAgent :: "string \<rightharpoonup> goerror"
  enqueueTaskErr :: "goerror option"
  dequeueTaskErr :: "goerror option"
  clearCurrentTaskErr :: "goerror option"
  compareAndSetErr :: "goerror option"
  deleteAgentErr :: "goerror option"

definition NewMockStore :: MockStore where
  "NewMockStore = \<lparr>agents = Map.empty, events = [], streamEvents = [], streamSeq = 0,
     groups = Map.empty, queue = [], taskMeta = Map.empty, pingErr = None,
     getAllAgentStatesErr = None, queueLenErr = None, getAgentFieldsErr = None,
     setAgentFieldsErr = None, getAgentFieldsByAgent = Map.empty,
     setAgentFieldsByAgent = Map.empty, enqueueTaskErr = None, dequeueTaskErr = None,
     clearCurrentTaskErr = None, compareAndSetErr = None, deleteAgentErr = None\<rparr>"

subsection \<open>Agent state\<close>

definition SetAgentState :: "string \<Rightarrow> string \<Rightarrow> MockStore \<Rightarrow> goerror + MockStore" where
  "SetAgentState agentID state m =
     (let flds = (case agents m agentID of None \<Rightarrow> zeroAgentFields | Some r \<Rightarrow> r)
      in Inr (m\<lparr>agents := (agents m)(agentID \<mapsto> flds\<lparr>fState := state\<rparr>)\<rparr>))"

definition GetAgentState :: "MockStore \<Rightarrow> string \<Rightarrow> goerror + string" where
  "GetAgentState m agentID =
     (case agents m agentID of None \<Rightarrow> Inl ErrAgentNotFound | Some r \<Rightarrow> Inr (fState r))"

definition SetCompareAndSetAgentStateError :: "goerror option \<Rightarrow> MockStore \<Rightarrow> MockStore" where
  "SetCompareAndSetAgentStateError err m = m\<lparr>compareAndSetErr := err\<rparr>"

definition CompareAndSetAgentState ::
  "string \<Rightarrow> string \<Rightarrow> string \<Rightarrow> MockStore \<Rightarrow> goerror + MockStore" where
  "CompareAndSetAgentState agentID expected next_state m =
     (case compareAndSetErr m of
        Some e \<Rightarrow> Inl e
      | None \<Rightarrow>
        (case agents m agentID of
           None \<Rightarrow> Inl ErrAgentNotFound
         | Some r \<Rightarrow>
             if fState r \<noteq> expected then Inl (StateConflictError expected (fState r))
             else Inr (m\<lparr>agents := (agents m)(agentID \<mapsto> r\<lparr>fState := next_state\<rparr>)\<rparr>)))"

subsection \<open>Agent full record\<close>

text \<open>With no agent named the error is the global fallback, otherwise a per-agent override.\<close>

definition SetSetAgentFieldsError :: "goerror option \<Rightarrow> string list \<Rightarrow> MockStore \<Rightarrow> MockStore" where
  "SetSetAgentFieldsError err agentIDs m =
     (if agentIDs = [] then m\<lparr>setAgentFieldsErr := err\<rparr>
      else m\<lparr>setAgentFieldsByAgent :=
             foldl (\<lambda>b i. case err of None \<Rightarrow> b(i := None) | Some e \<Rightarrow> b(i \<mapsto> e))
               (setAgentFieldsByAgent m) agentIDs\<rparr>)"

definition SetAgentFields :: "string \<Rightarrow> AgentFields \<Rightarrow> MockStore \<Rightarrow> goerror + MockStore" where
  "SetAgentFields agentID flds m =
     (case setAgentFieldsByAgent m agentID of
        Some e \<Rightarrow> Inl e
      | None \<Rightarrow>
        (case setAgentFieldsErr m of
           Some e \<Rightarrow> Inl e
         | None \<Rightarrow> Inr (m\<lparr>agents := (agents m)(agentID \<mapsto> flds)\<rparr>)))"

definition SetGetAgentFieldsError :: "goerror option \<Rightarrow> string list \<Rightarrow> MockStore \<Rightarrow> MockStore" where
  "SetGetAgentFieldsError err agentIDs m =
     (if agentIDs = [] then m\<lparr>getAgentFieldsErr := err\<rparr>
      else m\<lparr>getAgentFieldsByAgent :=
             foldl (\<lambda>b i. case err of None \<Rightarrow> b(i := None) | Some e \<Rightarrow> b(i \<mapsto> e))
               (getAgentFieldsByAgent m) agentIDs\<rparr>)"

definition GetAgentFields :: "MockStore \<Rightarrow> string \<Rightarrow> goerror + AgentFields" where
  "GetAgentFields m agentID =
     (case getAgentFieldsByAgent m agentID of
        Some e \<Rightarrow> Inl e
      | None \<Rightarrow>
        (case getAgentFieldsErr m of
           Some e \<Rightarrow> Inl e
         | None \<Rightarrow>
           (case agents m agentID of None \<Rightarrow> Inl ErrAgentNotFound | Some r \<Rightarrow> Inr r)))"

definition SetDeleteAgentError :: "goerror option \<Rightarrow> MockStore \<Rightarrow> MockStore" where
  "SetDeleteAgentError err m = m\<lparr>deleteAgentErr := err\<rparr>"

definition DeleteAgent :: "string \<Rightarrow> MockStore \<Rightarrow> goerror + MockStore" where
  "DeleteAgent agentID m =
     (case deleteAgentErr m of
        Some e \<Rightarrow> Inl e
      | None \<Rightarrow> Inr (m\<lparr>agents := (agents m)(agentID := None)\<rparr>))"

definition ListAgents :: "string map_order \<Rightarrow> MockStore \<Rightarrow> goerror + string list" where
  "ListAgents ord m = Inr (ord (dom (agents m)))"

definition SetGetAllAgentStatesError :: "goerror option \<Rightarrow> MockStore \<Rightarrow> MockStore" where
  "SetGetAllAgentStatesError err m = m\<lparr>getAllAgentStatesErr := err\<rparr>"

definition GetAllAgentStates :: "MockStore \<Rightarrow> goerror + (string \<rightharpoonup> string)" where
  "GetAllAgentStates m =
     (case getAllAgentStatesErr m of
        Some e \<Rightarrow> Inl e
      | None \<Rightarrow> Inr (\<lambda>i. map_option fState (agents m i)))"

subsection \<open>Agent task binding\<close>

definition SetClearCurrentTaskError :: "goerror option \<Rightarrow> MockStore \<Rightarrow> MockStore" where
  "SetClearCurrentTaskError err m = m\<lparr>clearCurrentTaskErr := err\<rparr>"

definition ClearCurrentTask :: "string \<Rightarrow> MockStore \<Rightarrow> goerror + MockStore" where
  "ClearCurrentTask agentID m =
     (case clearCurrentTaskErr m of
        Some e \<Rightarrow> Inl e
      | None \<Rightarrow>
        (case agents m agentID of
           None \<Rightarrow> Inl ErrAgentNotFound
         | Some r \<Rightarrow> Inr (m\<lparr>agents := (agents m)(agentID \<mapsto>
             r\<lparr>fCurrentTaskID := '''', fCurrentTaskPriority := 0\<rparr>)\<rparr>)))"

subsection \<open>Event stream\<close>

definition mock_id :: "nat \<Rightarrow> string" where
  "mock_id n = ''mock-'' @ dec n"

definition PublishEvent :: "gtime \<Rightarrow> Event \<Rightarrow> MockStore \<Rightarrow> goerror + MockStore" where
  "PublishEvent now event m =
     (let ev = (if eTimestamp event = 0 then event\<lparr>eTimestamp := UnixMilli now\<rparr> else event);
          seq = Suc (streamSeq m)
      in Inr (m\<lparr>events := events m @ [ev], streamSeq := seq,
                streamEvents := streamEvents m @ [\<lparr>seID = mock_id seq, seEvent = ev\<rparr>]\<rparr>))"

text \<open>
  \<open>fmt.Sscanf(id, "mock-%d", &seq)\<close>: the literal prefix, blanks, an optional sign, then the longest
  run of digits, which must fit an int64; what follows is ignored. A newline before the number is
  an error. (Only ASCII blanks are listed.)
\<close>

definition is_blank :: "char \<Rightarrow> bool" where
  "is_blank c \<longleftrightarrow> of_char c \<in> {9, 11, 12, 13, 32 :: nat}"

definition scan_int64 :: "string \<Rightarrow> int option" where
  "scan_int64 s =
     (let (neg, ds) = (case s of
             [] \<Rightarrow> (False, [])
           | c # cs \<Rightarrow> if c = CHR ''-'' then (True, cs)
                       else if c = CHR ''+'' then (False, cs) else (False, s));
          tok = takeWhile is_digit ds
      in if tok = [] then None
         else let v = (if neg then - int (parse_digits tok) else int (parse_digits tok))
              in if - (2 ^ 63) \<le> v \<and> v < 2 ^ 63 then Some v else None)"

definition parseMockSeq :: "string \<Rightarrow> int option" where
  "parseMockSeq s =
     (if take 5 s = ''mock-'' then scan_int64 (dropWhile is_blank (drop 5 s)) else None)"

definition ReadEvents :: "MockStore \<Rightarrow> string \<Rightarrow> int \<Rightarrow> goerror + StreamEvent list" where
  "ReadEvents m lastID cnt =
     (if lastID = ''0'' \<or> lastID = ''0-0'' then Inr (take (nat cnt) (streamEvents m))
      else (case parseMockSeq lastID of
              None \<Rightarrow> Inr []
            | Some lastSeq \<Rightarrow>
                Inr (take (nat cnt)
                  (filter (\<lambda>se. case parseMockSeq (seID se) of
                                  None \<Rightarrow> False | Some seq \<Rightarrow> lastSeq < seq) (streamEvents m)))))"

definition TrimEvents :: "int \<Rightarrow> MockStore \<Rightarrow> MockStore" where
  "TrimEvents keep m =
     (let k = (if keep < 0 then 0 else nat keep)
      in if k < length (streamEvents m)
         then m\<lparr>streamEvents := drop (length (streamEvents m) - k) (streamEvents m)\<rparr> else m)"

definition CreateConsumerGroup :: "string \<Rightarrow> string \<Rightarrow> MockStore \<Rightarrow> goerror + MockStore" where
  "CreateConsumerGroup grp startID m =
     (case groups m grp of
        Some _ \<Rightarrow> Inr m
      | None \<Rightarrow>
          let idx = (if startID = ''$'' then length (streamEvents m) else 0)
          in Inr (m\<lparr>groups := (groups m)(grp \<mapsto>
               \<lparr>startIdx = idx, lastDelivered = idx, consumers = Map.empty\<rparr>)\<rparr>))"

text \<open>
  The delivery loop of \<open>subscribeEventsLocked\<close>: stream, next index, the consumer's pending set, and
  how many events may still be delivered.
\<close>

fun subscribeEventsLocked ::
  "StreamEvent list \<Rightarrow> nat \<Rightarrow> string set \<Rightarrow> nat \<Rightarrow> StreamEvent list \<times> nat \<times> string set" where
  "subscribeEventsLocked evs i pending 0 = ([], i, pending)"
| "subscribeEventsLocked evs i pending (Suc n) =
     (if i < length evs
      then let (res, i', pending') =
             subscribeEventsLocked evs (Suc i) (insert (seID (evs ! i)) pending) n
           in (evs ! i # res, i', pending')
      else ([], i, pending))"

text \<open>One locked attempt of \<open>SubscribeEvents\<close>: \<open>None\<close> for an unknown group.\<close>

definition subscribe_once ::
  "string \<Rightarrow> string \<Rightarrow> int \<Rightarrow> MockStore \<Rightarrow> (StreamEvent list \<times> MockStore) option" where
  "subscribe_once grp consumer cnt m =
     (case groups m grp of
        None \<Rightarrow> None
      | Some g \<Rightarrow>
          let pending = (case consumers g consumer of None \<Rightarrow> {} | Some p \<Rightarrow> p);
              (res, i, pending') =
                subscribeEventsLocked (streamEvents m) (lastDelivered g) pending (nat cnt)
          in Some (res, m\<lparr>groups := (groups m)(grp \<mapsto>
               g\<lparr>lastDelivered := i, consumers := (consumers g)(consumer \<mapsto> pending')\<rparr>)\<rparr>))"

text \<open>
  While it blocks, \<open>SubscribeEvents\<close> wakes up on the context, the deadline or a tick; between two
  wake-ups the lock is free and other calls change the store (\<open>Tick f\<close> carries that change).
\<close>

datatype wake = CtxDone goerror | Deadline | Tick "MockStore \<Rightarrow> MockStore"

fun subscribe_poll ::
  "string \<Rightarrow> string \<Rightarrow> int \<Rightarrow> wake list \<Rightarrow> MockStore \<Rightarrow>
   ((goerror option \<times> StreamEvent list) \<times> MockStore) option" where
  "subscribe_poll grp consumer cnt [] m = None"
| "subscribe_poll grp consumer cnt (CtxDone e # ws) m = Some ((Some e, []), m)"
| "subscribe_poll grp consumer cnt (Deadline # ws) m = Some ((None, []), m)"
| "subscribe_poll grp consumer cnt (Tick f # ws) m =
     (case subscribe_once grp consumer cnt (f m) of
        None \<Rightarrow> subscribe_poll grp consumer cnt ws (f m)
      | Some (res, m') \<Rightarrow>
          if res \<noteq> [] then Some ((None, res), m') else subscribe_poll grp consumer cnt ws m')"

text \<open>\<open>None\<close>: the call is still blocked when the wake-ups given run out.\<close>

definition SubscribeEvents ::
  "string \<Rightarrow> string \<Rightarrow> int \<Rightarrow> duration \<Rightarrow> wake list \<Rightarrow> MockStore \<Rightarrow>
   ((goerror option \<times> StreamEvent list) \<times> MockStore) option" where
  "SubscribeEvents grp consumer cnt block ws m =
     (case subscribe_once grp consumer cnt m of
        None \<Rightarrow> Some ((Some (ErrorNew ''SubscribeEvents: group %q not found'' [grp]), []), m)
      | Some (res, m') \<Rightarrow>
          if res \<noteq> [] \<or> block \<le> 0 then Some ((None, res), m')
          else subscribe_poll grp consumer cnt ws m')"

definition AckEvent :: "string \<Rightarrow> string list \<Rightarrow> MockStore \<Rightarrow> goerror + MockStore" where
  "AckEvent grp ids m =
     (case groups m grp of
        None \<Rightarrow> Inl (ErrorNew ''AckEvent: group %q not found'' [grp])
      | Some g \<Rightarrow> Inr (m\<lparr>groups := (groups m)(grp \<mapsto>
          g\<lparr>consumers := (\<lambda>c. map_option (\<lambda>p. p - set ids) (consumers g c))\<rparr>)\<rparr>))"

subsection \<open>Task queue\<close>

definition SetEnqueueTaskError :: "goerror option \<Rightarrow> MockStore \<Rightarrow> MockStore" where
  "SetEnqueueTaskError err m = m\<lparr>enqueueTaskErr := err\<rparr>"

definition EnqueueTaskWithMeta ::
  "string \<Rightarrow> rat \<Rightarrow> TaskMeta \<Rightarrow> MockStore \<Rightarrow> goerror + MockStore" where
  "EnqueueTaskWithMeta taskID priority meta m =
     (case enqueueTaskErr m of
        Some e \<Rightarrow> Inl e
      | None \<Rightarrow>
          let m' = m\<lparr>queue := sort_key qPriority
                      (queue m @ [\<lparr>qTaskID = taskID, qPriority = priority\<rparr>])\<rparr>
          in Inr (if TaskMeta_IsZero meta then m'
                  else m'\<lparr>taskMeta := (taskMeta m)(taskID \<mapsto> meta)\<rparr>))"

definition EnqueueTask :: "string \<Rightarrow> rat \<Rightarrow> MockStore \<Rightarrow> goerror + MockStore" where
  "EnqueueTask taskID priority m = EnqueueTaskWithMeta taskID priority zeroTaskMeta m"

definition GetTaskMeta :: "MockStore \<Rightarrow> string \<Rightarrow> goerror + TaskMeta" where
  "GetTaskMeta m taskID =
     Inr (case taskMeta m taskID of None \<Rightarrow> zeroTaskMeta | Some x \<Rightarrow> x)"

definition SetDequeueTaskError :: "goerror option \<Rightarrow> MockStore \<Rightarrow> MockStore" where
  "SetDequeueTaskError err m = m\<lparr>dequeueTaskErr := err\<rparr>"

definition DequeueTask :: "MockStore \<Rightarrow> goerror + (string \<times> rat \<times> MockStore)" where
  "DequeueTask m =
     (case dequeueTaskErr m of
        Some e \<Rightarrow> Inl e
      | None \<Rightarrow>
        (case queue m of
           [] \<Rightarrow> Inl ErrQueueEmpty
         | item # rest \<Rightarrow> Inr (qTaskID item, qPriority item, m\<lparr>queue := rest\<rparr>)))"

definition SetQueueLengthError :: "goerror option \<Rightarrow> MockStore \<Rightarrow> MockStore" where
  "SetQueueLengthError err m = m\<lparr>queueLenErr := err\<rparr>"

definition QueueLength :: "MockStore \<Rightarrow> goerror + int" where
  "QueueLength m =
     (case queueLenErr m of Some e \<Rightarrow> Inl e | None \<Rightarrow> Inr (int (length (queue m))))"

subsection \<open>Lifecycle\<close>

definition SetPingError :: "goerror option \<Rightarrow> MockStore \<Rightarrow> MockStore" where
  "SetPingError err m = m\<lparr>pingErr := err\<rparr>"

definition Ping :: "MockStore \<Rightarrow> goerror option" where
  "Ping m = pingErr m"

definition MockStore_Close :: "MockStore \<Rightarrow> goerror option" where
  "MockStore_Close m = None"

lemmas store_defs [model_simps] =
  SetAgentState_def GetAgentState_def CompareAndSetAgentState_def SetAgentFields_def
  GetAgentFields_def DeleteAgent_def ListAgents_def GetAllAgentStates_def ClearCurrentTask_def
  PublishEvent_def EnqueueTaskWithMeta_def EnqueueTask_def GetTaskMeta_def DequeueTask_def
  QueueLength_def Ping_def


subsection \<open>The interface\<close>

text \<open>
  The interface \<open>StateStore\<close>: its methods over any state \<open>'s\<close>, each with its answer and the state it
  leaves. \<open>SubscribeEvents\<close> may block for ever (\<open>None\<close>) and may return events beside an error.
\<close>

record 's StateStore =
  ssSetAgentState :: "string \<Rightarrow> string \<Rightarrow> 's \<Rightarrow> goerror option \<times> 's"
  ssGetAgentState :: "string \<Rightarrow> 's \<Rightarrow> (goerror + string) \<times> 's"
  ssCompareAndSetAgentState :: "string \<Rightarrow> string \<Rightarrow> string \<Rightarrow> 's \<Rightarrow> goerror option \<times> 's"
  ssSetAgentFields :: "string \<Rightarrow> AgentFields \<Rightarrow> 's \<Rightarrow> goerror option \<times> 's"
  ssGetAgentFields :: "string \<Rightarrow> 's \<Rightarrow> (goerror + AgentFields) \<times> 's"
  ssDeleteAgent :: "string \<Rightarrow> 's \<Rightarrow> goerror option \<times> 's"
  ssListAgents :: "'s \<Rightarrow> (goerror + string list) \<times> 's"
  ssGetAllAgentStates :: "'s \<Rightarrow> (goerror + (string \<rightharpoonup> string)) \<times> 's"
  ssPublishEvent :: "Event \<Rightarrow> 's \<Rightarrow> goerror option \<times> 's"
  ssReadEvents :: "string \<Rightarrow> int \<Rightarrow> 's \<Rightarrow> (goerror + StreamEvent list) \<times> 's"
  ssCreateConsumerGroup :: "string \<Rightarrow> string \<Rightarrow> 's \<Rightarrow> goerror option \<times> 's"
  ssSubscribeEvents ::
    "string \<Rightarrow> string \<Rightarrow> int \<Rightarrow> duration \<Rightarrow> 's \<Rightarrow> ((goerror option \<times> StreamEvent list) \<times> 's) option"
  ssAckEvent :: "string \<Rightarrow> string list \<Rightarrow> 's \<Rightarrow> goerror option \<times> 's"
  ssClearCurrentTask :: "string \<Rightarrow> 's \<Rightarrow> goerror option \<times> 's"
  ssEnqueueTask :: "string \<Rightarrow> rat \<Rightarrow> 's \<Rightarrow> goerror option \<times> 's"
  ssEnqueueTaskWithMeta :: "string \<Rightarrow> rat \<Rightarrow> TaskMeta \<Rightarrow> 's \<Rightarrow> goerror option \<times> 's"
  ssGetTaskMeta :: "string \<Rightarrow> 's \<Rightarrow> (goerror + TaskMeta) \<times> 's"
  ssDequeueTask :: "'s \<Rightarrow> (goerror + string \<times> rat) \<times> 's"
  ssQueueLength :: "'s \<Rightarrow> (goerror + int) \<times> 's"
  ssPing :: "'s \<Rightarrow> goerror option \<times> 's"
  ssClose :: "'s \<Rightarrow> goerror option \<times> 's"

text \<open>
  The in-memory store behind the interface. The order of the agents map, the clock and the wake-ups
  of a blocked \<open>SubscribeEvents\<close> come with the call.
\<close>

definition mock_write :: "MockStore \<Rightarrow> goerror + MockStore \<Rightarrow> goerror option \<times> MockStore" where
  "mock_write m r = (err_of r, state_after m r)"

definition mock_store :: "string map_order \<Rightarrow> gtime \<Rightarrow> wake list \<Rightarrow> MockStore StateStore" where
  "mock_store ord now ws =
     \<lparr>ssSetAgentState = (\<lambda>a st m. mock_write m (SetAgentState a st m)),
      ssGetAgentState = (\<lambda>a m. (GetAgentState m a, m)),
      ssCompareAndSetAgentState = (\<lambda>a e n m. mock_write m (CompareAndSetAgentState a e n m)),
      ssSetAgentFields = (\<lambda>a r m. mock_write m (SetAgentFields a r m)),
      ssGetAgentFields = (\<lambda>a m. (GetAgentFields m a, m)),
      ssDeleteAgent = (\<lambda>a m. mock_write m (DeleteAgent a m)),
      ssListAgents = (\<lambda>m. (ListAgents ord m, m)),
      ssGetAllAgentStates = (\<lambda>m. (GetAllAgentStates m, m)),
      ssPublishEvent = (\<lambda>ev m. mock_write m (PublishEvent now ev m)),
      ssReadEvents = (\<lambda>lastID cnt m. (ReadEvents m lastID cnt, m)),
      ssCreateConsumerGroup = (\<lambda>grp startID m. mock_write m (CreateConsumerGroup grp startID m)),
      ssSubscribeEvents = (\<lambda>grp consumer cnt block m. SubscribeEvents grp consumer cnt block ws m),
      ssAckEvent = (\<lambda>grp ids m. mock_write m (AckEvent grp ids m)),
      ssClearCurrentTask = (\<lambda>a m. mock_write m (ClearCurrentTask a m)),
      ssEnqueueTask = (\<lambda>t p m. mock_write m (EnqueueTask t p m)),
      ssEnqueueTaskWithMeta = (\<lambda>t p meta m. mock_write m (EnqueueTaskWithMeta t p meta m)),
      ssGetTaskMeta = (\<lambda>t m. (GetTaskMeta m t, m)),
      ssDequeueTask = (\<lambda>m. case DequeueTask m of Inl err \<Rightarrow> (Inl err, m) | Inr (t, p, m') \<Rightarrow> (Inr (t, p), m')),
      ssQueueLength = (\<lambda>m. (QueueLength m, m)),
      ssPing = (\<lambda>m. (Ping m, m)),
      ssClose = (\<lambda>m. (MockStore_Close m, m))\<rparr>"

subsection \<open>Invariant of the store\<close>

text \<open>
  Three facts tie the fields together: the agents map is finite (it is a Go map), the queue is
  sorted by priority, and the retained stream entries carry the consecutive identifiers that end
  at \<open>streamSeq\<close>.
\<close>

definition queue_inv :: "MockStore \<Rightarrow> bool" where
  "queue_inv m \<longleftrightarrow> sorted (map qPriority (queue m))"

definition stream_base :: "MockStore \<Rightarrow> nat" where
  "stream_base m = streamSeq m - length (streamEvents m)"

definition stream_inv :: "MockStore \<Rightarrow> bool" where
  "stream_inv m \<longleftrightarrow> length (streamEvents m) \<le> streamSeq m \<and>
     map seID (streamEvents m) = map mock_id [Suc (stream_base m)..<Suc (streamSeq m)]"

definition store_inv :: "MockStore \<Rightarrow> bool" where
  "store_inv m \<longleftrightarrow> finite (dom (agents m)) \<and> queue_inv m \<and> stream_inv m"

text \<open>The queue as the multiset of its (task, priority) pairs.\<close>

definition queue_items :: "MockStore \<Rightarrow> (string \<times> rat) multiset" where
  "queue_items m = image_mset (\<lambda>q. (qTaskID q, qPriority q)) (mset (queue m))"

lemma NewMockStore_inv: "store_inv NewMockStore"
  by (simp add: store_inv_def queue_inv_def stream_inv_def stream_base_def NewMockStore_def)

lemma queue_items_NewMockStore [simp]: "queue_items NewMockStore = {#}"
  by (simp add: queue_items_def NewMockStore_def)

text \<open>The invariants read the agents, the queue and the stream only.\<close>

lemma queue_inv_frame [simp]:
  "queue_inv (m\<lparr>agents := a\<rparr>) = queue_inv m"
  "queue_inv (m\<lparr>taskMeta := x\<rparr>) = queue_inv m"
  "queue_inv (m\<lparr>groups := g\<rparr>) = queue_inv m"
  by (simp_all add: queue_inv_def)

lemma stream_inv_frame [simp]:
  "stream_inv (m\<lparr>agents := a\<rparr>) = stream_inv m"
  "stream_inv (m\<lparr>taskMeta := x\<rparr>) = stream_inv m"
  "stream_inv (m\<lparr>queue := q\<rparr>) = stream_inv m"
  "stream_inv (m\<lparr>groups := g\<rparr>) = stream_inv m"
  by (simp_all add: stream_inv_def stream_base_def)

lemma SetAgentState_inv: "store_inv m \<Longrightarrow> SetAgentState i s m = Inr m' \<Longrightarrow> store_inv m'"
  by (auto simp: SetAgentState_def Let_def store_inv_def)

lemma CompareAndSetAgentState_inv:
  "store_inv m \<Longrightarrow> CompareAndSetAgentState i e n m = Inr m' \<Longrightarrow> store_inv m'"
  by (auto simp: CompareAndSetAgentState_def store_inv_def split: option.splits if_splits)

lemma SetAgentFields_inv: "store_inv m \<Longrightarrow> SetAgentFields i f m = Inr m' \<Longrightarrow> store_inv m'"
  by (auto simp: SetAgentFields_def store_inv_def split: option.splits)

lemma DeleteAgent_inv: "store_inv m \<Longrightarrow> DeleteAgent i m = Inr m' \<Longrightarrow> store_inv m'"
  by (auto simp: DeleteAgent_def store_inv_def split: option.splits)

lemma ClearCurrentTask_inv: "store_inv m \<Longrightarrow> ClearCurrentTask i m = Inr m' \<Longrightarrow> store_inv m'"
  by (auto simp: ClearCurrentTask_def store_inv_def split: option.splits)

lemma PublishEvent_inv: "store_inv m \<Longrightarrow> PublishEvent t e m = Inr m' \<Longrightarrow> store_inv m'"
  by (auto simp: PublishEvent_def Let_def store_inv_def queue_inv_def stream_inv_def
      stream_base_def Suc_diff_le)

lemma TrimEvents_inv:
  assumes "store_inv m"
  shows "store_inv (TrimEvents k m)"
proof -
  let ?n = "length (streamEvents m) - nat k"
  have len: "length (streamEvents m) \<le> streamSeq m"
    and ids: "map seID (streamEvents m) = map mock_id [Suc (stream_base m)..<Suc (streamSeq m)]"
    using assms by (simp_all add: store_inv_def stream_inv_def)
  have "map seID (drop ?n (streamEvents m)) =
      map mock_id (drop ?n [Suc (stream_base m)..<Suc (streamSeq m)])"
    by (metis drop_map ids)
  then have "stream_inv (m\<lparr>streamEvents := drop ?n (streamEvents m)\<rparr>)"
    using len by (auto simp: stream_inv_def stream_base_def drop_upt simp del: upt_Suc
        intro!: arg_cong [where f = "\<lambda>x. map mock_id [x..<Suc (streamSeq m)]"])
  then show ?thesis
    using assms by (auto simp: TrimEvents_def Let_def store_inv_def queue_inv_def
        stream_inv_def stream_base_def)
qed

lemma EnqueueTaskWithMeta_inv:
  assumes "store_inv m" and "EnqueueTaskWithMeta t p x m = Inr m'"
  shows "store_inv m'"
proof -
  let ?m = "m\<lparr>queue := sort_key qPriority (queue m @ [\<lparr>qTaskID = t, qPriority = p\<rparr>])\<rparr>"
  have "store_inv ?m" "store_inv (?m\<lparr>taskMeta := (taskMeta m)(t \<mapsto> x)\<rparr>)"
    using assms(1) by (simp_all add: store_inv_def queue_inv_def)
  then show ?thesis
    using assms(2) by (auto simp: EnqueueTaskWithMeta_def Let_def split: option.splits if_splits)
qed

lemma EnqueueTask_inv: "store_inv m \<Longrightarrow> EnqueueTask t p m = Inr m' \<Longrightarrow> store_inv m'"
  by (auto simp: EnqueueTask_def intro: EnqueueTaskWithMeta_inv)

lemma DequeueTask_inv: "store_inv m \<Longrightarrow> DequeueTask m = Inr (t, p, m') \<Longrightarrow> store_inv m'"
  by (auto simp: DequeueTask_def store_inv_def queue_inv_def split: option.splits list.splits)

lemmas store_inv_intros = SetAgentState_inv CompareAndSetAgentState_inv SetAgentFields_inv
  DeleteAgent_inv ClearCurrentTask_inv PublishEvent_inv EnqueueTaskWithMeta_inv EnqueueTask_inv
  DequeueTask_inv


subsection \<open>The priority queue as an interface\<close>

text \<open>
  What the supervisor relies on: an enqueue adds one item, a dequeue removes one of least priority,
  and a queue that reports itself empty holds nothing. The laws speak of the multiset of items, so
  they hold whatever order Go gives to equal priorities.
\<close>

locale priority_task_queue =
  fixes enq :: "string \<Rightarrow> rat \<Rightarrow> 's \<Rightarrow> goerror + 's"
    and deq :: "'s \<Rightarrow> goerror + (string \<times> rat \<times> 's)"
    and items :: "'s \<Rightarrow> (string \<times> rat) multiset"
    and invar :: "'s \<Rightarrow> bool"
  assumes enq_items: "invar s \<Longrightarrow> enq t p s = Inr s' \<Longrightarrow> items s' = add_mset (t, p) (items s)"
    and enq_invar: "invar s \<Longrightarrow> enq t p s = Inr s' \<Longrightarrow> invar s'"
    and deq_items: "invar s \<Longrightarrow> deq s = Inr (t, p, s') \<Longrightarrow> items s = add_mset (t, p) (items s')"
    and deq_least: "invar s \<Longrightarrow> deq s = Inr (t, p, s') \<Longrightarrow> (t', p') \<in># items s' \<Longrightarrow> p \<le> p'"
    and deq_invar: "invar s \<Longrightarrow> deq s = Inr (t, p, s') \<Longrightarrow> invar s'"
    and deq_empty: "invar s \<Longrightarrow> deq s = Inl ErrQueueEmpty \<longleftrightarrow> items s = {#}"
begin

lemma requeue_items:
  "invar s \<Longrightarrow> deq s = Inr (t, p, s1) \<Longrightarrow> enq t p s1 = Inr s2 \<Longrightarrow> items s2 = items s"
  using deq_items enq_items deq_invar by metis

lemma deq_priorities_ascend:
  assumes "invar s" and "deq s = Inr (t, p, s1)" and "deq s1 = Inr (t', p', s2)"
  shows "p \<le> p'"
  using assms deq_least [OF assms(1,2), of t' p'] deq_items deq_invar by (metis union_single_eq_member)

lemma deq_priority_of_items:
  assumes "invar s" and "deq s = Inr (t, p, s')" and "(u, q) \<in># items s"
  shows "p \<le> q"
  using assms deq_items [OF assms(1,2)] deq_least [OF assms(1,2)] by auto

text \<open>An urgent task overtakes everything that is waiting.\<close>

lemma enq_urgent_deq:
  assumes "invar s" and "enq t p s = Inr s1" and "deq s1 = Inr (u, q, s2)"
    and "\<And>v r. (v, r) \<in># items s \<Longrightarrow> p < r"
  shows "u = t \<and> q = p \<and> items s2 = items s"
proof -
  have i1: "invar s1" and m1: "items s1 = add_mset (t, p) (items s)"
    using assms(1,2) enq_invar enq_items by auto
  have "q \<le> p"
    using deq_priority_of_items [OF i1 assms(3), of t p] m1 by simp
  moreover have "(u, q) \<in># items s1"
    using deq_items [OF i1 assms(3)] by simp
  ultimately have "(u, q) = (t, p)"
    using m1 assms(4) by fastforce
  then show ?thesis
    using m1 deq_items [OF i1 assms(3)] by auto
qed

end

definition task_queue_ok :: "MockStore \<Rightarrow> bool" where
  "task_queue_ok m \<longleftrightarrow> queue_inv m \<and> dequeueTaskErr m = None"

lemma EnqueueTaskWithMeta_items:
  "EnqueueTaskWithMeta t p x m = Inr m' \<Longrightarrow> queue_items m' = add_mset (t, p) (queue_items m)"
  by (auto simp: EnqueueTaskWithMeta_def Let_def queue_items_def split: option.splits if_splits)

lemma EnqueueTask_items:
  "EnqueueTask t p m = Inr m' \<Longrightarrow> queue_items m' = add_mset (t, p) (queue_items m)"
  by (simp add: EnqueueTask_def EnqueueTaskWithMeta_items)

lemma DequeueTask_items:
  "DequeueTask m = Inr (t, p, m') \<Longrightarrow> queue_items m = add_mset (t, p) (queue_items m')"
  by (auto simp: DequeueTask_def queue_items_def split: option.splits list.splits)

lemma EnqueueTask_queue_ok:
  "task_queue_ok m \<Longrightarrow> EnqueueTask t p m = Inr m' \<Longrightarrow> task_queue_ok m'"
  by (auto simp: task_queue_ok_def EnqueueTask_def EnqueueTaskWithMeta_def Let_def queue_inv_def
      split: option.splits if_splits)

lemma DequeueTask_queue_ok:
  "task_queue_ok m \<Longrightarrow> DequeueTask m = Inr (t, p, m') \<Longrightarrow> task_queue_ok m'"
  by (auto simp: task_queue_ok_def DequeueTask_def queue_inv_def split: option.splits list.splits)

lemma DequeueTask_least:
  assumes "task_queue_ok m" and "DequeueTask m = Inr (t, p, m')" and "(t', p') \<in># queue_items m'"
  shows "p \<le> p'"
  using assms
  by (auto simp: task_queue_ok_def DequeueTask_def queue_inv_def queue_items_def
      split: option.splits list.splits)

lemma DequeueTask_empty:
  "task_queue_ok m \<Longrightarrow> DequeueTask m = Inl ErrQueueEmpty \<longleftrightarrow> queue_items m = {#}"
  by (auto simp: task_queue_ok_def DequeueTask_def queue_items_def split: option.splits list.splits)

interpretation mock_queue: priority_task_queue EnqueueTask DequeueTask queue_items task_queue_ok
proof unfold_locales
  fix s s' :: MockStore and t p assume "task_queue_ok s" "EnqueueTask t p s = Inr s'"
  then show "queue_items s' = add_mset (t, p) (queue_items s)" and "task_queue_ok s'"
    by (simp_all add: EnqueueTask_items EnqueueTask_queue_ok)
next
  fix s s' :: MockStore and t p assume d: "task_queue_ok s" "DequeueTask s = Inr (t, p, s')"
  then show "queue_items s = add_mset (t, p) (queue_items s')" and "task_queue_ok s'"
    by (simp_all add: DequeueTask_items DequeueTask_queue_ok)
  fix t' p' assume "(t', p') \<in># queue_items s'"
  with d show "p \<le> p'" by (rule DequeueTask_least)
qed (rule DequeueTask_empty)


subsection \<open>Cursors of the event stream\<close>

lemma is_digit_not_blank: "is_digit c \<Longrightarrow> \<not> is_blank c \<and> c \<noteq> CHR ''-'' \<and> c \<noteq> CHR ''+''"
  by (auto simp: is_digit_def is_blank_def)

lemma scan_int64_dec:
  assumes "n < 2 ^ 63"
  shows "scan_int64 (dec n) = Some (int n)"
proof -
  obtain c cs where c: "dec n = c # cs" by (cases "dec n") auto
  have digits: "list_all is_digit (dec n)" by (rule dec_digits)
  then have "c \<noteq> CHR ''-''" "c \<noteq> CHR ''+''"
    using c is_digit_not_blank by auto
  moreover have "takeWhile is_digit (dec n) = dec n"
    using digits by (simp add: list_all_iff takeWhile_eq_all_conv)
  moreover have "int n < 2 ^ 63"
    using assms by (metis of_nat_less_iff of_nat_numeral of_nat_power)
  ultimately show ?thesis
    using c by (auto simp: scan_int64_def Let_def) (metis parse_digits_dec)+
qed

lemma parseMockSeq_mock_id [simp]: "n < 2 ^ 63 \<Longrightarrow> parseMockSeq (mock_id n) = Some (int n)"
proof -
  assume n: "n < 2 ^ 63"
  have "dropWhile is_blank (dec n) = dec n"
    using dec_digits [of n] is_digit_not_blank by (cases "dec n") auto
  then show ?thesis using n by (simp add: parseMockSeq_def mock_id_def scan_int64_dec)
qed

lemma mock_id_inject [simp]: "mock_id m = mock_id n \<longleftrightarrow> m = n"
  by (simp add: mock_id_def)

lemma mock_id_not_start [simp]: "mock_id n \<noteq> ''0''" "mock_id n \<noteq> ''0-0''"
  by (simp_all add: mock_id_def)

text \<open>
  How many of the retained entries a cursor has already seen. A cursor is an exclusive lower
  bound, whether or not its entry is still retained; an unreadable cursor sees nothing more.
\<close>

definition cursor_pos :: "MockStore \<Rightarrow> string \<Rightarrow> nat" where
  "cursor_pos m c =
     (if c = ''0'' \<or> c = ''0-0'' then 0
      else case parseMockSeq c of
             None \<Rightarrow> length (streamEvents m)
           | Some q \<Rightarrow> nat (q - int (stream_base m)))"

lemma stream_base_length: "stream_inv m \<Longrightarrow> stream_base m + length (streamEvents m) = streamSeq m"
  by (simp add: stream_inv_def stream_base_def)

lemma stream_id_nth:
  assumes "stream_inv m" and "i < length (streamEvents m)"
  shows "seID (streamEvents m ! i) = mock_id (Suc (stream_base m + i))"
proof -
  have "seID (streamEvents m ! i) = map mock_id [Suc (stream_base m)..<Suc (streamSeq m)] ! i"
    using assms by (metis nth_map stream_inv_def)
  moreover have "Suc (stream_base m) + i < Suc (streamSeq m)"
    using assms(2) stream_base_length [OF assms(1)] by linarith
  ultimately show ?thesis by (simp del: upt_Suc)
qed

lemma drop_eq_filter_seq:
  assumes "stream_inv m" and "streamSeq m < 2 ^ 63"
  shows "filter (\<lambda>se. case parseMockSeq (seID se) of None \<Rightarrow> False | Some seq \<Rightarrow> q < seq)
           (streamEvents m) = drop (nat (q - int (stream_base m))) (streamEvents m)"
    (is "filter ?P ?evs = drop ?k ?evs")
proof -
  have P: "?P (?evs ! i) \<longleftrightarrow> ?k \<le> i" if "i < length ?evs" for i
  proof -
    have "Suc (stream_base m + i) \<le> streamSeq m"
      using that stream_base_length [OF assms(1)] by linarith
    then show ?thesis
      using assms(2) stream_id_nth [OF assms(1) that] by (auto simp: nat_le_iff)
  qed
  have "filter ?P (take ?k ?evs) = []"
    by (auto simp: filter_empty_conv in_set_conv_nth P)
  moreover have "filter ?P (drop ?k ?evs) = drop ?k ?evs"
    by (rule filter_True) (auto simp: in_set_conv_nth P)
  ultimately show ?thesis
    by (metis append_Nil append_take_drop_id filter_append)
qed

text \<open>\<open>ReadEvents\<close> is the window of the given size at the cursor's position.\<close>

lemma ReadEvents_window:
  assumes "stream_inv m" and "streamSeq m < 2 ^ 63"
  shows "ReadEvents m c n = Inr (take (nat n) (drop (cursor_pos m c) (streamEvents m)))"
  using assms drop_eq_filter_seq [OF assms]
  by (auto simp: ReadEvents_def cursor_pos_def split: option.splits)

lemma cursor_pos_id:
  assumes "stream_inv m" and "streamSeq m < 2 ^ 63" and "i < length (streamEvents m)"
  shows "cursor_pos m (seID (streamEvents m ! i)) = Suc i"
proof -
  have "Suc (stream_base m + i) < 2 ^ 63"
    using assms(2,3) stream_base_length [OF assms(1)] by linarith
  then show ?thesis by (simp add: stream_id_nth [OF assms(1,3)] cursor_pos_def)
qed

text \<open>
  The interface the event readers (broker, SSE backfill) use: a log, a position for every cursor,
  and \<open>read\<close> as a window. Paging through the log from the last identifier read misses nothing and
  repeats nothing.
\<close>

locale event_log =
  fixes read :: "'s \<Rightarrow> string \<Rightarrow> int \<Rightarrow> goerror + StreamEvent list"
    and log :: "'s \<Rightarrow> StreamEvent list"
    and pos :: "'s \<Rightarrow> string \<Rightarrow> nat"
    and invar :: "'s \<Rightarrow> bool"
  assumes read_window: "invar s \<Longrightarrow> read s c n = Inr (take (nat n) (drop (pos s c) (log s)))"
    and pos_start: "invar s \<Longrightarrow> pos s ''0'' = 0"
    and pos_id: "invar s \<Longrightarrow> i < length (log s) \<Longrightarrow> pos s (seID (log s ! i)) = Suc i"
begin

lemma ids_distinct: "invar s \<Longrightarrow> distinct (map seID (log s))"
  by (auto simp: distinct_conv_nth) (metis Suc_inject pos_id)

lemma pos_last_read:
  assumes "invar s" and "read s c n = Inr evs" and "evs \<noteq> []"
  shows "pos s (seID (last evs)) = pos s c + length evs"
proof -
  have evs: "evs = take (nat n) (drop (pos s c) (log s))"
    using assms by (simp add: read_window)
  let ?i = "pos s c + length evs - 1"
  have "length evs \<le> length (log s) - pos s c" by (simp add: evs)
  then have i: "?i < length (log s)" using assms(3) by (cases evs) auto
  have "evs ! (length evs - 1) = log s ! (pos s c + (length evs - 1))"
    using assms(3) unfolding evs by (subst nth_take) (auto simp: less_le_trans min_def)
  moreover have "pos s c + (length evs - 1) = ?i" using assms(3) by (cases evs) auto
  ultimately have "last evs = log s ! ?i" using assms(3) by (simp add: last_conv_nth)
  then show ?thesis using pos_id [OF assms(1) i] assms(3) by (cases evs) auto
qed

text \<open>A second read from the last identifier continues exactly where the first one stopped.\<close>

lemma read_continues:
  assumes "invar s" and "read s c n = Inr evs" and "evs \<noteq> []"
    and "read s (seID (last evs)) k = Inr evs2"
  shows "evs @ evs2 = take (length evs + nat k) (drop (pos s c) (log s))"
proof -
  have evs: "evs = take (length evs) (drop (pos s c) (log s))"
    using assms(1,2) by (simp add: read_window) (metis take_all_iff take_take min_def length_take nle_le)
  have "evs2 = take (nat k) (drop (pos s c + length evs) (log s))"
    using assms pos_last_read [OF assms(1-3)] by (simp add: read_window)
  then have "evs2 = take (nat k) (drop (length evs) (drop (pos s c) (log s)))"
    by (simp add: add.commute)
  then show ?thesis by (metis evs take_add)
qed

lemma read_empty_iff:
  assumes "invar s" and "0 < n"
  shows "read s c n = Inr [] \<longleftrightarrow> length (log s) \<le> pos s c"
  using assms by (simp add: read_window)

end

interpretation mock_log: event_log ReadEvents streamEvents cursor_pos
  "\<lambda>m. stream_inv m \<and> streamSeq m < 2 ^ 63"
  by unfold_locales (auto simp: ReadEvents_window cursor_pos_id, simp add: cursor_pos_def)

subsection \<open>Consumer groups\<close>

lemma subscribeEventsLocked_window:
  "subscribeEventsLocked evs i pending n =
     (take n (drop i evs), i + length (take n (drop i evs)),
      pending \<union> seID ` set (take n (drop i evs)))"
proof (induction evs i pending n rule: subscribeEventsLocked.induct)
  case (2 evs i pending n)
  show ?case
  proof (cases "i < length evs")
    case True
    then have "drop i evs = evs ! i # drop (Suc i) evs" by (simp add: Cons_nth_drop_Suc)
    with True 2 show ?thesis by auto
  qed simp
qed simp

text \<open>A group's next index after a subscribe, and what was handed out.\<close>

lemma subscribe_once_window:
  assumes "groups m grp = Some g" and "subscribe_once grp c cnt m = Some (res, m')"
  shows "res = take (nat cnt) (drop (lastDelivered g) (streamEvents m))"
    and "\<exists>g'. groups m' grp = Some g' \<and> lastDelivered g' = lastDelivered g + length res"
    and "streamEvents m' = streamEvents m"
  using assms
  by (auto simp: subscribe_once_def Let_def subscribeEventsLocked_window split: prod.splits)

text \<open>A sequence of calls by the consumers of one group, with the results in order.\<close>

fun subscribe_calls ::
  "string \<Rightarrow> (string \<times> int) list \<Rightarrow> MockStore \<Rightarrow> (string \<times> StreamEvent list) list" where
  "subscribe_calls grp [] m = []"
| "subscribe_calls grp ((c, cnt) # cs) m =
     (case subscribe_once grp c cnt m of
        None \<Rightarrow> []
      | Some (res, m') \<Rightarrow> (c, res) # subscribe_calls grp cs m')"

lemma subscribe_calls_slice:
  assumes "groups m grp = Some g"
  shows "\<exists>k. concat (map snd (subscribe_calls grp cs m)) =
           take k (drop (lastDelivered g) (streamEvents m))"
  using assms
proof (induction cs arbitrary: m g)
  case (Cons call cs)
  obtain c cnt where call: "call = (c, cnt)" by (cases call)
  show ?case
  proof (cases "subscribe_once grp c cnt m")
    case None
    then show ?thesis by (auto simp: call intro!: exI [of _ 0])
  next
    case (Some r)
    obtain res m' where r: "subscribe_once grp c cnt m = Some (res, m')"
      using Some by (cases r) auto
    note w = subscribe_once_window [OF Cons.prems r]
    then obtain g' where g': "groups m' grp = Some g'"
      and pos: "lastDelivered g' = lastDelivered g + length res" by blast
    obtain k where "concat (map snd (subscribe_calls grp cs m')) =
        take k (drop (lastDelivered g + length res) (streamEvents m))"
      using Cons.IH [OF g'] w(3) pos by auto
    moreover have "res = take (length res) (drop (lastDelivered g) (streamEvents m))"
      using w(1) by (metis append_eq_conv_conj append_take_drop_id)
    ultimately have "res @ concat (map snd (subscribe_calls grp cs m')) =
        take (length res + k) (drop (lastDelivered g) (streamEvents m))"
      by (metis add.commute drop_drop take_add)
    then show ?thesis using r by (auto simp: call)
  qed
qed (auto intro: exI [of _ 0])

lemma stream_ids_distinct:
  assumes "stream_inv m"
  shows "distinct (map seID (streamEvents m))"
proof -
  have "distinct (map mock_id [Suc (stream_base m)..<Suc (streamSeq m)])"
    by (simp add: distinct_map inj_on_def del: upt_Suc)
  then show ?thesis using assms by (simp add: stream_inv_def)
qed

text \<open>
  C23. Competing consumers of one group each receive distinct events: over any sequence of calls,
  by whatever consumers, the deliveries put together are a slice of the stream in order, so no
  event reaches two consumers and no event between two delivered ones is skipped.
\<close>

theorem competing_consumers_distinct:
  assumes "stream_inv m" and "groups m grp = Some g"
  shows "distinct (map seID (concat (map snd (subscribe_calls grp cs m)))) \<and>
    (\<exists>k. concat (map snd (subscribe_calls grp cs m)) =
       take k (drop (lastDelivered g) (streamEvents m)))"
proof -
  obtain k where k: "concat (map snd (subscribe_calls grp cs m)) =
      take k (drop (lastDelivered g) (streamEvents m))"
    using subscribe_calls_slice [OF assms(2)] by blast
  have "distinct (map seID (take k (drop (lastDelivered g) (streamEvents m))))"
    by (metis assms(1) distinct_drop distinct_take drop_map stream_ids_distinct take_map)
  with k show ?thesis by auto
qed

definition demo_event :: "string \<Rightarrow> Event" where
  "demo_event ty = \<lparr>eType = ty, eAgentID = ''a1'', eTaskID = '''', eTimestamp = 1, ePayload = ''''\<rparr>"

definition demo_stream :: MockStore where
  "demo_stream = NewMockStore\<lparr>streamSeq := 2,
     streamEvents := [\<lparr>seID = ''mock-1'', seEvent = demo_event ''x''\<rparr>,
                      \<lparr>seID = ''mock-2'', seEvent = demo_event ''y''\<rparr>],
     groups := [''g'' \<mapsto> \<lparr>startIdx = 0, lastDelivered = 0, consumers = Map.empty\<rparr>]\<rparr>"

lemma demo_stream_inv: "stream_inv demo_stream"
  by (simp add: demo_stream_def stream_inv_def stream_base_def NewMockStore_def mock_id_def
      dec.simps digit_char_def upt_conv_Cons)

theorem competing_consumers_distinct_witness:
  "distinct (map seID (concat (map snd
     (subscribe_calls ''g'' [(''c1'', 1), (''c2'', 5)] demo_stream)))) \<and>
   length (concat (map snd (subscribe_calls ''g'' [(''c1'', 1), (''c2'', 5)] demo_stream))) = 2"
proof -
  have g: "groups demo_stream ''g'' =
      Some \<lparr>startIdx = 0, lastDelivered = 0, consumers = Map.empty\<rparr>"
    by (simp add: demo_stream_def)
  have "length (concat (map snd
      (subscribe_calls ''g'' [(''c1'', 1), (''c2'', 5)] demo_stream))) = 2"
    by (simp add: subscribe_once_def Let_def subscribeEventsLocked_window demo_stream_def)
  then show ?thesis
    using competing_consumers_distinct [OF demo_stream_inv g] by blast
qed

end
