(* ===== verification/Redis_Store.thy ===== *)
theory Redis_Store
  imports State_Store Go_Strings
begin

section \<open>internal/state/redis.go: the Redis store\<close>

text \<open>
  \<open>RedisStore\<close>, the alternative \<open>StateStore\<close>. The Redis server and its client library are parameters:
  a server is a record of functions that run one command, a pipeline of commands or a script on a
  database of any type. What the commands are documented to do is stated afterwards as laws of a
  view of the database (\<open>redis_ok\<close>); the definitions below only say which commands the store sends and
  what it makes of the replies. The two scripts are part of the source and are translated with the
  commands they call.
\<close>

subsection \<open>Commands and replies\<close>

datatype rcmd =
    HSET string "(string \<times> string) list" | HGET string string | HGETALL string | EXISTS string | DEL string
  | SADD string string | SREM string string | SMEMBERS string
  | ZADD string rat string | ZPOPMIN string int | ZCARD string | EXPIRE string duration
  | XADD string "(string \<times> string) list" | XREAD string string int
  | XGROUP_CREATE string string string | XREADGROUP string string string int duration
  | XACK string string "string list" | PING

type_synonym xmessage = "string \<times> (string \<times> string) list"

datatype reply =
    NilReply | IntReply int | StrReply string | StrsReply "string list" | HashReply "(string \<times> string) list"
  | ScoredReply "(string \<times> rat) list" | StreamsReply "(string \<times> xmessage list) list" | ArrReply "reply list"

text \<open>
  \<open>rPipe\<close> takes whether the pipeline is a transaction and returns the first error and the result of
  every command; \<open>rCall\<close> is \<open>redis.call\<close> inside a script.
\<close>

record 'd Redis =
  rDo :: "rcmd \<Rightarrow> 'd \<Rightarrow> (goerror + reply) \<times> 'd"
  rPipe :: "bool \<Rightarrow> rcmd list \<Rightarrow> 'd \<Rightarrow> goerror option \<times> (goerror + reply) list \<times> 'd"
  rCall :: "rcmd \<Rightarrow> 'd \<Rightarrow> (goerror + reply) \<times> 'd"
  rScript :: "('d \<Rightarrow> (goerror + reply) \<times> 'd) \<Rightarrow> 'd \<Rightarrow> (goerror + reply) \<times> 'd"
  rClose :: "'d \<Rightarrow> goerror option \<times> 'd"

text \<open>The client returns the error \<open>redis.Nil\<close> for a nil reply.\<close>

definition redis_Nil :: goerror where
  "redis_Nil = ErrorNew ''redis: nil'' []"

text \<open>
  The store: its two fields, and the parts of the standard library that print and parse a float and
  print an error.
\<close>

record 'd RedisStore =
  client :: "'d Redis"
  keyPrefix :: string
  formatFloat :: "rat \<Rightarrow> string"
  parseFloat :: "string \<Rightarrow> goerror + rat"
  errText :: "goerror \<Rightarrow> string"

definition fieldState :: string where "fieldState = ''state''"
definition fieldLastHeartbeat :: string where "fieldLastHeartbeat = ''last_heartbeat''"
definition fieldCurrentTask :: string where "fieldCurrentTask = ''current_task_id''"
definition fieldCurrentTaskPrio :: string where "fieldCurrentTaskPrio = ''current_task_priority''"
definition fieldRegisteredAt :: string where "fieldRegisteredAt = ''registered_at''"
definition streamKey :: string where "streamKey = ''events''"
definition queueKey :: string where "queueKey = ''task_queue''"
definition agentSetKey :: string where "agentSetKey = ''agents''"

definition taskMetaTTL :: duration where
  "taskMetaTTL = 24 * Hour"

lemmas redis_names = fieldState_def fieldLastHeartbeat_def fieldCurrentTask_def fieldCurrentTaskPrio_def
  fieldRegisteredAt_def streamKey_def queueKey_def agentSetKey_def

definition WithKeyPrefix :: "string \<Rightarrow> 'd RedisStore \<Rightarrow> 'd RedisStore" where
  "WithKeyPrefix prefix rs = rs\<lparr>keyPrefix := prefix\<rparr>"

definition FormatInt :: "int \<Rightarrow> string" where
  "FormatInt i = (if i < 0 then ''-'' @ dec (nat (- i)) else dec (nat i))"

definition ParseInt :: "string \<Rightarrow> goerror + int" where
  "ParseInt s = (case Atoi s of (n, None) \<Rightarrow> Inr n | (_, Some e) \<Rightarrow> Inl e)"

definition redis_key :: "'d RedisStore \<Rightarrow> string list \<Rightarrow> string" where
  "redis_key rs parts = foldl (@) (keyPrefix rs) parts"

definition agentKey :: "'d RedisStore \<Rightarrow> string \<Rightarrow> string" where
  "agentKey rs agentID = redis_key rs [''agent:'', agentID]"

definition taskMetaKey :: "'d RedisStore \<Rightarrow> string \<Rightarrow> string" where
  "taskMetaKey rs taskID = redis_key rs [''task:'', taskID, '':meta'']"

text \<open>\<open>parsed\<close> is the client the URL yields, or why it does not parse.\<close>

definition NewRedisStore ::
  "goerror + 'd RedisStore \<Rightarrow> ('d RedisStore \<Rightarrow> 'd RedisStore) list \<Rightarrow> 'd \<Rightarrow> (goerror + 'd RedisStore) \<times> 'd" where
  "NewRedisStore parsed opts d =
     (case parsed of
        Inl err \<Rightarrow> (Inl (Errorf ''parse redis URL: %w'' [] err), d)
      | Inr rs \<Rightarrow>
          (case rDo (client rs) PING d of
             (Inl err, d') \<Rightarrow> (Inl (Errorf ''ping redis: %w'' [] err), snd (rClose (client rs) d'))
           | (Inr _, d') \<Rightarrow> (Inr (foldl (\<lambda>s opt. opt s) (rs\<lparr>keyPrefix := ''''\<rparr>) opts), d')))"

subsection \<open>Agents\<close>

definition redis_SetAgentState :: "'d RedisStore \<Rightarrow> string \<Rightarrow> string \<Rightarrow> 'd \<Rightarrow> goerror option \<times> 'd" where
  "redis_SetAgentState rs agentID st d =
     (case rPipe (client rs) True
             [HSET (agentKey rs agentID) [(fieldState, st)], SADD (redis_key rs [agentSetKey]) agentID] d of
        (Some err, _, d') \<Rightarrow> (Some (Errorf ''SetAgentState %s: %w'' [agentID] err), d')
      | (None, _, d') \<Rightarrow> (None, d'))"

definition str_of :: "reply \<Rightarrow> string" where
  "str_of r = (case r of StrReply s \<Rightarrow> s | _ \<Rightarrow> '''')"

definition redis_GetAgentState :: "'d RedisStore \<Rightarrow> string \<Rightarrow> 'd \<Rightarrow> (goerror + string) \<times> 'd" where
  "redis_GetAgentState rs agentID d =
     (case rDo (client rs) (HGET (agentKey rs agentID) fieldState) d of
        (Inl err, d') \<Rightarrow>
          (Inl (if err = redis_Nil then ErrAgentNotFound else Errorf ''GetAgentState %s: %w'' [agentID] err), d')
      | (Inr val, d') \<Rightarrow> (Inr (str_of val), d'))"

text \<open>The scripts, with \<open>call\<close> for \<open>redis.call\<close>; a nil reply is Lua's false.\<close>

definition casScript ::
  "(rcmd \<Rightarrow> 'd \<Rightarrow> (goerror + reply) \<times> 'd) \<Rightarrow> string \<Rightarrow> string \<Rightarrow> string \<Rightarrow> 'd \<Rightarrow> (goerror + reply) \<times> 'd" where
  "casScript call key1 argv1 argv2 d =
     (case call (HGET key1 ''state'') d of
        (Inl err, d1) \<Rightarrow> (Inl err, d1)
      | (Inr current, d1) \<Rightarrow>
          if current = NilReply then (Inr (IntReply (-1)), d1)
          else if current \<noteq> StrReply argv1 then (Inr (ArrReply [IntReply 0, current]), d1)
          else (case call (HSET key1 [(''state'', argv2)]) d1 of
                  (Inl err, d2) \<Rightarrow> (Inl err, d2)
                | (Inr _, d2) \<Rightarrow> (Inr (IntReply 1), d2)))"

definition clearTaskScript ::
  "(rcmd \<Rightarrow> 'd \<Rightarrow> (goerror + reply) \<times> 'd) \<Rightarrow> string \<Rightarrow> 'd \<Rightarrow> (goerror + reply) \<times> 'd" where
  "clearTaskScript call key1 d =
     (case call (EXISTS key1) d of
        (Inl err, d1) \<Rightarrow> (Inl err, d1)
      | (Inr ex, d1) \<Rightarrow>
          if ex = IntReply 0 then (Inr (IntReply (-1)), d1)
          else (case call (HSET key1 [(''current_task_id'', ''''), (''current_task_priority'', ''0'')]) d1 of
                  (Inl err, d2) \<Rightarrow> (Inl err, d2)
                | (Inr _, d2) \<Rightarrow> (Inr (IntReply 1), d2)))"

definition redis_CompareAndSetAgentState ::
  "'d RedisStore \<Rightarrow> string \<Rightarrow> string \<Rightarrow> string \<Rightarrow> 'd \<Rightarrow> goerror option \<times> 'd" where
  "redis_CompareAndSetAgentState rs agentID expected next_state d =
     (case rScript (client rs) (casScript (rCall (client rs)) (agentKey rs agentID) expected next_state) d of
        (Inl err, d') \<Rightarrow> (Some (Errorf ''CompareAndSetAgentState %s: %w'' [agentID] err), d')
      | (Inr raw, d') \<Rightarrow>
          ((case raw of
              IntReply v \<Rightarrow>
                if v = 1 then None
                else if v = -1 then Some ErrAgentNotFound
                else Some (ErrorNew ''CompareAndSetAgentState %s: unexpected Lua result %d'' [agentID, FormatInt v])
            | ArrReply v \<Rightarrow>
                Some (StateConflictError expected
                  (case v of _ # StrReply s # _ \<Rightarrow> s | _ \<Rightarrow> ''<unknown>''))
            | _ \<Rightarrow> Some (ErrorNew ''CompareAndSetAgentState %s: unexpected Lua result type %T'' [agentID])), d'))"

definition fields_hash :: "'d RedisStore \<Rightarrow> AgentFields \<Rightarrow> (string \<times> string) list" where
  "fields_hash rs flds =
     [(fieldState, fState flds), (fieldLastHeartbeat, FormatInt (fLastHeartbeat flds)),
      (fieldCurrentTask, fCurrentTaskID flds), (fieldCurrentTaskPrio, formatFloat rs (fCurrentTaskPriority flds)),
      (fieldRegisteredAt, FormatInt (fRegisteredAt flds))]"

definition redis_SetAgentFields :: "'d RedisStore \<Rightarrow> string \<Rightarrow> AgentFields \<Rightarrow> 'd \<Rightarrow> goerror option \<times> 'd" where
  "redis_SetAgentFields rs agentID flds d =
     (case rPipe (client rs) True
             [HSET (agentKey rs agentID) (fields_hash rs flds), SADD (redis_key rs [agentSetKey]) agentID] d of
        (Some err, _, d') \<Rightarrow> (Some (Errorf ''SetAgentFields %s: %w'' [agentID] err), d')
      | (None, _, d') \<Rightarrow> (None, d'))"

text \<open>A Go map read without a presence check: the zero value for a missing key.\<close>

definition lookup0 :: "(string \<times> string) list \<Rightarrow> string \<Rightarrow> string" where
  "lookup0 vals f = (case map_of vals f of None \<Rightarrow> '''' | Some s \<Rightarrow> s)"

definition parse_field :: "(string \<Rightarrow> goerror + 'n::zero) \<Rightarrow> (string \<times> string) list \<Rightarrow> string \<Rightarrow> string \<Rightarrow> goerror + 'n" where
  "parse_field parse vals agentID f =
     (if lookup0 vals f = '''' then Inr 0
      else (case parse (lookup0 vals f) of
              Inl err \<Rightarrow> Inl (Errorf ''GetAgentFields %s: parse %s: %w'' [agentID, f] err)
            | Inr n \<Rightarrow> Inr n))"

definition redis_GetAgentFields :: "'d RedisStore \<Rightarrow> string \<Rightarrow> 'd \<Rightarrow> (goerror + AgentFields) \<times> 'd" where
  "redis_GetAgentFields rs agentID d =
     (case rDo (client rs) (HGETALL (agentKey rs agentID)) d of
        (Inl err, d') \<Rightarrow> (Inl (Errorf ''GetAgentFields %s: %w'' [agentID] err), d')
      | (Inr rep, d') \<Rightarrow>
          ((let vals = (case rep of HashReply l \<Rightarrow> l | _ \<Rightarrow> [])
            in if vals = [] then Inl ErrAgentNotFound
               else (case parse_field ParseInt vals agentID fieldLastHeartbeat of
                  Inl err \<Rightarrow> Inl err
                | Inr lhb \<Rightarrow>
                    (case parse_field ParseInt vals agentID fieldRegisteredAt of
                       Inl err \<Rightarrow> Inl err
                     | Inr ra \<Rightarrow>
                         (case parse_field (parseFloat rs) vals agentID fieldCurrentTaskPrio of
                            Inl err \<Rightarrow> Inl err
                          | Inr ctp \<Rightarrow>
                              Inr \<lparr>fState = lookup0 vals fieldState, fLastHeartbeat = lhb,
                                   fCurrentTaskID = lookup0 vals fieldCurrentTask,
                                   fCurrentTaskPriority = ctp, fRegisteredAt = ra\<rparr>)))), d'))"

definition redis_ClearCurrentTask :: "'d RedisStore \<Rightarrow> string \<Rightarrow> 'd \<Rightarrow> goerror option \<times> 'd" where
  "redis_ClearCurrentTask rs agentID d =
     (case rScript (client rs) (clearTaskScript (rCall (client rs)) (agentKey rs agentID)) d of
        (Inl err, d') \<Rightarrow> (Some (Errorf ''ClearCurrentTask %s: %w'' [agentID] err), d')
      | (Inr result, d') \<Rightarrow> (if result = IntReply (-1) then Some ErrAgentNotFound else None, d'))"

definition redis_DeleteAgent :: "'d RedisStore \<Rightarrow> string \<Rightarrow> 'd \<Rightarrow> goerror option \<times> 'd" where
  "redis_DeleteAgent rs agentID d =
     (case rPipe (client rs) True [DEL (agentKey rs agentID), SREM (redis_key rs [agentSetKey]) agentID] d of
        (Some err, _, d') \<Rightarrow> (Some (Errorf ''DeleteAgent %s: %w'' [agentID] err), d')
      | (None, _, d') \<Rightarrow> (None, d'))"

definition strs_of :: "reply \<Rightarrow> string list" where
  "strs_of r = (case r of StrsReply l \<Rightarrow> l | _ \<Rightarrow> [])"

definition redis_ListAgents :: "'d RedisStore \<Rightarrow> 'd \<Rightarrow> (goerror + string list) \<times> 'd" where
  "redis_ListAgents rs d =
     (case rDo (client rs) (SMEMBERS (redis_key rs [agentSetKey])) d of
        (Inl err, d') \<Rightarrow> (Inl (Errorf ''ListAgents: %w'' [] err), d')
      | (Inr rep, d') \<Rightarrow> (Inr (strs_of rep), d'))"

text \<open>The loop over the results of the pipeline: an agent deleted in between has no state.\<close>

fun collect_states :: "(string \<times> (goerror + reply)) list \<Rightarrow> (string \<rightharpoonup> string) \<Rightarrow> goerror + (string \<rightharpoonup> string)" where
  "collect_states [] states = Inr states"
| "collect_states ((i, Inl err) # rest) states =
     (if err = redis_Nil then collect_states rest states
      else Inl (Errorf ''GetAllAgentStates: get state for %s: %w'' [i] err))"
| "collect_states ((i, Inr val) # rest) states = collect_states rest (states(i \<mapsto> str_of val))"

definition redis_GetAllAgentStates :: "'d RedisStore \<Rightarrow> 'd \<Rightarrow> (goerror + (string \<rightharpoonup> string)) \<times> 'd" where
  "redis_GetAllAgentStates rs d =
     (case rDo (client rs) (SMEMBERS (redis_key rs [agentSetKey])) d of
        (Inl err, d1) \<Rightarrow> (Inl (Errorf ''GetAllAgentStates: list members: %w'' [] err), d1)
      | (Inr rep, d1) \<Rightarrow>
          let members = strs_of rep
          in if members = [] then (Inr Map.empty, d1)
             else (case rPipe (client rs) False (map (\<lambda>i. HGET (agentKey rs i) fieldState) members) d1 of
                     (err, cmds, d2) \<Rightarrow>
                       (if err \<noteq> None \<and> err \<noteq> Some redis_Nil
                        then Inl (Errorf ''GetAllAgentStates: pipeline: %w'' [] (the err))
                        else collect_states (zip members cmds) Map.empty, d2)))"

subsection \<open>Event stream\<close>

definition redis_PublishEvent :: "'d RedisStore \<Rightarrow> gtime \<Rightarrow> Event \<Rightarrow> 'd \<Rightarrow> goerror option \<times> 'd" where
  "redis_PublishEvent rs now event d =
     (let ts = (if eTimestamp event = 0 then UnixMilli now else eTimestamp event)
      in (case rDo (client rs) (XADD (redis_key rs [streamKey])
                [(''type'', eType event), (''agent_id'', eAgentID event), (''task_id'', eTaskID event),
                 (''timestamp'', FormatInt ts), (''payload'', ePayload event)]) d of
            (Inl err, d') \<Rightarrow> (Some (Errorf ''PublishEvent: %w'' [] err), d')
          | (Inr _, d') \<Rightarrow> (None, d')))"

text \<open>\<open>fmt.Sprintf("%v", v)\<close> of an entry of a map: a missing one prints as nil.\<close>

definition show_value :: "(string \<times> string) list \<Rightarrow> string \<Rightarrow> string" where
  "show_value vals f = (case map_of vals f of None \<Rightarrow> ''<nil>'' | Some s \<Rightarrow> s)"

definition parseXMessage :: "xmessage \<Rightarrow> StreamEvent" where
  "parseXMessage msg =
     (let vals = snd msg;
          ts = (if lookup0 vals ''timestamp'' = '''' then 0 else fst (Atoi (lookup0 vals ''timestamp'')))
      in \<lparr>seID = fst msg,
          seEvent = \<lparr>eType = show_value vals ''type'', eAgentID = show_value vals ''agent_id'',
                     eTaskID = show_value vals ''task_id'', eTimestamp = ts,
                     ePayload = show_value vals ''payload''\<rparr>\<rparr>)"

definition parseXMessages :: "xmessage list \<Rightarrow> StreamEvent list" where
  "parseXMessages msgs = map parseXMessage msgs"

text \<open>What \<open>ReadEvents\<close> and \<open>SubscribeEvents\<close> make of the reply.\<close>

definition stream_result :: "string \<Rightarrow> (goerror + reply) \<times> 'd \<Rightarrow> (goerror + StreamEvent list) \<times> 'd" where
  "stream_result op r =
     (case r of
        (Inl err, d') \<Rightarrow> (if err = redis_Nil then Inr [] else Inl (Errorf (op @ '': %w'') [] err), d')
      | (Inr rep, d') \<Rightarrow>
          (case rep of StreamsReply (st # _) \<Rightarrow> Inr (parseXMessages (snd st)) | _ \<Rightarrow> Inr [], d'))"

definition redis_ReadEvents :: "'d RedisStore \<Rightarrow> string \<Rightarrow> int \<Rightarrow> 'd \<Rightarrow> (goerror + StreamEvent list) \<times> 'd" where
  "redis_ReadEvents rs lastID cnt d =
     stream_result ''ReadEvents'' (rDo (client rs) (XREAD (redis_key rs [streamKey]) lastID cnt) d)"

definition redis_CreateConsumerGroup :: "'d RedisStore \<Rightarrow> string \<Rightarrow> string \<Rightarrow> 'd \<Rightarrow> goerror option \<times> 'd" where
  "redis_CreateConsumerGroup rs grp startID d =
     (case rDo (client rs) (XGROUP_CREATE (redis_key rs [streamKey]) grp startID) d of
        (Inl err, d') \<Rightarrow>
          (if Contains (errText rs err) ''BUSYGROUP'' then None
           else Some (Errorf ''CreateConsumerGroup: %w'' [] err), d')
      | (Inr _, d') \<Rightarrow> (None, d'))"

definition redis_SubscribeEvents ::
  "'d RedisStore \<Rightarrow> string \<Rightarrow> string \<Rightarrow> int \<Rightarrow> duration \<Rightarrow> 'd \<Rightarrow> (goerror + StreamEvent list) \<times> 'd" where
  "redis_SubscribeEvents rs grp consumer cnt block d =
     (let block = (if block \<le> 0 then -1 else block)
      in stream_result ''SubscribeEvents''
           (rDo (client rs) (XREADGROUP grp consumer (redis_key rs [streamKey]) cnt block) d))"

definition redis_AckEvent :: "'d RedisStore \<Rightarrow> string \<Rightarrow> string list \<Rightarrow> 'd \<Rightarrow> goerror option \<times> 'd" where
  "redis_AckEvent rs grp ids d =
     (case rDo (client rs) (XACK (redis_key rs [streamKey]) grp ids) d of
        (Inl err, d') \<Rightarrow> (Some (Errorf ''AckEvent: %w'' [] err), d')
      | (Inr _, d') \<Rightarrow> (None, d'))"

subsection \<open>Task queue\<close>

definition meta_hash :: "TaskMeta \<Rightarrow> (string \<times> string) list" where
  "meta_hash meta =
     [(''description'', mDescription meta), (''project'', mProject meta), (''floor'', mFloor meta),
      (''tier'', mTier meta), (''provider'', mProvider meta)]"

definition redis_EnqueueTaskWithMeta ::
  "'d RedisStore \<Rightarrow> string \<Rightarrow> rat \<Rightarrow> TaskMeta \<Rightarrow> 'd \<Rightarrow> goerror option \<times> 'd" where
  "redis_EnqueueTaskWithMeta rs taskID priority meta d =
     (case rPipe (client rs) False
             (ZADD (redis_key rs [queueKey]) priority taskID #
              (if TaskMeta_IsZero meta then []
               else [HSET (taskMetaKey rs taskID) (meta_hash meta), EXPIRE (taskMetaKey rs taskID) taskMetaTTL])) d of
        (Some err, _, d') \<Rightarrow> (Some (Errorf ''EnqueueTask %s: %w'' [taskID] err), d')
      | (None, _, d') \<Rightarrow> (None, d'))"

definition redis_EnqueueTask :: "'d RedisStore \<Rightarrow> string \<Rightarrow> rat \<Rightarrow> 'd \<Rightarrow> goerror option \<times> 'd" where
  "redis_EnqueueTask rs taskID priority d = redis_EnqueueTaskWithMeta rs taskID priority zeroTaskMeta d"

definition redis_GetTaskMeta :: "'d RedisStore \<Rightarrow> string \<Rightarrow> 'd \<Rightarrow> (goerror + TaskMeta) \<times> 'd" where
  "redis_GetTaskMeta rs taskID d =
     (case rDo (client rs) (HGETALL (taskMetaKey rs taskID)) d of
        (Inl err, d') \<Rightarrow> (Inl (Errorf ''GetTaskMeta %s: %w'' [taskID] err), d')
      | (Inr rep, d') \<Rightarrow>
          let res = (case rep of HashReply l \<Rightarrow> l | _ \<Rightarrow> [])
          in (Inr \<lparr>mDescription = lookup0 res ''description'', mProject = lookup0 res ''project'',
                   mFloor = lookup0 res ''floor'', mTier = lookup0 res ''tier'',
                   mProvider = lookup0 res ''provider''\<rparr>, d'))"

definition redis_DequeueTask :: "'d RedisStore \<Rightarrow> 'd \<Rightarrow> (goerror + string \<times> rat) \<times> 'd" where
  "redis_DequeueTask rs d =
     (case rDo (client rs) (ZPOPMIN (redis_key rs [queueKey]) 1) d of
        (Inl err, d') \<Rightarrow> (Inl (Errorf ''DequeueTask: %w'' [] err), d')
      | (Inr rep, d') \<Rightarrow>
          (case rep of ScoredReply ((member, score) # _) \<Rightarrow> Inr (member, score) | _ \<Rightarrow> Inl ErrQueueEmpty, d'))"

definition redis_QueueLength :: "'d RedisStore \<Rightarrow> 'd \<Rightarrow> (goerror + int) \<times> 'd" where
  "redis_QueueLength rs d =
     (case rDo (client rs) (ZCARD (redis_key rs [queueKey])) d of
        (Inl err, d') \<Rightarrow> (Inl (Errorf ''QueueLength: %w'' [] err), d')
      | (Inr rep, d') \<Rightarrow> (Inr (case rep of IntReply n \<Rightarrow> n | _ \<Rightarrow> 0), d'))"

definition redis_Ping :: "'d RedisStore \<Rightarrow> 'd \<Rightarrow> goerror option \<times> 'd" where
  "redis_Ping rs d =
     (case rDo (client rs) PING d of
        (Inl err, d') \<Rightarrow> (Some (Errorf ''Ping: %w'' [] err), d')
      | (Inr _, d') \<Rightarrow> (None, d'))"

definition redis_Close :: "'d RedisStore \<Rightarrow> 'd \<Rightarrow> goerror option \<times> 'd" where
  "redis_Close rs d = rClose (client rs) d"

text \<open>The Redis store behind the interface.\<close>

definition redis_store :: "'d RedisStore \<Rightarrow> gtime \<Rightarrow> 'd StateStore" where
  "redis_store rs now =
     \<lparr>ssSetAgentState = redis_SetAgentState rs, ssGetAgentState = redis_GetAgentState rs,
      ssCompareAndSetAgentState = redis_CompareAndSetAgentState rs, ssSetAgentFields = redis_SetAgentFields rs,
      ssGetAgentFields = redis_GetAgentFields rs, ssDeleteAgent = redis_DeleteAgent rs,
      ssListAgents = redis_ListAgents rs, ssGetAllAgentStates = redis_GetAllAgentStates rs,
      ssPublishEvent = redis_PublishEvent rs now, ssReadEvents = redis_ReadEvents rs,
      ssCreateConsumerGroup = redis_CreateConsumerGroup rs,
      ssSubscribeEvents = (\<lambda>grp consumer cnt block d.
        case redis_SubscribeEvents rs grp consumer cnt block d of
          (Inl err, d') \<Rightarrow> Some ((Some err, []), d') | (Inr evs, d') \<Rightarrow> Some ((None, evs), d')),
      ssAckEvent = redis_AckEvent rs, ssClearCurrentTask = redis_ClearCurrentTask rs,
      ssEnqueueTask = redis_EnqueueTask rs, ssEnqueueTaskWithMeta = redis_EnqueueTaskWithMeta rs,
      ssGetTaskMeta = redis_GetTaskMeta rs, ssDequeueTask = redis_DequeueTask rs,
      ssQueueLength = redis_QueueLength rs, ssPing = redis_Ping rs, ssClose = redis_Close rs\<rparr>"

subsection \<open>What the server does\<close>

text \<open>
  The laws speak of a view of the database: a partial map from keys to values of the four types the
  store uses. A key without members does not exist.
\<close>

datatype rval =
  RHash "string \<rightharpoonup> string" | RSet "string set" | RZset "string \<rightharpoonup> rat" | RStream "xmessage list"

type_synonym rdb = "string \<rightharpoonup> rval"

text \<open>A key read as a hash, a set, a sorted set, a stream; None if it has another type.\<close>

fun as_hash :: "rval option \<Rightarrow> (string \<rightharpoonup> string) option" where
  "as_hash None = Some Map.empty"
| "as_hash (Some (RHash h)) = (if finite (dom h) \<and> h \<noteq> Map.empty then Some h else None)"
| "as_hash _ = None"

fun as_set :: "rval option \<Rightarrow> string set option" where
  "as_set None = Some {}"
| "as_set (Some (RSet A)) = (if finite A \<and> A \<noteq> {} then Some A else None)"
| "as_set _ = None"

fun as_zset :: "rval option \<Rightarrow> (string \<rightharpoonup> rat) option" where
  "as_zset None = Some Map.empty"
| "as_zset (Some (RZset z)) = (if finite (dom z) \<and> z \<noteq> Map.empty then Some z else None)"
| "as_zset _ = None"

fun as_stream :: "rval option \<Rightarrow> xmessage list option" where
  "as_stream None = Some []"
| "as_stream (Some (RStream ms)) = (if distinct (''0'' # map fst ms) then Some ms else None)"
| "as_stream _ = None"

definition put_set :: "string set \<Rightarrow> rval option" where
  "put_set A = (if A = {} then None else Some (RSet A))"

definition put_zset :: "(string \<rightharpoonup> rat) \<Rightarrow> rval option" where
  "put_zset z = (if dom z = {} then None else Some (RZset z))"

lemma as_put [simp]:
  "finite A \<Longrightarrow> as_set (put_set A) = Some A" "finite (dom z) \<Longrightarrow> as_zset (put_zset z) = Some z"
  by (auto simp: put_set_def put_zset_def)

lemma as_hash_finite: "as_hash x = Some h \<Longrightarrow> finite (dom h)"
  by (cases x rule: as_hash.cases) (auto split: if_splits)

lemma as_set_finite: "as_set x = Some A \<Longrightarrow> finite A"
  by (cases x rule: as_set.cases) (auto split: if_splits)

lemma as_zset_finite: "as_zset x = Some z \<Longrightarrow> finite (dom z)"
  by (cases x rule: as_zset.cases) (auto split: if_splits)

text \<open>A command that answers \<open>r\<close> and turns the view into \<open>w\<close>.\<close>

definition answers :: "'d Redis \<Rightarrow> ('d \<Rightarrow> rdb) \<Rightarrow> rcmd \<Rightarrow> 'd \<Rightarrow> reply \<Rightarrow> rdb \<Rightarrow> bool" where
  "answers R v c d r w \<longleftrightarrow> fst (rCall R c d) = Inr r \<and> v (snd (rCall R c d)) = w"

text \<open>
  A pipeline no other client interferes with runs its commands one after the other, a script is
  atomic, and a nil reply reaches the caller as \<open>redis.Nil\<close>.
\<close>

definition client_laws :: "'d Redis \<Rightarrow> bool" where
  "client_laws R \<longleftrightarrow>
     (\<forall>c d. rDo R c d = (if fst (rCall R c d) = Inr NilReply then (Inl redis_Nil, snd (rCall R c d)) else rCall R c d)) \<and>
     (\<forall>tx d. rPipe R tx [] d = (None, [], d)) \<and>
     (\<forall>tx c cs d. rPipe R tx (c # cs) d =
        (let (r, d1) = rDo R c d; (e, rs, d2) = rPipe R tx cs d1
         in (case r of Inl err \<Rightarrow> Some err | Inr _ \<Rightarrow> e, r # rs, d2))) \<and>
     (\<forall>f d. fst (f d) \<noteq> Inr NilReply \<longrightarrow> rScript R f d = f d)"

definition key_laws :: "'d Redis \<Rightarrow> ('d \<Rightarrow> rdb) \<Rightarrow> bool" where
  "key_laws R v \<longleftrightarrow>
     (\<forall>k d. answers R v (EXISTS k) d (IntReply (if v d k = None then 0 else 1)) (v d)) \<and>
     (\<forall>k d. \<exists>n. answers R v (DEL k) d (IntReply n) ((v d)(k := None))) \<and>
     (\<forall>k ttl d. \<exists>n. answers R v (EXPIRE k ttl) d (IntReply n) (v d)) \<and>
     (\<forall>d. answers R v PING d (StrReply ''PONG'') (v d))"

definition hash_laws :: "'d Redis \<Rightarrow> ('d \<Rightarrow> rdb) \<Rightarrow> bool" where
  "hash_laws R v \<longleftrightarrow> (\<forall>k d h. as_hash (v d k) = Some h \<longrightarrow>
     (\<forall>fs. fs \<noteq> [] \<longrightarrow> (\<exists>n. answers R v (HSET k fs) d (IntReply n) ((v d)(k \<mapsto> RHash (h ++ map_of (rev fs)))))) \<and>
     (\<forall>f. answers R v (HGET k f) d (case h f of None \<Rightarrow> NilReply | Some s \<Rightarrow> StrReply s) (v d)) \<and>
     (\<exists>l. answers R v (HGETALL k) d (HashReply l) (v d) \<and> map_of l = h))"

definition set_laws :: "'d Redis \<Rightarrow> ('d \<Rightarrow> rdb) \<Rightarrow> bool" where
  "set_laws R v \<longleftrightarrow> (\<forall>k d A. as_set (v d k) = Some A \<longrightarrow>
     (\<forall>x. \<exists>n. answers R v (SADD k x) d (IntReply n) ((v d)(k := put_set (insert x A)))) \<and>
     (\<forall>x. \<exists>n. answers R v (SREM k x) d (IntReply n) ((v d)(k := put_set (A - {x})))) \<and>
     (\<exists>l. answers R v (SMEMBERS k) d (StrsReply l) (v d) \<and> set l = A \<and> distinct l))"

definition zset_laws :: "'d Redis \<Rightarrow> ('d \<Rightarrow> rdb) \<Rightarrow> bool" where
  "zset_laws R v \<longleftrightarrow> (\<forall>k d z. as_zset (v d k) = Some z \<longrightarrow>
     (\<forall>x p. \<exists>n. answers R v (ZADD k p x) d (IntReply n) ((v d)(k := put_zset (z(x \<mapsto> p))))) \<and>
     (z = Map.empty \<longrightarrow> answers R v (ZPOPMIN k 1) d (ScoredReply []) (v d)) \<and>
     (z \<noteq> Map.empty \<longrightarrow> (\<exists>x p. z x = Some p \<and> (\<forall>q \<in> ran z. p \<le> q) \<and>
        answers R v (ZPOPMIN k 1) d (ScoredReply [(x, p)]) ((v d)(k := put_zset (z(x := None)))))) \<and>
     answers R v (ZCARD k) d (IntReply (int (card (dom z)))) (v d))"

text \<open>The fields of an entry come back in any order; \<open>XREAD\<close> returns what follows an entry.\<close>

definition stream_laws :: "'d Redis \<Rightarrow> ('d \<Rightarrow> rdb) \<Rightarrow> bool" where
  "stream_laws R v \<longleftrightarrow> (\<forall>k d ms. as_stream (v d k) = Some ms \<longrightarrow>
     (\<forall>fs. \<exists>i fs'. i \<notin> insert ''0'' (fst ` set ms) \<and> map_of fs' = map_of fs \<and>
        answers R v (XADD k fs) d (StrReply i) ((v d)(k \<mapsto> RStream (ms @ [(i, fs')])))) \<and>
     (\<forall>i n rest. 0 < n \<and> (i = ''0'' \<and> rest = ms \<or> (\<exists>before f. ms = before @ (i, f) # rest)) \<longrightarrow>
        answers R v (XREAD k i n) d
          (if rest = [] then NilReply else StreamsReply [(k, take (nat n) rest)]) (v d)))"

definition redis_ok :: "'d Redis \<Rightarrow> ('d \<Rightarrow> rdb) \<Rightarrow> bool" where
  "redis_ok R v \<longleftrightarrow> client_laws R \<and> key_laws R v \<and> hash_laws R v \<and> set_laws R v \<and> zset_laws R v \<and> stream_laws R v"

text \<open>Printing a float and parsing it back gives the same float.\<close>

definition float_ok :: "'d RedisStore \<Rightarrow> bool" where
  "float_ok rs \<longleftrightarrow> parseFloat rs ''0'' = Inr 0 \<and>
     (\<forall>p. formatFloat rs p \<noteq> '''' \<and> parseFloat rs (formatFloat rs p) = Inr p)"

subsection \<open>Keys\<close>

lemma key_eqs [simp]:
  "agentKey rs a = agentKey rs b \<longleftrightarrow> a = b" "taskMetaKey rs t = taskMetaKey rs u \<longleftrightarrow> t = u"
  "agentKey rs a \<noteq> taskMetaKey rs t" "agentKey rs a \<noteq> redis_key rs [agentSetKey]"
  "agentKey rs a \<noteq> redis_key rs [queueKey]" "agentKey rs a \<noteq> redis_key rs [streamKey]"
  "taskMetaKey rs t \<noteq> redis_key rs [agentSetKey]" "taskMetaKey rs t \<noteq> redis_key rs [queueKey]"
  "taskMetaKey rs t \<noteq> redis_key rs [streamKey]"
  "redis_key rs [agentSetKey] \<noteq> redis_key rs [queueKey]" "redis_key rs [agentSetKey] \<noteq> redis_key rs [streamKey]"
  "redis_key rs [queueKey] \<noteq> redis_key rs [streamKey]"
  by (simp_all add: agentKey_def taskMetaKey_def redis_key_def redis_names)

lemmas key_neqs [simp] = key_eqs(3-12) [symmetric]

subsection \<open>Numbers\<close>

lemma HasPrefix_dec [simp]: "\<not> HasPrefix (dec n) ''-''" "\<not> HasPrefix (dec n) ''+''"
proof -
  obtain c cs where "dec n = c # cs" "is_digit c"
    using dec_digits [of n] dec_nonempty [of n] by (cases "dec n") auto
  then show "\<not> HasPrefix (dec n) ''-''" "\<not> HasPrefix (dec n) ''+''"
    by (auto simp: HasPrefix_def is_digit_def)
qed

lemma FormatInt_nonempty [simp]: "FormatInt i \<noteq> ''''"
  by (simp add: FormatInt_def)

lemma Atoi_FormatInt:
  assumes "- (2 ^ 63) \<le> i" and "i < 2 ^ 63"
  shows "Atoi (FormatInt i) = (i, None)"
proof (cases "i < 0")
  case True
  then have "HasPrefix (FormatInt i) ''-''" "tl (FormatInt i) = dec (nat (- i))"
    by (simp_all add: FormatInt_def HasPrefix_def)
  then show ?thesis
    using True assms dec_digits [of "nat (- i)"] by (simp add: Atoi_def Let_def)
next
  case False
  then show ?thesis using assms by (simp add: FormatInt_def Atoi_dec)
qed

subsection \<open>Running commands\<close>

lemma answersD: "answers R v c d r w \<Longrightarrow> rCall R c d = (Inr r, snd (rCall R c d)) \<and> v (snd (rCall R c d)) = w"
  by (cases "rCall R c d") (simp add: answers_def)

lemma answersE:
  assumes "answers R v c d r w"
  obtains d' where "rCall R c d = (Inr r, d')" and "v d' = w"
  using answersD [OF assms] by blast

lemma redis_okD:
  assumes "redis_ok R v"
  shows "client_laws R" "key_laws R v" "hash_laws R v" "set_laws R v" "zset_laws R v" "stream_laws R v"
  using assms by (simp_all add: redis_ok_def)

text \<open>A command by itself, and the first of a pipeline.\<close>

lemma do_answers:
  assumes "client_laws R" and "answers R v c d r w"
  obtains d' where "rDo R c d = (if r = NilReply then Inl redis_Nil else Inr r, d')" and "v d' = w"
    and "rCall R c d = (Inr r, d')"
proof -
  have "rDo R c d = (if fst (rCall R c d) = Inr NilReply then (Inl redis_Nil, snd (rCall R c d)) else rCall R c d)"
    using assms(1) by (simp add: client_laws_def)
  moreover obtain d' where "rCall R c d = (Inr r, d')" "v d' = w" using answersD [OF assms(2)] by blast
  ultimately show ?thesis using that [of d'] by simp
qed

lemma pipe_Nil: "client_laws R \<Longrightarrow> rPipe R tx [] d = (None, [], d)"
  by (simp add: client_laws_def)

lemma pipe_answers:
  assumes "client_laws R" and "answers R v c d r w" and "r \<noteq> NilReply"
  obtains d' where "\<And>tx cs. rPipe R tx (c # cs) d =
      (fst (rPipe R tx cs d'), Inr r # fst (snd (rPipe R tx cs d')), snd (snd (rPipe R tx cs d')))"
    and "v d' = w"
proof -
  obtain d' where d': "rDo R c d = (Inr r, d')" "v d' = w"
    using do_answers [OF assms(1,2)] assms(3) by metis
  have "rPipe R tx (c # cs) d =
      (let (r, d1) = rDo R c d; (e, rs, d2) = rPipe R tx cs d1
       in (case r of Inl err \<Rightarrow> Some err | Inr _ \<Rightarrow> e, r # rs, d2))" for tx cs
    using assms(1) by (simp add: client_laws_def)
  then show ?thesis using that d' by (simp add: Let_def split_beta)
qed

lemma hash_answers:
  assumes "hash_laws R v" and "as_hash (v d k) = Some h"
  shows "fs \<noteq> [] \<Longrightarrow> \<exists>n. answers R v (HSET k fs) d (IntReply n) ((v d)(k \<mapsto> RHash (h ++ map_of (rev fs))))"
    and "answers R v (HGET k f) d (case h f of None \<Rightarrow> NilReply | Some s \<Rightarrow> StrReply s) (v d)"
    and "\<exists>l. answers R v (HGETALL k) d (HashReply l) (v d) \<and> map_of l = h"
  using assms unfolding hash_laws_def by blast+

lemma set_answers:
  assumes "set_laws R v" and "as_set (v d k) = Some A"
  shows "\<exists>n. answers R v (SADD k x) d (IntReply n) ((v d)(k := put_set (insert x A)))"
    and "\<exists>n. answers R v (SREM k x) d (IntReply n) ((v d)(k := put_set (A - {x})))"
    and "\<exists>l. answers R v (SMEMBERS k) d (StrsReply l) (v d) \<and> set l = A \<and> distinct l"
  using assms unfolding set_laws_def by blast+

lemma zset_answers:
  assumes "zset_laws R v" and "as_zset (v d k) = Some z"
  shows "\<exists>n. answers R v (ZADD k p x) d (IntReply n) ((v d)(k := put_zset (z(x \<mapsto> p))))"
    and "z = Map.empty \<Longrightarrow> answers R v (ZPOPMIN k 1) d (ScoredReply []) (v d)"
    and "z \<noteq> Map.empty \<Longrightarrow> \<exists>x p. z x = Some p \<and> (\<forall>q \<in> ran z. p \<le> q) \<and>
        answers R v (ZPOPMIN k 1) d (ScoredReply [(x, p)]) ((v d)(k := put_zset (z(x := None))))"
    and "answers R v (ZCARD k) d (IntReply (int (card (dom z)))) (v d)"
  using assms unfolding zset_laws_def by blast+

lemma key_answers:
  assumes "key_laws R v"
  shows "answers R v (EXISTS k) d (IntReply (if v d k = None then 0 else 1)) (v d)"
    and "\<exists>n. answers R v (DEL k) d (IntReply n) ((v d)(k := None))"
    and "\<exists>n. answers R v (EXPIRE k ttl) d (IntReply n) (v d)"
    and "answers R v PING d (StrReply ''PONG'') (v d)"
  using assms unfolding key_laws_def by blast+

lemma as_hash_HSET [simp]:
  assumes "as_hash x = Some h" and "fs \<noteq> []"
  shows "as_hash (Some (RHash (h ++ map_of (rev fs)))) = Some (h ++ map_of (rev fs))"
proof -
  have "finite (dom (h ++ map_of (rev fs)))" using as_hash_finite [OF assms(1)] by (simp add: finite_dom_map_of)
  moreover have "dom (h ++ map_of (rev fs)) \<noteq> {}" using assms(2) by (simp add: dom_map_of_conv_image_fst)
  ultimately show ?thesis by auto
qed

subsection \<open>Both stores hold the same\<close>

definition hget :: "(string \<rightharpoonup> string) \<Rightarrow> string \<Rightarrow> string" where
  "hget h f = (case h f of None \<Rightarrow> '''' | Some s \<Rightarrow> s)"

definition num_field :: "(string \<Rightarrow> goerror + 'n::zero) \<Rightarrow> (string \<rightharpoonup> string) \<Rightarrow> string \<Rightarrow> 'n \<Rightarrow> bool" where
  "num_field parse h f n \<longleftrightarrow> (if hget h f = '''' then n = 0 else parse (hget h f) = Inr n)"

definition encodes :: "'d RedisStore \<Rightarrow> (string \<rightharpoonup> string) \<Rightarrow> AgentFields \<Rightarrow> bool" where
  "encodes rs h r \<longleftrightarrow> h fieldState = Some (fState r) \<and> hget h fieldCurrentTask = fCurrentTaskID r \<and>
     num_field ParseInt h fieldLastHeartbeat (fLastHeartbeat r) \<and>
     num_field ParseInt h fieldRegisteredAt (fRegisteredAt r) \<and>
     num_field (parseFloat rs) h fieldCurrentTaskPrio (fCurrentTaskPriority r)"

definition meta_of :: "(string \<rightharpoonup> string) \<Rightarrow> TaskMeta" where
  "meta_of h = \<lparr>mDescription = hget h ''description'', mProject = hget h ''project'', mFloor = hget h ''floor'',
     mTier = hget h ''tier'', mProvider = hget h ''provider''\<rparr>"

definition zqueue :: "queueItem list \<Rightarrow> (string \<rightharpoonup> rat)" where
  "zqueue q = map_of (map (\<lambda>i. (qTaskID i, qPriority i)) q)"

definition no_errors :: "MockStore \<Rightarrow> bool" where
  "no_errors m \<longleftrightarrow> pingErr m = None \<and> getAllAgentStatesErr m = None \<and> queueLenErr m = None \<and>
     getAgentFieldsErr m = None \<and> setAgentFieldsErr m = None \<and> getAgentFieldsByAgent m = Map.empty \<and>
     setAgentFieldsByAgent m = Map.empty \<and> enqueueTaskErr m = None \<and> dequeueTaskErr m = None \<and>
     clearCurrentTaskErr m = None \<and> compareAndSetErr m = None \<and> deleteAgentErr m = None"

definition agents_mirror :: "'d RedisStore \<Rightarrow> rdb \<Rightarrow> (string \<rightharpoonup> AgentFields) \<Rightarrow> bool" where
  "agents_mirror rs db ags \<longleftrightarrow>
     (\<forall>a. \<exists>h. as_hash (db (agentKey rs a)) = Some h \<and>
        (case ags a of None \<Rightarrow> h = Map.empty | Some r \<Rightarrow> encodes rs h r)) \<and>
     as_set (db (redis_key rs [agentSetKey])) = Some (dom ags)"

definition queue_mirror :: "'d RedisStore \<Rightarrow> rdb \<Rightarrow> queueItem list \<Rightarrow> bool" where
  "queue_mirror rs db q \<longleftrightarrow> as_zset (db (redis_key rs [queueKey])) = Some (zqueue q) \<and>
     sorted (map qPriority q) \<and> distinct (map qPriority q) \<and> distinct (map qTaskID q)"

definition meta_mirror :: "'d RedisStore \<Rightarrow> rdb \<Rightarrow> (string \<rightharpoonup> TaskMeta) \<Rightarrow> bool" where
  "meta_mirror rs db metas \<longleftrightarrow>
     (\<forall>t. \<exists>h. as_hash (db (taskMetaKey rs t)) = Some h \<and>
        meta_of h = (case metas t of None \<Rightarrow> zeroTaskMeta | Some x \<Rightarrow> x))"

definition mirrors :: "'d RedisStore \<Rightarrow> ('d \<Rightarrow> rdb) \<Rightarrow> 'd \<Rightarrow> MockStore \<Rightarrow> bool" where
  "mirrors rs v d m \<longleftrightarrow> no_errors m \<and> agents_mirror rs (v d) (agents m) \<and> queue_mirror rs (v d) (queue m) \<and>
     meta_mirror rs (v d) (taskMeta m)"

lemma lookup0_hget: "lookup0 l f = hget (map_of l) f"
  by (simp add: lookup0_def hget_def)

text \<open>Writing one key leaves the parts under the other keys alone.\<close>

lemma agents_mirror_other:
  assumes "agents_mirror rs db ags" and "\<And>a. k \<noteq> agentKey rs a" and "k \<noteq> redis_key rs [agentSetKey]"
  shows "agents_mirror rs (db(k := x)) ags"
  using assms(1) unfolding agents_mirror_def fun_upd_other [OF assms(2) [symmetric]]
    fun_upd_other [OF assms(3) [symmetric]] .

lemma queue_mirror_other:
  "queue_mirror rs db q \<Longrightarrow> k \<noteq> redis_key rs [queueKey] \<Longrightarrow> queue_mirror rs (db(k := x)) q"
  by (simp add: queue_mirror_def)

lemma meta_mirror_other:
  assumes "meta_mirror rs db ms" and "\<And>t. k \<noteq> taskMetaKey rs t"
  shows "meta_mirror rs (db(k := x)) ms"
  using assms(1) unfolding meta_mirror_def fun_upd_other [OF assms(2) [symmetric]] .

lemmas mirror_other = agents_mirror_other queue_mirror_other meta_mirror_other

text \<open>Writing the hash of an agent and adding it to the set.\<close>

lemma agents_mirror_write:
  assumes "agents_mirror rs db ags" and "as_hash x = Some h" and "encodes rs h r"
    and "A = insert a (dom ags)"
  shows "agents_mirror rs (db(agentKey rs a := x, redis_key rs [agentSetKey] := put_set A)) (ags(a \<mapsto> r))"
proof -
  have A: "finite A" using assms(1,4) by (auto simp: agents_mirror_def dest!: as_set_finite)
  let ?db = "db(agentKey rs a := x, redis_key rs [agentSetKey] := put_set A)"
  have "\<exists>h. as_hash (?db (agentKey rs b)) = Some h \<and>
      (case (ags(a \<mapsto> r)) b of None \<Rightarrow> h = Map.empty | Some r \<Rightarrow> encodes rs h r)" for b
    using assms(1-3) by (cases "b = a") (auto simp: agents_mirror_def)
  then show ?thesis using A assms(4) by (simp add: agents_mirror_def)
qed

lemma agents_mirror_update:
  assumes "agents_mirror rs db ags" and "as_hash x = Some h" and "encodes rs h r" and "a \<in> dom ags"
  shows "agents_mirror rs (db(agentKey rs a := x)) (ags(a \<mapsto> r))"
proof -
  have "\<exists>h. as_hash ((db(agentKey rs a := x)) (agentKey rs b)) = Some h \<and>
      (case (ags(a \<mapsto> r)) b of None \<Rightarrow> h = Map.empty | Some r \<Rightarrow> encodes rs h r)" for b
    using assms(1-3) by (cases "b = a") (auto simp: agents_mirror_def)
  then show ?thesis using assms(1,4) by (simp add: agents_mirror_def insert_absorb)
qed

lemma agents_mirror_delete:
  assumes "agents_mirror rs db ags"
  shows "agents_mirror rs (db(agentKey rs a := None, redis_key rs [agentSetKey] := put_set (dom ags - {a})))
    (ags(a := None))"
proof -
  have A: "finite (dom ags - {a})" using assms by (auto simp: agents_mirror_def dest!: as_set_finite)
  let ?db = "db(agentKey rs a := None, redis_key rs [agentSetKey] := put_set (dom ags - {a}))"
  have "\<exists>h. as_hash (?db (agentKey rs b)) = Some h \<and>
      (case (ags(a := None)) b of None \<Rightarrow> h = Map.empty | Some r \<Rightarrow> encodes rs h r)" for b
    using assms by (cases "b = a") (auto simp: agents_mirror_def)
  then show ?thesis using A by (simp add: agents_mirror_def)
qed

lemma agents_mirrorD:
  assumes "agents_mirror rs db ags"
  shows "ags a = None \<Longrightarrow> as_hash (db (agentKey rs a)) = Some Map.empty"
    and "ags a = Some r \<Longrightarrow> \<exists>h. as_hash (db (agentKey rs a)) = Some h \<and> encodes rs h r"
    and "as_set (db (redis_key rs [agentSetKey])) = Some (dom ags)"
proof -
  obtain h where "as_hash (db (agentKey rs a)) = Some h" "case ags a of None \<Rightarrow> h = Map.empty | Some r \<Rightarrow> encodes rs h r"
    using assms unfolding agents_mirror_def by blast
  then show "ags a = None \<Longrightarrow> as_hash (db (agentKey rs a)) = Some Map.empty"
    "ags a = Some r \<Longrightarrow> \<exists>h. as_hash (db (agentKey rs a)) = Some h \<and> encodes rs h r" by simp_all
qed (use assms in \<open>simp add: agents_mirror_def\<close>)

lemma as_hash_empty_iff: "as_hash x = Some Map.empty \<longleftrightarrow> x = None"
  by (cases x rule: as_hash.cases) auto

subsection \<open>Records as hashes\<close>

lemma hget_upd [simp]: "hget (h(f \<mapsto> s)) g = (if g = f then s else hget h g)" "hget Map.empty g = ''''"
  by (simp_all add: hget_def)

lemma encodes_state: "encodes rs h r \<Longrightarrow> encodes rs (h(fieldState \<mapsto> st)) (r\<lparr>fState := st\<rparr>)"
  by (simp add: encodes_def num_field_def redis_names)

lemma encodes_new: "encodes rs [fieldState \<mapsto> st] (zeroAgentFields\<lparr>fState := st\<rparr>)"
  by (simp add: encodes_def num_field_def redis_names zeroAgentFields_def)

lemma encodes_clear:
  assumes "float_ok rs" and "encodes rs h r"
  shows "encodes rs (h ++ map_of (rev [(''current_task_id'', ''''), (''current_task_priority'', ''0'')]))
    (r\<lparr>fCurrentTaskID := '''', fCurrentTaskPriority := 0\<rparr>)"
  using assms by (simp add: encodes_def num_field_def redis_names float_ok_def)

definition int64_fields :: "AgentFields \<Rightarrow> bool" where
  "int64_fields r \<longleftrightarrow> - (2 ^ 63) \<le> fLastHeartbeat r \<and> fLastHeartbeat r < 2 ^ 63 \<and>
     - (2 ^ 63) \<le> fRegisteredAt r \<and> fRegisteredAt r < 2 ^ 63"

lemma encodes_fields:
  assumes "float_ok rs" and "int64_fields r"
  shows "encodes rs (h ++ map_of (rev (fields_hash rs r))) r"
  using assms
  by (simp add: encodes_def num_field_def redis_names float_ok_def fields_hash_def ParseInt_def
      Atoi_FormatInt int64_fields_def)

lemma meta_of_hash: "meta_of (h ++ map_of (rev (meta_hash meta))) = meta"
  by (simp add: meta_of_def meta_hash_def)

lemma parse_field_num:
  assumes "num_field parse (map_of l) f n"
  shows "parse_field parse l a f = Inr n"
  using assms by (auto simp: parse_field_def num_field_def lookup0_hget split: if_splits)

subsection \<open>The same calls on both stores\<close>

datatype store_op =
    OpSetState string string | OpGetState string | OpCas string string string | OpSetFields string AgentFields
  | OpGetFields string | OpClear string | OpDelete string | OpList | OpStates
  | OpEnqueue string rat TaskMeta | OpMeta string | OpDequeue | OpLength | OpPing

datatype answer =
    Done "goerror option" | GotStr "goerror + string" | GotFields "goerror + AgentFields"
  | GotIds "goerror + string set" | GotStates "goerror + (string \<rightharpoonup> string)" | GotMeta "goerror + TaskMeta"
  | GotTask "goerror + string \<times> rat" | GotNum "goerror + int"

text \<open>A call through the interface, on any store.\<close>

fun store_call :: "'s StateStore \<Rightarrow> store_op \<Rightarrow> 's \<Rightarrow> answer \<times> 's" where
  "store_call I (OpSetState a st) s = map_prod Done id (ssSetAgentState I a st s)"
| "store_call I (OpGetState a) s = map_prod GotStr id (ssGetAgentState I a s)"
| "store_call I (OpCas a e n) s = map_prod Done id (ssCompareAndSetAgentState I a e n s)"
| "store_call I (OpSetFields a r) s = map_prod Done id (ssSetAgentFields I a r s)"
| "store_call I (OpGetFields a) s = map_prod GotFields id (ssGetAgentFields I a s)"
| "store_call I (OpClear a) s = map_prod Done id (ssClearCurrentTask I a s)"
| "store_call I (OpDelete a) s = map_prod Done id (ssDeleteAgent I a s)"
| "store_call I OpList s = map_prod (GotIds \<circ> map_sum id set) id (ssListAgents I s)"
| "store_call I OpStates s = map_prod GotStates id (ssGetAllAgentStates I s)"
| "store_call I (OpEnqueue t p meta) s = map_prod Done id (ssEnqueueTaskWithMeta I t p meta s)"
| "store_call I (OpMeta t) s = map_prod GotMeta id (ssGetTaskMeta I t s)"
| "store_call I OpDequeue s = map_prod GotTask id (ssDequeueTask I s)"
| "store_call I OpLength s = map_prod GotNum id (ssQueueLength I s)"
| "store_call I OpPing s = map_prod Done id (ssPing I s)"

text \<open>None of these calls asks for the time or blocks.\<close>

definition mock_op :: "string map_order \<Rightarrow> store_op \<Rightarrow> MockStore \<Rightarrow> answer \<times> MockStore" where
  "mock_op ord = store_call (mock_store ord unix_epoch [])"

definition redis_op :: "'d RedisStore \<Rightarrow> store_op \<Rightarrow> 'd \<Rightarrow> answer \<times> 'd" where
  "redis_op rs = store_call (redis_store rs unix_epoch)"

lemma mock_op_simps [simp]:
  "mock_op ord (OpSetState a st) m = map_prod Done id (mock_write m (SetAgentState a st m))"
  "mock_op ord (OpGetState a) m = (GotStr (GetAgentState m a), m)"
  "mock_op ord (OpCas a e n) m = map_prod Done id (mock_write m (CompareAndSetAgentState a e n m))"
  "mock_op ord (OpSetFields a r) m = map_prod Done id (mock_write m (SetAgentFields a r m))"
  "mock_op ord (OpGetFields a) m = (GotFields (GetAgentFields m a), m)"
  "mock_op ord (OpClear a) m = map_prod Done id (mock_write m (ClearCurrentTask a m))"
  "mock_op ord (OpDelete a) m = map_prod Done id (mock_write m (DeleteAgent a m))"
  "mock_op ord OpList m = (GotIds (map_sum id set (ListAgents ord m)), m)"
  "mock_op ord OpStates m = (GotStates (GetAllAgentStates m), m)"
  "mock_op ord (OpEnqueue t p meta) m = map_prod Done id (mock_write m (EnqueueTaskWithMeta t p meta m))"
  "mock_op ord (OpMeta t) m = (GotMeta (GetTaskMeta m t), m)"
  "mock_op ord OpDequeue m =
     (case DequeueTask m of Inl err \<Rightarrow> (GotTask (Inl err), m) | Inr (t, p, m') \<Rightarrow> (GotTask (Inr (t, p)), m'))"
  "mock_op ord OpLength m = (GotNum (QueueLength m), m)"
  "mock_op ord OpPing m = (Done (Ping m), m)"
  by (simp_all add: mock_op_def mock_store_def split: sum.splits)

lemma redis_op_simps [simp]:
  "redis_op rs (OpSetState a st) d = map_prod Done id (redis_SetAgentState rs a st d)"
  "redis_op rs (OpGetState a) d = map_prod GotStr id (redis_GetAgentState rs a d)"
  "redis_op rs (OpCas a e n) d = map_prod Done id (redis_CompareAndSetAgentState rs a e n d)"
  "redis_op rs (OpSetFields a r) d = map_prod Done id (redis_SetAgentFields rs a r d)"
  "redis_op rs (OpGetFields a) d = map_prod GotFields id (redis_GetAgentFields rs a d)"
  "redis_op rs (OpClear a) d = map_prod Done id (redis_ClearCurrentTask rs a d)"
  "redis_op rs (OpDelete a) d = map_prod Done id (redis_DeleteAgent rs a d)"
  "redis_op rs OpList d = map_prod (GotIds \<circ> map_sum id set) id (redis_ListAgents rs d)"
  "redis_op rs OpStates d = map_prod GotStates id (redis_GetAllAgentStates rs d)"
  "redis_op rs (OpEnqueue t p meta) d = map_prod Done id (redis_EnqueueTaskWithMeta rs t p meta d)"
  "redis_op rs (OpMeta t) d = map_prod GotMeta id (redis_GetTaskMeta rs t d)"
  "redis_op rs OpDequeue d = map_prod GotTask id (redis_DequeueTask rs d)"
  "redis_op rs OpLength d = map_prod GotNum id (redis_QueueLength rs d)"
  "redis_op rs OpPing d = map_prod Done id (redis_Ping rs d)"
  by (simp_all add: redis_op_def redis_store_def)

text \<open>
  The calls for which the stores agree: a task is not enqueued while it waits, no two waiting tasks
  have the same priority (both stores leave their order open), and times fit an int64.
\<close>

fun op_ok :: "store_op \<Rightarrow> MockStore \<Rightarrow> bool" where
  "op_ok (OpEnqueue t p meta) m \<longleftrightarrow> t \<notin> qTaskID ` set (queue m) \<and> p \<notin> qPriority ` set (queue m)"
| "op_ok (OpSetFields a r) m \<longleftrightarrow> int64_fields r"
| "op_ok _ m \<longleftrightarrow> True"

definition agree :: "'d RedisStore \<Rightarrow> ('d \<Rightarrow> rdb) \<Rightarrow> answer \<times> 'd \<Rightarrow> answer \<times> MockStore \<Rightarrow> bool" where
  "agree rs v x y \<longleftrightarrow> fst x = fst y \<and> mirrors rs v (snd x) (snd y)"

lemma mirrorsD:
  assumes "mirrors rs v d m"
  shows "no_errors m" "agents_mirror rs (v d) (agents m)" "queue_mirror rs (v d) (queue m)"
    "meta_mirror rs (v d) (taskMeta m)"
  using assms by (simp_all add: mirrors_def)

text \<open>A read that leaves the view as it is.\<close>

lemma mirrors_view: "mirrors rs v d m \<Longrightarrow> v d' = v d \<Longrightarrow> mirrors rs v d' m"
  by (simp add: mirrors_def)

lemma no_errors_upd [simp]:
  "no_errors (m\<lparr>agents := ags\<rparr>) = no_errors m" "no_errors (m\<lparr>queue := q\<rparr>) = no_errors m"
  "no_errors (m\<lparr>taskMeta := ms\<rparr>) = no_errors m"
  by (simp_all add: no_errors_def)

text \<open>Only agents changed, under the keys of the agents.\<close>

lemma mirrors_agents:
  assumes "mirrors rs v d m" and "agents_mirror rs (v d') ags"
    and "\<And>k. (\<forall>a. k \<noteq> agentKey rs a) \<Longrightarrow> k \<noteq> redis_key rs [agentSetKey] \<Longrightarrow> v d' k = v d k"
  shows "mirrors rs v d' (m\<lparr>agents := ags\<rparr>)"
proof -
  have "v d' (redis_key rs [queueKey]) = v d (redis_key rs [queueKey])"
    and "v d' (taskMetaKey rs t) = v d (taskMetaKey rs t)" for t by (simp_all add: assms(3))
  then show ?thesis
    using assms(1,2) by (simp add: mirrors_def queue_mirror_def meta_mirror_def)
qed

lemma write_agent:
  assumes "redis_ok R v" and "as_hash (v d k) = Some h" and "as_set (v d s) = Some A" and "fs \<noteq> []" and "k \<noteq> s"
  obtains reps d' where "rPipe R tx [HSET k fs, SADD s a] d = (None, reps, d')"
    and "v d' = (v d)(k \<mapsto> RHash (h ++ map_of (rev fs)), s := put_set (insert a A))"
proof -
  note laws = redis_okD [OF assms(1)]
  obtain n where "answers R v (HSET k fs) d (IntReply n) ((v d)(k \<mapsto> RHash (h ++ map_of (rev fs))))"
    using hash_answers(1) [OF laws(3) assms(2,4)] by blast
  from pipe_answers [OF laws(1) this] obtain d1 where
    p1: "\<And>tx cs. rPipe R tx (HSET k fs # cs) d =
      (fst (rPipe R tx cs d1), Inr (IntReply n) # fst (snd (rPipe R tx cs d1)), snd (snd (rPipe R tx cs d1)))"
    and v1: "v d1 = (v d)(k \<mapsto> RHash (h ++ map_of (rev fs)))" by auto
  have "as_set (v d1 s) = Some A" using assms(3,5) by (simp add: v1)
  then obtain n' where "answers R v (SADD s a) d1 (IntReply n') ((v d1)(s := put_set (insert a A)))"
    using set_answers(1) [OF laws(4)] by blast
  from pipe_answers [OF laws(1) this] obtain d2 where
    p2: "\<And>tx cs. rPipe R tx (SADD s a # cs) d1 =
      (fst (rPipe R tx cs d2), Inr (IntReply n') # fst (snd (rPipe R tx cs d2)), snd (snd (rPipe R tx cs d2)))"
    and v2: "v d2 = (v d1)(s := put_set (insert a A))" by auto
  show ?thesis using that [of _ d2] by (simp add: p1 p2 pipe_Nil [OF laws(1)] v1 v2)
qed

lemma agree_SetAgentState:
  assumes "redis_ok (client rs) v" and "mirrors rs v d m"
  shows "agree rs v (redis_op rs (OpSetState a st) d) (mock_op ord (OpSetState a st) m)"
proof -
  note M = mirrorsD [OF assms(2)]
  let ?r = "(case agents m a of None \<Rightarrow> zeroAgentFields | Some r \<Rightarrow> r)\<lparr>fState := st\<rparr>"
  obtain h where h: "as_hash (v d (agentKey rs a)) = Some h"
    and c: "case agents m a of None \<Rightarrow> h = Map.empty | Some r \<Rightarrow> encodes rs h r"
    using M(2) unfolding agents_mirror_def by blast
  have e: "encodes rs (h ++ map_of (rev [(fieldState, st)])) ?r"
    using c encodes_new [of rs st] by (cases "agents m a") (auto intro: encodes_state)
  obtain reps d' where p: "rPipe (client rs) True
      [HSET (agentKey rs a) [(fieldState, st)], SADD (redis_key rs [agentSetKey]) a] d = (None, reps, d')"
    and v': "v d' = (v d)(agentKey rs a \<mapsto> RHash (h ++ map_of (rev [(fieldState, st)])),
      redis_key rs [agentSetKey] := put_set (insert a (dom (agents m))))"
    by (rule write_agent [OF assms(1) h agents_mirrorD(3) [OF M(2)], of "[(fieldState, st)]"]) auto
  have "agents_mirror rs (v d') ((agents m)(a \<mapsto> ?r))"
    unfolding v' by (rule agents_mirror_write [OF M(2) as_hash_HSET [OF h] e refl]) simp
  then have "mirrors rs v d' (m\<lparr>agents := (agents m)(a \<mapsto> ?r)\<rparr>)"
    by (rule mirrors_agents [OF assms(2)]) (simp add: v')
  then show ?thesis
    by (simp add: agree_def redis_SetAgentState_def p mock_write_def SetAgentState_def Let_def)
qed

lemma agree_SetAgentFields:
  assumes "redis_ok (client rs) v" and "mirrors rs v d m" and "float_ok rs" and "int64_fields r"
  shows "agree rs v (redis_op rs (OpSetFields a r) d) (mock_op ord (OpSetFields a r) m)"
proof -
  note M = mirrorsD [OF assms(2)]
  obtain h where h: "as_hash (v d (agentKey rs a)) = Some h"
    using M(2) unfolding agents_mirror_def by blast
  have ne: "fields_hash rs r \<noteq> []" by (simp add: fields_hash_def)
  obtain reps d' where p: "rPipe (client rs) True
      [HSET (agentKey rs a) (fields_hash rs r), SADD (redis_key rs [agentSetKey]) a] d = (None, reps, d')"
    and v': "v d' = (v d)(agentKey rs a \<mapsto> RHash (h ++ map_of (rev (fields_hash rs r))),
      redis_key rs [agentSetKey] := put_set (insert a (dom (agents m))))"
    by (rule write_agent [OF assms(1) h agents_mirrorD(3) [OF M(2)] ne]) auto
  have "agents_mirror rs (v d') ((agents m)(a \<mapsto> r))"
    unfolding v' by (rule agents_mirror_write [OF M(2) as_hash_HSET [OF h ne] encodes_fields [OF assms(3,4)] refl])
  then have "mirrors rs v d' (m\<lparr>agents := (agents m)(a \<mapsto> r)\<rparr>)"
    by (rule mirrors_agents [OF assms(2)]) (simp add: v')
  then show ?thesis
    using M(1) by (simp add: agree_def redis_SetAgentFields_def p mock_write_def SetAgentFields_def no_errors_def)
qed

lemma agree_GetAgentState:
  assumes "redis_ok (client rs) v" and "mirrors rs v d m"
  shows "agree rs v (redis_op rs (OpGetState a) d) (mock_op ord (OpGetState a) m)"
proof -
  note M = mirrorsD [OF assms(2)] and laws = redis_okD [OF assms(1)]
  obtain h where h: "as_hash (v d (agentKey rs a)) = Some h"
    and c: "case agents m a of None \<Rightarrow> h = Map.empty | Some r \<Rightarrow> encodes rs h r"
    using M(2) unfolding agents_mirror_def by blast
  obtain d' where r: "rDo (client rs) (HGET (agentKey rs a) fieldState) d =
      (if (case h fieldState of None \<Rightarrow> NilReply | Some s \<Rightarrow> StrReply s) = NilReply then Inl redis_Nil
       else Inr (case h fieldState of None \<Rightarrow> NilReply | Some s \<Rightarrow> StrReply s), d')" and v': "v d' = v d"
    using do_answers [OF laws(1) hash_answers(2) [OF laws(3) h]] by metis
  have "fst (redis_GetAgentState rs a d) = GetAgentState m a" "snd (redis_GetAgentState rs a d) = d'"
    using c by (auto simp: redis_GetAgentState_def r GetAgentState_def str_of_def encodes_def split: option.splits)
  then show ?thesis
    using mirrors_view [OF assms(2) v'] by (simp add: agree_def map_prod_def split_beta)
qed

lemma agree_GetAgentFields:
  assumes "redis_ok (client rs) v" and "mirrors rs v d m"
  shows "agree rs v (redis_op rs (OpGetFields a) d) (mock_op ord (OpGetFields a) m)"
proof -
  note M = mirrorsD [OF assms(2)] and laws = redis_okD [OF assms(1)]
  obtain h where h: "as_hash (v d (agentKey rs a)) = Some h"
    and c: "case agents m a of None \<Rightarrow> h = Map.empty | Some r \<Rightarrow> encodes rs h r"
    using M(2) unfolding agents_mirror_def by blast
  obtain l where l: "answers (client rs) v (HGETALL (agentKey rs a)) d (HashReply l) (v d)" "map_of l = h"
    using hash_answers(3) [OF laws(3) h] by blast
  obtain d' where r: "rDo (client rs) (HGETALL (agentKey rs a)) d = (Inr (HashReply l), d')" and v': "v d' = v d"
    using do_answers [OF laws(1) l(1)] by (metis reply.distinct(7))
  have "fst (redis_GetAgentFields rs a d) = GetAgentFields m a"
  proof (cases "agents m a")
    case None
    then have "l = []" using c l(2) by (cases l) (auto simp: fun_eq_iff split: if_splits)
    then show ?thesis using None M(1) by (simp add: redis_GetAgentFields_def r GetAgentFields_def no_errors_def)
  next
    case (Some f)
    then have e: "encodes rs (map_of l) f" using c l(2) by simp
    then have "l \<noteq> []" by (auto simp: encodes_def)
    moreover have "parse_field ParseInt l a fieldLastHeartbeat = Inr (fLastHeartbeat f)"
      "parse_field ParseInt l a fieldRegisteredAt = Inr (fRegisteredAt f)"
      "parse_field (parseFloat rs) l a fieldCurrentTaskPrio = Inr (fCurrentTaskPriority f)"
      using e by (auto simp: encodes_def intro: parse_field_num)
    moreover have "lookup0 l fieldState = fState f" "lookup0 l fieldCurrentTask = fCurrentTaskID f"
      using e by (simp_all add: encodes_def lookup0_hget hget_def)
    ultimately show ?thesis
      using Some M(1) by (simp add: redis_GetAgentFields_def r GetAgentFields_def no_errors_def)
  qed
  moreover have "snd (redis_GetAgentFields rs a d) = d'" by (simp add: redis_GetAgentFields_def r)
  ultimately show ?thesis
    using mirrors_view [OF assms(2) v'] by (simp add: agree_def map_prod_def split_beta)
qed

lemma agree_Cas:
  assumes "redis_ok (client rs) v" and "mirrors rs v d m"
  shows "agree rs v (redis_op rs (OpCas a e n) d) (mock_op ord (OpCas a e n) m)"
proof -
  note M = mirrorsD [OF assms(2)] and laws = redis_okD [OF assms(1)]
  let ?k = "agentKey rs a" and ?call = "rCall (client rs)"
  obtain h where h: "as_hash (v d ?k) = Some h"
    and c: "case agents m a of None \<Rightarrow> h = Map.empty | Some r \<Rightarrow> encodes rs h r"
    using M(2) unfolding agents_mirror_def by blast
  obtain d1 where r: "?call (HGET ?k ''state'') d =
      (Inr (case h ''state'' of None \<Rightarrow> NilReply | Some s \<Rightarrow> StrReply s), d1)" and v1: "v d1 = v d"
    using do_answers [OF laws(1) hash_answers(2) [OF laws(3) h]] by metis
  have script: "rScript (client rs) (casScript ?call ?k e n) d = casScript ?call ?k e n d"
    if "fst (casScript ?call ?k e n d) \<noteq> Inr NilReply"
    using laws(1) that by (simp add: client_laws_def)
  have err: "compareAndSetErr m = None" using M(1) by (simp add: no_errors_def)
  show ?thesis
  proof (cases "agents m a")
    case None
    then have s: "casScript ?call ?k e n d = (Inr (IntReply (-1)), d1)" using c by (simp add: casScript_def r)
    then have "rScript (client rs) (casScript ?call ?k e n) d = (Inr (IntReply (-1)), d1)" by (simp add: script)
    then show ?thesis
      using None err mirrors_view [OF assms(2) v1]
      by (simp add: agree_def redis_CompareAndSetAgentState_def mock_write_def CompareAndSetAgentState_def)
  next
    case (Some f)
    then have f: "h ''state'' = Some (fState f)" "encodes rs h f" using c by (simp_all add: encodes_def redis_names)
    show ?thesis
    proof (cases "fState f = e")
      case False
      then have s: "casScript ?call ?k e n d = (Inr (ArrReply [IntReply 0, StrReply (fState f)]), d1)"
        using f by (simp add: casScript_def r)
      then have "rScript (client rs) (casScript ?call ?k e n) d = (Inr (ArrReply [IntReply 0, StrReply (fState f)]), d1)"
        by (simp add: script)
      then show ?thesis
        using Some False err mirrors_view [OF assms(2) v1]
        by (simp add: agree_def redis_CompareAndSetAgentState_def mock_write_def CompareAndSetAgentState_def)
    next
      case True
      have h1: "as_hash (v d1 ?k) = Some h" using h v1 by simp
      let ?fs = "[(''state'', n)]"
      obtain j where j: "answers (client rs) v (HSET ?k ?fs) d1 (IntReply j) ((v d1)(?k \<mapsto> RHash (h ++ map_of (rev ?fs))))"
        using hash_answers(1) [OF laws(3) h1, of ?fs] by auto
      obtain d2 where w: "?call (HSET ?k ?fs) d1 = (Inr (IntReply j), d2)"
        and v2: "v d2 = (v d1)(?k \<mapsto> RHash (h ++ map_of (rev ?fs)))" by (rule answersE [OF j])
      have s: "casScript ?call ?k e n d = (Inr (IntReply 1), d2)" using f True by (simp add: casScript_def r w)
      then have run: "rScript (client rs) (casScript ?call ?k e n) d = (Inr (IntReply 1), d2)" by (simp add: script)
      have e: "encodes rs (h ++ map_of (rev ?fs)) (f\<lparr>fState := n\<rparr>)"
        using encodes_state [OF f(2), of n] by (simp add: redis_names)
      have "agents_mirror rs (v d2) ((agents m)(a \<mapsto> f\<lparr>fState := n\<rparr>))"
        unfolding v2 v1 by (rule agents_mirror_update [OF M(2) as_hash_HSET [OF h] e]) (use Some in auto)
      then have "mirrors rs v d2 (m\<lparr>agents := (agents m)(a \<mapsto> f\<lparr>fState := n\<rparr>)\<rparr>)"
        by (rule mirrors_agents [OF assms(2)]) (simp add: v2 v1)
      then show ?thesis
        using Some True err
        by (simp add: agree_def redis_CompareAndSetAgentState_def mock_write_def CompareAndSetAgentState_def run)
    qed
  qed
qed

lemma agree_Clear:
  assumes "redis_ok (client rs) v" and "mirrors rs v d m" and "float_ok rs"
  shows "agree rs v (redis_op rs (OpClear a) d) (mock_op ord (OpClear a) m)"
proof -
  note M = mirrorsD [OF assms(2)] and laws = redis_okD [OF assms(1)]
  let ?k = "agentKey rs a" and ?call = "rCall (client rs)"
  let ?fs = "[(''current_task_id'', ''''), (''current_task_priority'', ''0'')]"
  obtain h where h: "as_hash (v d ?k) = Some h"
    and c: "case agents m a of None \<Rightarrow> h = Map.empty | Some r \<Rightarrow> encodes rs h r"
    using M(2) unfolding agents_mirror_def by blast
  obtain d1 where r: "?call (EXISTS ?k) d = (Inr (IntReply (if v d ?k = None then 0 else 1)), d1)" and v1: "v d1 = v d"
    using answersD [OF key_answers(1) [OF laws(2)]] by blast
  have script: "rScript (client rs) (clearTaskScript ?call ?k) d = clearTaskScript ?call ?k d"
    if "fst (clearTaskScript ?call ?k d) \<noteq> Inr NilReply"
    using laws(1) that by (simp add: client_laws_def)
  have err: "clearCurrentTaskErr m = None" using M(1) by (simp add: no_errors_def)
  show ?thesis
  proof (cases "agents m a")
    case None
    then have "v d ?k = None" using c h by (simp add: as_hash_empty_iff)
    then have s: "clearTaskScript ?call ?k d = (Inr (IntReply (-1)), d1)" by (simp add: clearTaskScript_def r)
    then have "rScript (client rs) (clearTaskScript ?call ?k) d = (Inr (IntReply (-1)), d1)" by (simp add: script)
    then show ?thesis
      using None err mirrors_view [OF assms(2) v1]
      by (simp add: agree_def redis_ClearCurrentTask_def mock_write_def ClearCurrentTask_def)
  next
    case (Some f)
    then have f: "encodes rs h f" using c by simp
    then have "h \<noteq> Map.empty" by (auto simp: encodes_def)
    then have ex: "v d ?k \<noteq> None" using h by auto
    have h1: "as_hash (v d1 ?k) = Some h" using h v1 by simp
    obtain j where j: "answers (client rs) v (HSET ?k ?fs) d1 (IntReply j) ((v d1)(?k \<mapsto> RHash (h ++ map_of (rev ?fs))))"
      using hash_answers(1) [OF laws(3) h1, of ?fs] by auto
    obtain d2 where w: "?call (HSET ?k ?fs) d1 = (Inr (IntReply j), d2)"
      and v2: "v d2 = (v d1)(?k \<mapsto> RHash (h ++ map_of (rev ?fs)))" by (rule answersE [OF j])
    have s: "clearTaskScript ?call ?k d = (Inr (IntReply 1), d2)" using ex by (simp add: clearTaskScript_def r w)
    then have run: "rScript (client rs) (clearTaskScript ?call ?k) d = (Inr (IntReply 1), d2)" by (simp add: script)
    have "agents_mirror rs (v d2) ((agents m)(a \<mapsto> f\<lparr>fCurrentTaskID := '''', fCurrentTaskPriority := 0\<rparr>))"
      unfolding v2 v1
      by (rule agents_mirror_update [OF M(2) as_hash_HSET [OF h] encodes_clear [OF assms(3) f]]) (use Some in auto)
    then have "mirrors rs v d2 (m\<lparr>agents := (agents m)(a \<mapsto> f\<lparr>fCurrentTaskID := '''', fCurrentTaskPriority := 0\<rparr>)\<rparr>)"
      by (rule mirrors_agents [OF assms(2)]) (simp add: v2 v1)
    then show ?thesis
      using Some err by (simp add: agree_def redis_ClearCurrentTask_def mock_write_def ClearCurrentTask_def run)
  qed
qed

lemma agree_Delete:
  assumes "redis_ok (client rs) v" and "mirrors rs v d m"
  shows "agree rs v (redis_op rs (OpDelete a) d) (mock_op ord (OpDelete a) m)"
proof -
  note M = mirrorsD [OF assms(2)] and laws = redis_okD [OF assms(1)]
  let ?k = "agentKey rs a" and ?s = "redis_key rs [agentSetKey]" and ?R = "client rs"
  obtain n where "answers ?R v (DEL ?k) d (IntReply n) ((v d)(?k := None))" using key_answers(2) [OF laws(2)] by blast
  from pipe_answers [OF laws(1) this] obtain d1 where
    p1: "\<And>tx cs. rPipe ?R tx (DEL ?k # cs) d =
      (fst (rPipe ?R tx cs d1), Inr (IntReply n) # fst (snd (rPipe ?R tx cs d1)), snd (snd (rPipe ?R tx cs d1)))"
    and v1: "v d1 = (v d)(?k := None)" by auto
  have "as_set (v d1 ?s) = Some (dom (agents m))" using agents_mirrorD(3) [OF M(2)] by (simp add: v1)
  then obtain n' where "answers ?R v (SREM ?s a) d1 (IntReply n') ((v d1)(?s := put_set (dom (agents m) - {a})))"
    using set_answers(2) [OF laws(4)] by blast
  from pipe_answers [OF laws(1) this] obtain d2 where
    p2: "\<And>tx cs. rPipe ?R tx (SREM ?s a # cs) d1 =
      (fst (rPipe ?R tx cs d2), Inr (IntReply n') # fst (snd (rPipe ?R tx cs d2)), snd (snd (rPipe ?R tx cs d2)))"
    and v2: "v d2 = (v d1)(?s := put_set (dom (agents m) - {a}))" by auto
  have "agents_mirror rs (v d2) ((agents m)(a := None))"
    unfolding v2 v1 by (rule agents_mirror_delete [OF M(2)])
  then have "mirrors rs v d2 (m\<lparr>agents := (agents m)(a := None)\<rparr>)"
    by (rule mirrors_agents [OF assms(2)]) (simp add: v2 v1)
  then show ?thesis
    using M(1) by (simp add: agree_def redis_DeleteAgent_def p1 p2 pipe_Nil [OF laws(1)] mock_write_def
        DeleteAgent_def no_errors_def)
qed

lemma members_reply:
  assumes "redis_ok (client rs) v" and "mirrors rs v d m"
  obtains l d' where "rDo (client rs) (SMEMBERS (redis_key rs [agentSetKey])) d = (Inr (StrsReply l), d')"
    and "v d' = v d" and "set l = dom (agents m)" and "distinct l"
proof -
  note M = mirrorsD [OF assms(2)] and laws = redis_okD [OF assms(1)]
  obtain l where l: "answers (client rs) v (SMEMBERS (redis_key rs [agentSetKey])) d (StrsReply l) (v d)"
    "set l = dom (agents m)" "distinct l"
    using set_answers(3) [OF laws(4) agents_mirrorD(3) [OF M(2)]] by blast
  from do_answers [OF laws(1) l(1)] show ?thesis using that l(2,3) by auto
qed

lemma agree_List:
  assumes "redis_ok (client rs) v" and "mirrors rs v d m" and "fair_order ord"
  shows "agree rs v (redis_op rs OpList d) (mock_op ord OpList m)"
proof -
  obtain l d' where r: "rDo (client rs) (SMEMBERS (redis_key rs [agentSetKey])) d = (Inr (StrsReply l), d')"
    and v': "v d' = v d" and l: "set l = dom (agents m)"
    by (rule members_reply [OF assms(1,2)])
  have "finite (dom (agents m))" using l by (metis finite_set)
  then show ?thesis
    using mirrors_view [OF assms(2) v'] l assms(3)
    by (simp add: agree_def redis_ListAgents_def r ListAgents_def strs_of_def)
qed

text \<open>The pipeline of reads and the loop over its results.\<close>

lemma states_pipeline:
  assumes "redis_ok (client rs) v" and "agents_mirror rs (v d) ags" and "set l \<subseteq> dom ags"
  shows "\<exists>reps d'. rPipe (client rs) tx (map (\<lambda>i. HGET (agentKey rs i) fieldState) l) d = (None, reps, d') \<and>
    v d' = v d \<and> (\<forall>st. collect_states (zip l reps) st = Inr (st ++ (\<lambda>i. if i \<in> set l then map_option fState (ags i) else None)))"
  using assms(2,3)
proof (induction l arbitrary: d)
  case Nil
  then show ?case using redis_okD(1) [OF assms(1)] by (simp add: pipe_Nil map_add_def)
next
  case (Cons i l)
  note laws = redis_okD [OF assms(1)]
  obtain f where f: "ags i = Some f" using Cons.prems(2) by auto
  obtain h where h: "as_hash (v d (agentKey rs i)) = Some h" "encodes rs h f"
    using agents_mirrorD(2) [OF Cons.prems(1) f] by blast
  have "answers (client rs) v (HGET (agentKey rs i) fieldState) d (StrReply (fState f)) (v d)"
    using hash_answers(2) [OF laws(3) h(1), of fieldState] h(2) by (simp add: encodes_def)
  from pipe_answers [OF laws(1) this] obtain d1 where
    p1: "\<And>tx cs. rPipe (client rs) tx (HGET (agentKey rs i) fieldState # cs) d =
      (fst (rPipe (client rs) tx cs d1), Inr (StrReply (fState f)) # fst (snd (rPipe (client rs) tx cs d1)),
       snd (snd (rPipe (client rs) tx cs d1)))"
    and v1: "v d1 = v d" by auto
  obtain reps d' where IH: "rPipe (client rs) tx (map (\<lambda>i. HGET (agentKey rs i) fieldState) l) d1 = (None, reps, d')"
    "v d' = v d1" "\<And>st. collect_states (zip l reps) st =
      Inr (st ++ (\<lambda>i. if i \<in> set l then map_option fState (ags i) else None))"
    using Cons.IH [of d1] Cons.prems by (auto simp: v1)
  have "st(i \<mapsto> fState f) ++ (\<lambda>i. if i \<in> set l then map_option fState (ags i) else None) =
      st ++ (\<lambda>j. if j \<in> set (i # l) then map_option fState (ags j) else None)" for st
    using f Cons.prems(2) by (auto simp: map_add_def fun_eq_iff split: option.splits)
  then show ?case by (simp add: p1 IH v1 str_of_def)
qed

lemma agree_States:
  assumes "redis_ok (client rs) v" and "mirrors rs v d m"
  shows "agree rs v (redis_op rs OpStates d) (mock_op ord OpStates m)"
proof -
  note M = mirrorsD [OF assms(2)]
  obtain l d1 where r: "rDo (client rs) (SMEMBERS (redis_key rs [agentSetKey])) d = (Inr (StrsReply l), d1)"
    and v1: "v d1 = v d" and l: "set l = dom (agents m)"
    by (rule members_reply [OF assms(1,2)])
  have sub: "set l \<subseteq> dom (agents m)" and M1: "agents_mirror rs (v d1) (agents m)" using l M(2) v1 by simp_all
  obtain reps d2 where p: "rPipe (client rs) False (map (\<lambda>i. HGET (agentKey rs i) fieldState) l) d1 = (None, reps, d2)"
    "v d2 = v d1" "\<And>st. collect_states (zip l reps) st =
      Inr (st ++ (\<lambda>i. if i \<in> set l then map_option fState (agents m i) else None))"
    using states_pipeline [OF assms(1) M1 sub] by blast
  have all: "(\<lambda>i. if i \<in> set l then map_option fState (agents m i) else None) = (\<lambda>i. map_option fState (agents m i))"
    using l by (auto simp: fun_eq_iff)
  have none: "Map.empty = (\<lambda>i. map_option fState (agents m i))" if "l = []"
    using l that by (auto simp: fun_eq_iff)
  show ?thesis
    using mirrors_view [OF assms(2) v1] mirrors_view [OF assms(2), of d2] M(1) none all
    by (simp add: agree_def redis_GetAllAgentStates_def r strs_of_def p v1 GetAllAgentStates_def no_errors_def Let_def)
qed

subsection \<open>The queue\<close>

lemma distinct_map_sort_key: "distinct (map f (sort_key g xs)) \<longleftrightarrow> distinct (map f xs)"
proof -
  have "mset (map f (sort_key g xs)) = mset (map f xs)" by simp
  then show ?thesis by (rule mset_eq_imp_distinct_iff)
qed

lemma zqueue_Some:
  assumes "distinct (map qTaskID q)"
  shows "zqueue q t = Some p \<longleftrightarrow> \<lparr>qTaskID = t, qPriority = p\<rparr> \<in> set q"
proof -
  have eq: "i = \<lparr>qTaskID = t, qPriority = p\<rparr> \<longleftrightarrow> t = qTaskID i \<and> p = qPriority i" for i :: queueItem
    by (cases i) auto
  have "map fst (map (\<lambda>i. (qTaskID i, qPriority i)) q) = map qTaskID q" by simp
  then have "zqueue q t = Some p \<longleftrightarrow> (t, p) \<in> set (map (\<lambda>i. (qTaskID i, qPriority i)) q)"
    unfolding zqueue_def using assms by (metis map_of_eq_Some_iff)
  also have "\<dots> \<longleftrightarrow> (\<exists>i \<in> set q. i = \<lparr>qTaskID = t, qPriority = p\<rparr>)"
    by (auto simp: image_iff eq)
  also have "\<dots> \<longleftrightarrow> \<lparr>qTaskID = t, qPriority = p\<rparr> \<in> set q" by simp
  finally show ?thesis .
qed

lemma dom_zqueue: "dom (zqueue q) = qTaskID ` set q"
  by (simp add: zqueue_def dom_map_of_conv_image_fst image_image)

lemma finite_zqueue [simp]: "finite (dom (zqueue q))"
  by (simp add: dom_zqueue)

lemma zqueue_enqueue:
  assumes "distinct (map qTaskID q)" and "t \<notin> qTaskID ` set q"
  shows "zqueue (sort_key qPriority (q @ [\<lparr>qTaskID = t, qPriority = p\<rparr>])) = (zqueue q)(t \<mapsto> p)"
proof -
  let ?q = "q @ [\<lparr>qTaskID = t, qPriority = p\<rparr>]"
  have d': "distinct (map qTaskID (sort_key qPriority ?q))"
    using assms unfolding distinct_map_sort_key by simp
  have no: "\<lparr>qTaskID = t, qPriority = r\<rparr> \<notin> set q" for r using assms(2) by force
  have "zqueue (sort_key qPriority ?q) u = Some r \<longleftrightarrow> ((zqueue q)(t \<mapsto> p)) u = Some r" for u r
    using no zqueue_Some [OF d', of u r] zqueue_Some [OF assms(1), of u r]
    by (cases "u = t") auto
  then show ?thesis by (metis ext not_Some_eq)
qed

lemma queue_mirror_enqueue:
  assumes "queue_mirror rs db q" and "t \<notin> qTaskID ` set q" and "p \<notin> qPriority ` set q"
  shows "queue_mirror rs (db(redis_key rs [queueKey] := put_zset ((zqueue q)(t \<mapsto> p))))
    (sort_key qPriority (q @ [\<lparr>qTaskID = t, qPriority = p\<rparr>]))"
proof -
  let ?q = "q @ [\<lparr>qTaskID = t, qPriority = p\<rparr>]"
  have "distinct (map qPriority (sort_key qPriority ?q))" "distinct (map qTaskID (sort_key qPriority ?q))"
    using assms unfolding distinct_map_sort_key by (simp_all add: queue_mirror_def)
  then show ?thesis
    using assms zqueue_enqueue [of q t p] by (simp add: queue_mirror_def)
qed

lemma queue_mirror_dequeue:
  assumes "queue_mirror rs db (i # q)"
  shows "queue_mirror rs (db(redis_key rs [queueKey] := put_zset ((zqueue (i # q))(qTaskID i := None)))) q"
proof -
  have "qTaskID i \<notin> dom (zqueue q)" using assms by (auto simp: queue_mirror_def dom_zqueue)
  then have "(zqueue (i # q))(qTaskID i := None) = zqueue q" by (auto simp: zqueue_def fun_eq_iff)
  then show ?thesis using assms by (simp add: queue_mirror_def)
qed

text \<open>The sorted set's member of least score is the head of the sorted queue.\<close>

lemma zqueue_least:
  assumes "queue_mirror rs db (i # q)" and "zqueue (i # q) t = Some p" and "\<forall>r \<in> ran (zqueue (i # q)). p \<le> r"
  shows "t = qTaskID i \<and> p = qPriority i"
proof -
  have d: "distinct (map qTaskID (i # q))" and s: "sorted (map qPriority (i # q))" "distinct (map qPriority (i # q))"
    using assms(1) by (simp_all add: queue_mirror_def)
  have "zqueue (i # q) (qTaskID i) = Some (qPriority i)" by (simp add: zqueue_def)
  then have le: "p \<le> qPriority i" using assms(3) by (auto intro: ranI)
  have "\<lparr>qTaskID = t, qPriority = p\<rparr> \<in> set (i # q)" using assms(2) zqueue_Some [OF d] by blast
  then consider "i = \<lparr>qTaskID = t, qPriority = p\<rparr>" | "\<lparr>qTaskID = t, qPriority = p\<rparr> \<in> set q" by auto
  then show ?thesis
  proof cases
    case 2
    then have "p \<in> qPriority ` set q" by force
    then have "qPriority i < p" using s by (auto simp: order.strict_iff_order)
    then show ?thesis using le by simp
  qed simp
qed

lemma mirrors_queue:
  assumes "mirrors rs v d m" and "queue_mirror rs (v d') q"
    and "\<And>k. k \<noteq> redis_key rs [queueKey] \<Longrightarrow> v d' k = v d k"
  shows "mirrors rs v d' (m\<lparr>queue := q\<rparr>)"
proof -
  have "v d' (agentKey rs a) = v d (agentKey rs a)" "v d' (taskMetaKey rs t) = v d (taskMetaKey rs t)"
    "v d' (redis_key rs [agentSetKey]) = v d (redis_key rs [agentSetKey])" for a t
    by (simp_all add: assms(3))
  then show ?thesis using assms(1,2) by (simp add: mirrors_def agents_mirror_def meta_mirror_def)
qed

lemma mirrors_meta:
  assumes "mirrors rs v d m" and "as_hash x = Some h" and "meta_of h = meta"
    and "v d' = (v d)(taskMetaKey rs t := x)"
  shows "mirrors rs v d' (m\<lparr>taskMeta := (taskMeta m)(t \<mapsto> meta)\<rparr>)"
proof -
  note M = mirrorsD [OF assms(1)]
  have "\<exists>h. as_hash (v d' (taskMetaKey rs u)) = Some h \<and>
      meta_of h = (case ((taskMeta m)(t \<mapsto> meta)) u of None \<Rightarrow> zeroTaskMeta | Some x \<Rightarrow> x)" for u
    using M(4) assms(2-4) by (cases "u = t") (auto simp: meta_mirror_def)
  moreover have "agents_mirror rs (v d') (agents m)"
    unfolding assms(4) by (rule agents_mirror_other [OF M(2)]) simp_all
  moreover have "queue_mirror rs (v d') (queue m)"
    unfolding assms(4) by (rule queue_mirror_other [OF M(3)]) simp
  ultimately show ?thesis using M(1) by (simp add: mirrors_def meta_mirror_def)
qed

lemma agree_Enqueue:
  assumes "redis_ok (client rs) v" and "mirrors rs v d m" and "op_ok (OpEnqueue t p meta) m"
  shows "agree rs v (redis_op rs (OpEnqueue t p meta) d) (mock_op ord (OpEnqueue t p meta) m)"
proof -
  note M = mirrorsD [OF assms(2)] and laws = redis_okD [OF assms(1)]
  let ?R = "client rs" and ?k = "redis_key rs [queueKey]" and ?mk = "taskMetaKey rs t"
  let ?q = "sort_key qPriority (queue m @ [\<lparr>qTaskID = t, qPriority = p\<rparr>])"
  have err: "enqueueTaskErr m = None" using M(1) by (simp add: no_errors_def)
  have z: "as_zset (v d ?k) = Some (zqueue (queue m))" using M(3) by (simp add: queue_mirror_def)
  obtain n where "answers ?R v (ZADD ?k p t) d (IntReply n) ((v d)(?k := put_zset ((zqueue (queue m))(t \<mapsto> p))))"
    using zset_answers(1) [OF laws(5) z] by blast
  from pipe_answers [OF laws(1) this] obtain d1 where
    p1: "\<And>tx cs. rPipe ?R tx (ZADD ?k p t # cs) d =
      (fst (rPipe ?R tx cs d1), Inr (IntReply n) # fst (snd (rPipe ?R tx cs d1)), snd (snd (rPipe ?R tx cs d1)))"
    and v1: "v d1 = (v d)(?k := put_zset ((zqueue (queue m))(t \<mapsto> p)))" by auto
  have "queue_mirror rs (v d1) ?q"
    unfolding v1 using queue_mirror_enqueue [OF M(3)] assms(3) by simp
  then have m1: "mirrors rs v d1 (m\<lparr>queue := ?q\<rparr>)" by (rule mirrors_queue [OF assms(2)]) (simp add: v1)
  show ?thesis
  proof (cases "TaskMeta_IsZero meta")
    case True
    then show ?thesis
      using m1 err by (simp add: agree_def redis_EnqueueTaskWithMeta_def p1 pipe_Nil [OF laws(1)] mock_write_def
          EnqueueTaskWithMeta_def Let_def)
  next
    case False
    obtain h where h: "as_hash (v d1 ?mk) = Some h" using mirrorsD(4) [OF m1] by (auto simp: meta_mirror_def)
    have ne: "meta_hash meta \<noteq> []" by (simp add: meta_hash_def)
    obtain j where "answers ?R v (HSET ?mk (meta_hash meta)) d1 (IntReply j)
        ((v d1)(?mk \<mapsto> RHash (h ++ map_of (rev (meta_hash meta)))))"
      using hash_answers(1) [OF laws(3) h ne] by blast
    from pipe_answers [OF laws(1) this] obtain d2 where
      p2: "\<And>tx cs. rPipe ?R tx (HSET ?mk (meta_hash meta) # cs) d1 =
        (fst (rPipe ?R tx cs d2), Inr (IntReply j) # fst (snd (rPipe ?R tx cs d2)), snd (snd (rPipe ?R tx cs d2)))"
      and v2: "v d2 = (v d1)(?mk \<mapsto> RHash (h ++ map_of (rev (meta_hash meta))))" by auto
    obtain i where "answers ?R v (EXPIRE ?mk taskMetaTTL) d2 (IntReply i) (v d2)"
      using key_answers(3) [OF laws(2)] by blast
    from pipe_answers [OF laws(1) this] obtain d3 where
      p3: "\<And>tx cs. rPipe ?R tx (EXPIRE ?mk taskMetaTTL # cs) d2 =
        (fst (rPipe ?R tx cs d3), Inr (IntReply i) # fst (snd (rPipe ?R tx cs d3)), snd (snd (rPipe ?R tx cs d3)))"
      and v3: "v d3 = v d2" by auto
    have "mirrors rs v d3 (m\<lparr>queue := ?q, taskMeta := (taskMeta (m\<lparr>queue := ?q\<rparr>))(t \<mapsto> meta)\<rparr>)"
      by (rule mirrors_meta [OF m1 as_hash_HSET [OF h ne] meta_of_hash]) (simp add: v3 v2)
    then show ?thesis
      using False err by (simp add: agree_def redis_EnqueueTaskWithMeta_def p1 p2 p3 pipe_Nil [OF laws(1)]
          mock_write_def EnqueueTaskWithMeta_def Let_def)
  qed
qed

lemma agree_Meta:
  assumes "redis_ok (client rs) v" and "mirrors rs v d m"
  shows "agree rs v (redis_op rs (OpMeta t) d) (mock_op ord (OpMeta t) m)"
proof -
  note M = mirrorsD [OF assms(2)] and laws = redis_okD [OF assms(1)]
  obtain h where h: "as_hash (v d (taskMetaKey rs t)) = Some h"
    and m: "meta_of h = (case taskMeta m t of None \<Rightarrow> zeroTaskMeta | Some x \<Rightarrow> x)"
    using M(4) unfolding meta_mirror_def by blast
  obtain l where l: "answers (client rs) v (HGETALL (taskMetaKey rs t)) d (HashReply l) (v d)" "map_of l = h"
    using hash_answers(3) [OF laws(3) h] by blast
  from do_answers [OF laws(1) l(1)] obtain d' where
    r: "rDo (client rs) (HGETALL (taskMetaKey rs t)) d = (Inr (HashReply l), d')" and v': "v d' = v d" by auto
  show ?thesis
    using mirrors_view [OF assms(2) v'] l(2) m
    by (simp add: agree_def redis_GetTaskMeta_def r GetTaskMeta_def lookup0_hget meta_of_def Let_def)
qed

lemma agree_Dequeue:
  assumes "redis_ok (client rs) v" and "mirrors rs v d m"
  shows "agree rs v (redis_op rs OpDequeue d) (mock_op ord OpDequeue m)"
proof -
  note M = mirrorsD [OF assms(2)] and laws = redis_okD [OF assms(1)]
  let ?k = "redis_key rs [queueKey]"
  have err: "dequeueTaskErr m = None" using M(1) by (simp add: no_errors_def)
  have z: "as_zset (v d ?k) = Some (zqueue (queue m))" using M(3) by (simp add: queue_mirror_def)
  show ?thesis
  proof (cases "queue m")
    case Nil
    then have "zqueue (queue m) = Map.empty" by (simp add: zqueue_def)
    from do_answers [OF laws(1) zset_answers(2) [OF laws(5) z this]] obtain d' where
      r: "rDo (client rs) (ZPOPMIN ?k 1) d = (Inr (ScoredReply []), d')" and v': "v d' = v d" by auto
    show ?thesis
      using mirrors_view [OF assms(2) v'] Nil err by (simp add: agree_def redis_DequeueTask_def r DequeueTask_def)
  next
    case (Cons i q)
    have "zqueue (i # q) (qTaskID i) = Some (qPriority i)" by (simp add: zqueue_def)
    then have "zqueue (queue m) \<noteq> Map.empty" unfolding Cons by (metis option.distinct(1))
    then obtain x p where x: "zqueue (queue m) x = Some p" "\<forall>r \<in> ran (zqueue (queue m)). p \<le> r"
      and a: "answers (client rs) v (ZPOPMIN ?k 1) d (ScoredReply [(x, p)])
        ((v d)(?k := put_zset ((zqueue (queue m))(x := None))))"
      using zset_answers(3) [OF laws(5) z] by blast
    have e: "x = qTaskID i" "p = qPriority i" using zqueue_least [of rs "v d" i q x p] M(3) x Cons by auto
    from do_answers [OF laws(1) a] obtain d' where
      r: "rDo (client rs) (ZPOPMIN ?k 1) d = (Inr (ScoredReply [(x, p)]), d')"
      and v': "v d' = (v d)(?k := put_zset ((zqueue (queue m))(x := None)))" by auto
    have "queue_mirror rs (v d') q" using queue_mirror_dequeue [of rs "v d" i q] M(3) by (simp add: v' e Cons)
    then have "mirrors rs v d' (m\<lparr>queue := q\<rparr>)" by (rule mirrors_queue [OF assms(2)]) (simp add: v')
    then show ?thesis using Cons err by (simp add: agree_def redis_DequeueTask_def r DequeueTask_def e)
  qed
qed

lemma agree_Length:
  assumes "redis_ok (client rs) v" and "mirrors rs v d m"
  shows "agree rs v (redis_op rs OpLength d) (mock_op ord OpLength m)"
proof -
  note M = mirrorsD [OF assms(2)] and laws = redis_okD [OF assms(1)]
  let ?k = "redis_key rs [queueKey]"
  have z: "as_zset (v d ?k) = Some (zqueue (queue m))" using M(3) by (simp add: queue_mirror_def)
  from do_answers [OF laws(1) zset_answers(4) [OF laws(5) z]] obtain d' where
    r: "rDo (client rs) (ZCARD ?k) d = (Inr (IntReply (int (card (dom (zqueue (queue m)))))), d')"
    and v': "v d' = v d" by auto
  have "card (dom (zqueue (queue m))) = length (queue m)"
    using M(3) distinct_card [of "map qTaskID (queue m)"] by (simp add: dom_zqueue queue_mirror_def)
  then show ?thesis
    using mirrors_view [OF assms(2) v'] M(1)
    by (simp add: agree_def redis_QueueLength_def r QueueLength_def no_errors_def)
qed

lemma agree_Ping:
  assumes "redis_ok (client rs) v" and "mirrors rs v d m"
  shows "agree rs v (redis_op rs OpPing d) (mock_op ord OpPing m)"
proof -
  note M = mirrorsD [OF assms(2)] and laws = redis_okD [OF assms(1)]
  from do_answers [OF laws(1) key_answers(4) [OF laws(2)]] obtain d' where
    "rDo (client rs) PING d = (Inr (StrReply ''PONG''), d')" "v d' = v d" by auto
  then show ?thesis
    using mirrors_view [OF assms(2), of d'] M(1) by (simp add: agree_def redis_Ping_def Ping_def no_errors_def)
qed

subsection \<open>The two stores answer alike\<close>

fun mock_run :: "string map_order \<Rightarrow> store_op list \<Rightarrow> MockStore \<Rightarrow> answer list \<times> MockStore" where
  "mock_run ord [] m = ([], m)"
| "mock_run ord (x # ops) m =
     (let (a, m1) = mock_op ord x m; (ans, m2) = mock_run ord ops m1 in (a # ans, m2))"

fun redis_run :: "'d RedisStore \<Rightarrow> store_op list \<Rightarrow> 'd \<Rightarrow> answer list \<times> 'd" where
  "redis_run rs [] d = ([], d)"
| "redis_run rs (x # ops) d =
     (let (a, d1) = redis_op rs x d; (ans, d2) = redis_run rs ops d1 in (a # ans, d2))"

fun admissible :: "string map_order \<Rightarrow> store_op list \<Rightarrow> MockStore \<Rightarrow> bool" where
  "admissible ord [] m \<longleftrightarrow> True"
| "admissible ord (x # ops) m \<longleftrightarrow> op_ok x m \<and> admissible ord ops (snd (mock_op ord x m))"

lemma agree_op:
  assumes "redis_ok (client rs) v" and "mirrors rs v d m" and "float_ok rs" and "fair_order ord" and "op_ok x m"
  shows "agree rs v (redis_op rs x d) (mock_op ord x m)"
proof (cases x)
  case (OpSetState a st)
  then show ?thesis using agree_SetAgentState [OF assms(1,2)] by blast
next
  case (OpGetState a)
  then show ?thesis using agree_GetAgentState [OF assms(1,2)] by blast
next
  case (OpCas a e n)
  then show ?thesis using agree_Cas [OF assms(1,2)] by blast
next
  case (OpSetFields a r)
  then show ?thesis using agree_SetAgentFields [OF assms(1-3)] assms(5) by simp
next
  case (OpGetFields a)
  then show ?thesis using agree_GetAgentFields [OF assms(1,2)] by blast
next
  case (OpClear a)
  then show ?thesis using agree_Clear [OF assms(1-3)] by blast
next
  case (OpDelete a)
  then show ?thesis using agree_Delete [OF assms(1,2)] by blast
next
  case OpList
  then show ?thesis using agree_List [OF assms(1,2,4)] by blast
next
  case OpStates
  then show ?thesis using agree_States [OF assms(1,2)] by blast
next
  case (OpEnqueue t p meta)
  then show ?thesis using agree_Enqueue [OF assms(1,2)] assms(5) by blast
next
  case (OpMeta t)
  then show ?thesis using agree_Meta [OF assms(1,2)] by blast
next
  case OpDequeue
  then show ?thesis using agree_Dequeue [OF assms(1,2)] by blast
next
  case OpLength
  then show ?thesis using agree_Length [OF assms(1,2)] by blast
next
  case OpPing
  then show ?thesis using agree_Ping [OF assms(1,2)] by blast
qed

lemma agree_run:
  assumes "redis_ok (client rs) v" and "float_ok rs" and "fair_order ord"
    and "mirrors rs v d m" and "admissible ord ops m"
  shows "fst (redis_run rs ops d) = fst (mock_run ord ops m) \<and>
    mirrors rs v (snd (redis_run rs ops d)) (snd (mock_run ord ops m))"
  using assms(4,5)
proof (induction ops arbitrary: d m)
  case (Cons x ops)
  have "agree rs v (redis_op rs x d) (mock_op ord x m)"
    using agree_op [OF assms(1) Cons.prems(1) assms(2,3)] Cons.prems(2) by simp
  then show ?case
    using Cons.IH [of "snd (redis_op rs x d)" "snd (mock_op ord x m)"] Cons.prems(2)
    by (simp add: agree_def split_beta Let_def)
qed simp

lemma mirrors_empty: "v d = Map.empty \<Longrightarrow> mirrors rs v d NewMockStore"
  by (simp add: mirrors_def NewMockStore_def no_errors_def agents_mirror_def queue_mirror_def meta_mirror_def
      zqueue_def meta_of_def zeroTaskMeta_def)


subsection \<open>Events\<close>

text \<open>The event as it is stored: the time filled in if it was zero.\<close>

definition filled :: "gtime \<Rightarrow> Event \<Rightarrow> Event" where
  "filled now e = (if eTimestamp e = 0 then e\<lparr>eTimestamp := UnixMilli now\<rparr> else e)"

definition redis_publish_all :: "'d RedisStore \<Rightarrow> (gtime \<times> Event) list \<Rightarrow> 'd \<Rightarrow> 'd" where
  "redis_publish_all rs evs d = foldl (\<lambda>d (now, e). snd (redis_PublishEvent rs now e d)) d evs"

lemma parse_stored:
  assumes "map_of fs' = map_of [(''type'', eType e), (''agent_id'', eAgentID e), (''task_id'', eTaskID e),
      (''timestamp'', FormatInt (eTimestamp e)), (''payload'', ePayload e)]"
    and "- (2 ^ 63) \<le> eTimestamp e" and "eTimestamp e < 2 ^ 63"
  shows "parseXMessage (i, fs') = \<lparr>seID = i, seEvent = e\<rparr>"
  using assms
  by (simp add: parseXMessage_def show_value_def lookup0_def Atoi_FormatInt Let_def)

lemma publish_stored:
  assumes "redis_ok (client rs) v" and "as_stream (v d (redis_key rs [streamKey])) = Some ms"
    and "- (2 ^ 63) \<le> eTimestamp (filled now e)" and "eTimestamp (filled now e) < 2 ^ 63"
  shows "\<exists>msg. as_stream (v (snd (redis_PublishEvent rs now e d)) (redis_key rs [streamKey])) = Some (ms @ [msg]) \<and>
    seEvent (parseXMessage msg) = filled now e"
proof -
  note laws = redis_okD [OF assms(1)]
  let ?k = "redis_key rs [streamKey]"
  let ?fs = "[(''type'', eType e), (''agent_id'', eAgentID e), (''task_id'', eTaskID e),
      (''timestamp'', FormatInt (eTimestamp (filled now e))), (''payload'', ePayload e)]"
  obtain i fs' where i: "i \<notin> insert ''0'' (fst ` set ms)" "map_of fs' = map_of ?fs"
    and a: "answers (client rs) v (XADD ?k ?fs) d (StrReply i) ((v d)(?k \<mapsto> RStream (ms @ [(i, fs')])))"
    using laws(6) assms(2) unfolding stream_laws_def by meson
  from do_answers [OF laws(1) a] obtain d' where
    r: "rDo (client rs) (XADD ?k ?fs) d = (Inr (StrReply i), d')" "v d' = (v d)(?k \<mapsto> RStream (ms @ [(i, fs')]))" by auto
  have d': "snd (redis_PublishEvent rs now e d) = d'"
    using r(1) by (simp add: redis_PublishEvent_def filled_def Let_def split: if_splits)
  have "distinct (''0'' # map fst ms)" using assms(2) by (cases "v d ?k" rule: as_stream.cases) (auto split: if_splits)
  then have "as_stream (v d' ?k) = Some (ms @ [(i, fs')])" using i(1) by (auto simp: r(2) image_iff)
  moreover have "seEvent (parseXMessage (i, fs')) = filled now e"
    using parse_stored [of fs' "filled now e"] i(2) assms(3,4) by (simp add: filled_def split: if_splits)
  ultimately show ?thesis unfolding d' by blast
qed

lemma publish_all_stored:
  assumes "redis_ok (client rs) v" and "as_stream (v d (redis_key rs [streamKey])) = Some ms"
    and "\<forall>(now, e) \<in> set evs. - (2 ^ 63) \<le> eTimestamp (filled now e) \<and> eTimestamp (filled now e) < 2 ^ 63"
  shows "\<exists>msgs. as_stream (v (redis_publish_all rs evs d) (redis_key rs [streamKey])) = Some (ms @ msgs) \<and>
    map seEvent (parseXMessages msgs) = map (\<lambda>(now, e). filled now e) evs"
  using assms(2,3)
proof (induction evs arbitrary: d ms)
  case Nil
  then show ?case by (simp add: redis_publish_all_def parseXMessages_def)
next
  case (Cons x evs)
  obtain now e where x: "x = (now, e)" by (cases x)
  let ?d = "snd (redis_PublishEvent rs now e d)"
  obtain msg where m: "as_stream (v ?d (redis_key rs [streamKey])) = Some (ms @ [msg])"
    "seEvent (parseXMessage msg) = filled now e"
    using publish_stored [OF assms(1) Cons.prems(1), of now e] Cons.prems(2) x by auto
  obtain msgs where "as_stream (v (redis_publish_all rs evs ?d) (redis_key rs [streamKey])) = Some ((ms @ [msg]) @ msgs)"
    "map seEvent (parseXMessages msgs) = map (\<lambda>(now, e). filled now e) evs"
    using Cons.IH [OF m(1)] Cons.prems(2) by auto
  then show ?case
    using m(2) by (intro exI [of _ "msg # msgs"]) (simp add: x redis_publish_all_def parseXMessages_def)
qed

lemma read_from:
  assumes "redis_ok (client rs) v" and "as_stream (v d (redis_key rs [streamKey])) = Some ms" and "0 < n"
    and "i = ''0'' \<and> rest = ms \<or> (\<exists>before f. ms = before @ (i, f) # rest)"
  shows "fst (redis_ReadEvents rs i n d) = Inr (take (nat n) (parseXMessages rest))"
proof -
  note laws = redis_okD [OF assms(1)]
  let ?k = "redis_key rs [streamKey]"
  have a: "answers (client rs) v (XREAD ?k i n) d
      (if rest = [] then NilReply else StreamsReply [(?k, take (nat n) rest)]) (v d)"
  proof -
    have "\<forall>i n rest. 0 < n \<and> (i = ''0'' \<and> rest = ms \<or> (\<exists>before f. ms = before @ (i, f) # rest)) \<longrightarrow>
        answers (client rs) v (XREAD ?k i n) d
          (if rest = [] then NilReply else StreamsReply [(?k, take (nat n) rest)]) (v d)"
      using laws(6) [unfolded stream_laws_def, rule_format, OF assms(2)] by (rule conjunct2)
    with assms(3,4) show ?thesis by blast
  qed
  show ?thesis
  proof (cases "rest = []")
    case True
    from do_answers [OF laws(1) a] obtain d' where "rDo (client rs) (XREAD ?k i n) d = (Inl redis_Nil, d')"
      using True by simp blast
    then show ?thesis using True by (simp add: redis_ReadEvents_def stream_result_def parseXMessages_def)
  next
    case False
    from do_answers [OF laws(1) a] obtain d' where
      "rDo (client rs) (XREAD ?k i n) d = (Inr (StreamsReply [(?k, take (nat n) rest)]), d')"
      using False by simp blast
    then show ?thesis by (simp add: redis_ReadEvents_def stream_result_def parseXMessages_def take_map)
  qed
qed

text \<open>
  C33. What is published is what is read: after publishing any events on an empty stream, reading from
  the start or after any entry returns the next events in order, up to the count, each with the
  type, agent, task and payload it was published with and its time (filled in if it was zero),
  although they are stored as unordered text fields.
\<close>

theorem redis_events_roundtrip:
  assumes "redis_ok (client rs) v" and "v d (redis_key rs [streamKey]) = None"
    and "\<forall>(now, e) \<in> set evs. - (2 ^ 63) \<le> eTimestamp (filled now e) \<and> eTimestamp (filled now e) < 2 ^ 63"
    and "d' = redis_publish_all rs evs d"
  shows "\<exists>log. map seEvent log = map (\<lambda>(now, e). filled now e) evs \<and>
    (\<forall>n > 0. fst (redis_ReadEvents rs ''0'' n d') = Inr (take (nat n) log) \<and>
       (\<forall>i < length log. fst (redis_ReadEvents rs (seID (log ! i)) n d') = Inr (take (nat n) (drop (Suc i) log))))"
proof -
  have "as_stream (v d (redis_key rs [streamKey])) = Some []" using assms(2) by simp
  from publish_all_stored [OF assms(1) this assms(3)] obtain msgs where
    s: "as_stream (v d' (redis_key rs [streamKey])) = Some msgs"
    and e: "map seEvent (parseXMessages msgs) = map (\<lambda>(now, e). filled now e) evs" unfolding assms(4) by auto
  have "fst (redis_ReadEvents rs (seID (parseXMessages msgs ! i)) n d') =
      Inr (take (nat n) (drop (Suc i) (parseXMessages msgs)))" if "0 < n" "i < length msgs" for n i
  proof -
    have "msgs = take i msgs @ (fst (msgs ! i), snd (msgs ! i)) # drop (Suc i) msgs"
      using id_take_nth_drop [OF that(2)] by simp
    then have "fst (redis_ReadEvents rs (fst (msgs ! i)) n d') = Inr (take (nat n) (parseXMessages (drop (Suc i) msgs)))"
      using read_from [OF assms(1) s that(1)] by blast
    then show ?thesis using that(2) by (simp add: parseXMessages_def parseXMessage_def drop_map Let_def)
  qed
  then show ?thesis
    using e read_from [OF assms(1) s] by (intro exI [of _ "parseXMessages msgs"]) (simp add: parseXMessages_def)
qed

subsection \<open>A task enqueued twice\<close>

text \<open>
  Where the two stores differ: a task enqueued while it waits is queued a second time by \<open>MockStore\<close>,
  but on Redis the new priority replaces the old one and the queue does not grow.
\<close>

theorem redis_enqueue_replaces:
  assumes "redis_ok (client rs) v" and "as_zset (v d (redis_key rs [queueKey])) = Some z" and "z t \<noteq> None"
    and "d' = snd (redis_EnqueueTask rs t p d)"
  shows "as_zset (v d' (redis_key rs [queueKey])) = Some (z(t \<mapsto> p)) \<and>
    fst (redis_QueueLength rs d') = fst (redis_QueueLength rs d)"
proof -
  note laws = redis_okD [OF assms(1)]
  let ?k = "redis_key rs [queueKey]"
  obtain n where "answers (client rs) v (ZADD ?k p t) d (IntReply n) ((v d)(?k := put_zset (z(t \<mapsto> p))))"
    using zset_answers(1) [OF laws(5) assms(2)] by blast
  from pipe_answers [OF laws(1) this] obtain d1 where
    p1: "\<And>tx cs. rPipe (client rs) tx (ZADD ?k p t # cs) d =
      (fst (rPipe (client rs) tx cs d1), Inr (IntReply n) # fst (snd (rPipe (client rs) tx cs d1)),
       snd (snd (rPipe (client rs) tx cs d1)))"
    and v1: "v d1 = (v d)(?k := put_zset (z(t \<mapsto> p)))" by auto
  have d': "d' = d1"
    unfolding assms(4) redis_EnqueueTask_def redis_EnqueueTaskWithMeta_def
    by (simp add: p1 pipe_Nil [OF laws(1)] TaskMeta_IsZero_def zeroTaskMeta_def)
  have z1: "as_zset (v d' ?k) = Some (z(t \<mapsto> p))" using as_zset_finite [OF assms(2)] by (simp add: d' v1)
  have len: "fst (redis_QueueLength rs x) = Inr (int (card (dom w)))" if "as_zset (v x ?k) = Some w" for x w
  proof -
    from do_answers [OF laws(1) zset_answers(4) [OF laws(5) that]] obtain x' where
      "rDo (client rs) (ZCARD ?k) x = (Inr (IntReply (int (card (dom w)))), x')" by auto
    then show ?thesis by (simp add: redis_QueueLength_def)
  qed
  have "dom (z(t \<mapsto> p)) = dom z" using assms(3) by auto
  then show ?thesis using z1 len [OF z1] len [OF assms(2)] by simp
qed

subsection \<open>A server that obeys the laws\<close>

text \<open>A small reference server: the database is its own view. It shows that the laws can hold.\<close>

definition hash_at :: "rdb \<Rightarrow> string \<Rightarrow> (string \<rightharpoonup> string)" where
  "hash_at db k = (case db k of Some (RHash h) \<Rightarrow> h | _ \<Rightarrow> Map.empty)"

definition set_at :: "rdb \<Rightarrow> string \<Rightarrow> string set" where
  "set_at db k = (case db k of Some (RSet A) \<Rightarrow> A | _ \<Rightarrow> {})"

definition zset_at :: "rdb \<Rightarrow> string \<Rightarrow> (string \<rightharpoonup> rat)" where
  "zset_at db k = (case db k of Some (RZset z) \<Rightarrow> z | _ \<Rightarrow> Map.empty)"

definition stream_at :: "rdb \<Rightarrow> string \<Rightarrow> xmessage list" where
  "stream_at db k = (case db k of Some (RStream ms) \<Rightarrow> ms | _ \<Rightarrow> [])"

text \<open>An identifier longer than all others.\<close>

definition fresh_id :: "xmessage list \<Rightarrow> string" where
  "fresh_id ms = ''1'' @ concat (map fst ms)"

definition least_member :: "(string \<rightharpoonup> rat) \<Rightarrow> string" where
  "least_member z = hd (sort_key (\<lambda>x. the (z x)) (sorted_list_of_set (dom z)))"

fun ref_call :: "rcmd \<Rightarrow> rdb \<Rightarrow> (goerror + reply) \<times> rdb" where
  "ref_call (HSET k fs) db = (Inr (IntReply (int (length fs))), db(k \<mapsto> RHash (hash_at db k ++ map_of (rev fs))))"
| "ref_call (HGET k f) db = (Inr (case hash_at db k f of None \<Rightarrow> NilReply | Some s \<Rightarrow> StrReply s), db)"
| "ref_call (HGETALL k) db =
     (Inr (HashReply (map (\<lambda>f. (f, the (hash_at db k f))) (sorted_list_of_set (dom (hash_at db k))))), db)"
| "ref_call (EXISTS k) db = (Inr (IntReply (if db k = None then 0 else 1)), db)"
| "ref_call (DEL k) db = (Inr (IntReply (if db k = None then 0 else 1)), db(k := None))"
| "ref_call (SADD k x) db = (Inr (IntReply 1), db(k := put_set (insert x (set_at db k))))"
| "ref_call (SREM k x) db = (Inr (IntReply 1), db(k := put_set (set_at db k - {x})))"
| "ref_call (SMEMBERS k) db = (Inr (StrsReply (sorted_list_of_set (set_at db k))), db)"
| "ref_call (ZADD k p x) db = (Inr (IntReply 1), db(k := put_zset ((zset_at db k)(x \<mapsto> p))))"
| "ref_call (ZPOPMIN k n) db =
     (let z = zset_at db k; x = least_member z
      in if dom z = {} then (Inr (ScoredReply []), db)
         else (Inr (ScoredReply [(x, the (z x))]), db(k := put_zset (z(x := None)))))"
| "ref_call (ZCARD k) db = (Inr (IntReply (int (card (dom (zset_at db k))))), db)"
| "ref_call (XADD k fs) db =
     (let ms = stream_at db k; i = fresh_id ms in (Inr (StrReply i), db(k \<mapsto> RStream (ms @ [(i, fs)]))))"
| "ref_call (XREAD k i n) db =
     (let ms = stream_at db k;
          rest = (if i = ''0'' then ms else tl (dropWhile (\<lambda>m. fst m \<noteq> i) ms))
      in (Inr (if rest = [] then NilReply else StreamsReply [(k, take (nat n) rest)]), db))"
| "ref_call PING db = (Inr (StrReply ''PONG''), db)"
| "ref_call _ db = (Inr (IntReply 0), db)"

definition ref_do :: "rcmd \<Rightarrow> rdb \<Rightarrow> (goerror + reply) \<times> rdb" where
  "ref_do c db =
     (if fst (ref_call c db) = Inr NilReply then (Inl redis_Nil, snd (ref_call c db)) else ref_call c db)"

fun ref_pipe :: "bool \<Rightarrow> rcmd list \<Rightarrow> rdb \<Rightarrow> goerror option \<times> (goerror + reply) list \<times> rdb" where
  "ref_pipe tx [] db = (None, [], db)"
| "ref_pipe tx (c # cs) db =
     (let (r, d1) = ref_do c db; (e, rs, d2) = ref_pipe tx cs d1
      in (case r of Inl err \<Rightarrow> Some err | Inr _ \<Rightarrow> e, r # rs, d2))"

definition ref_redis :: "rdb Redis" where
  "ref_redis = \<lparr>rDo = ref_do, rPipe = ref_pipe, rCall = ref_call, rScript = (\<lambda>f. f), rClose = Pair None\<rparr>"

text \<open>Floats printed as fractions.\<close>

definition ref_format :: "rat \<Rightarrow> string" where
  "ref_format p = (let (a, b) = quotient_of p in FormatInt a @ CHR ''/'' # dec (nat b))"

definition ref_parse :: "string \<Rightarrow> goerror + rat" where
  "ref_parse s =
     (if s = ''0'' then Inr 0
      else
        let num = takeWhile (\<lambda>c. c \<noteq> CHR ''/'') s;
            den = tl (dropWhile (\<lambda>c. c \<noteq> CHR ''/'') s);
            a = (if HasPrefix num ''-'' then - int (parse_digits (tl num)) else int (parse_digits num))
        in Inr (Fract a (int (parse_digits den))))"

definition ref_store :: "rdb RedisStore" where
  "ref_store = \<lparr>client = ref_redis, keyPrefix = ''orki:'', formatFloat = ref_format, parseFloat = ref_parse,
     errText = (\<lambda>_. '''')\<rparr>"

lemma ref_views:
  "as_hash (db k) = Some h \<Longrightarrow> hash_at db k = h" "as_set (db k) = Some A \<Longrightarrow> set_at db k = A"
  "as_zset (db k) = Some z \<Longrightarrow> zset_at db k = z" "as_stream (db k) = Some ms \<Longrightarrow> stream_at db k = ms"
  by (auto simp: hash_at_def set_at_def zset_at_def stream_at_def split: option.splits rval.splits if_splits)

lemma ref_calls: "rCall ref_redis = ref_call" "rDo ref_redis = ref_do" "rPipe ref_redis = ref_pipe"
  "rScript ref_redis f = f"
  by (simp_all add: ref_redis_def)

lemma ref_client_laws: "client_laws ref_redis"
  by (simp add: client_laws_def ref_calls ref_do_def)

lemma ref_key_laws: "key_laws ref_redis id"
  by (simp add: key_laws_def answers_def ref_calls)

lemma ref_hash_laws: "hash_laws ref_redis id"
proof -
  have "map_of (map (\<lambda>f. (f, the (h f))) (sorted_list_of_set (dom h))) = h" if "finite (dom h)" for h :: "string \<rightharpoonup> string"
  proof
    fix x
    show "map_of (map (\<lambda>f. (f, the (h f))) (sorted_list_of_set (dom h))) x = h x"
      using that by (cases "h x") (auto simp: map_of_map_restrict restrict_map_def)
  qed
  then show ?thesis
    by (auto simp: hash_laws_def answers_def ref_calls ref_views dest: as_hash_finite)
qed

lemma ref_set_laws: "set_laws ref_redis id"
  by (auto simp: set_laws_def answers_def ref_calls ref_views dest: as_set_finite)

lemma least_member_least:
  assumes "finite (dom z)" and "z \<noteq> Map.empty"
  shows "\<exists>p. z (least_member z) = Some p \<and> (\<forall>q \<in> ran z. p \<le> q)"
proof -
  let ?l = "sort_key (\<lambda>x. the (z x)) (sorted_list_of_set (dom z))"
  have set: "set ?l = dom z" using assms(1) by simp
  then obtain x xs where l: "?l = x # xs" using assms(2) by (cases ?l) auto
  have "sorted (map (\<lambda>x. the (z x)) ?l)" by simp
  then have le: "the (z x) \<le> the (z y)" if "y \<in> dom z" for y using that set l by auto
  have "x \<in> dom z" using set l by auto
  then obtain p where p: "z x = Some p" by auto
  have "p \<le> q" if q: "q \<in> ran z" for q
  proof -
    obtain y where y: "z y = Some q" using q unfolding ran_def by blast
    then show ?thesis using le [of y] p by auto
  qed
  then show ?thesis using p by (simp add: least_member_def l)
qed

lemma ref_zset_laws: "zset_laws ref_redis id"
proof -
  have "\<exists>x p. z x = Some p \<and> (\<forall>q \<in> ran z. p \<le> q) \<and>
      answers ref_redis id (ZPOPMIN k 1) db (ScoredReply [(x, p)]) ((id db)(k := put_zset (z(x := None))))"
    if a: "as_zset (db k) = Some z" and ne: "z \<noteq> Map.empty" for db k z
  proof -
    have "finite (dom z)" using as_zset_finite a by blast
    then obtain p where "z (least_member z) = Some p" "\<forall>q \<in> ran z. p \<le> q"
      using least_member_least ne by blast
    then show ?thesis
      using ne by (intro exI [of _ "least_member z"] exI [of _ p])
        (auto simp: answers_def ref_calls ref_views(3) [of db k, OF a] Let_def)
  qed
  then show ?thesis
    by (auto simp: zset_laws_def answers_def ref_calls ref_views Let_def)
qed

lemma fresh_id_fresh: "fresh_id ms \<notin> insert ''0'' (fst ` set ms)"
proof
  assume "fresh_id ms \<in> insert ''0'' (fst ` set ms)"
  then obtain m where m: "m \<in> set ms" "fst m = fresh_id ms" by (auto simp: fresh_id_def)
  have "length (fst m) \<le> length (concat (map fst ms))" using m(1) by (induction ms) auto
  then show False using m(2) by (simp add: fresh_id_def)
qed

lemma as_stream_distinct: "as_stream x = Some ms \<Longrightarrow> distinct (''0'' # map fst ms)"
  by (cases x rule: as_stream.cases) (auto split: if_splits)

lemma after_entry:
  assumes "distinct (''0'' # map fst ms)" and "i = ''0'' \<and> rest = ms \<or> (\<exists>before f. ms = before @ (i, f) # rest)"
  shows "(if i = ''0'' then ms else tl (dropWhile (\<lambda>m. fst m \<noteq> i) ms)) = rest"
  using assms(2)
proof (elim disjE exE)
  fix before f
  assume ms: "ms = before @ (i, f) # rest"
  then have "i \<noteq> ''0''" and "\<forall>x \<in> set before. fst x \<noteq> i" using assms(1) by auto
  moreover from this have "dropWhile (\<lambda>m. fst m \<noteq> i) ms = (i, f) # rest"
    unfolding ms by (subst dropWhile_append2) auto
  ultimately show ?thesis by simp
qed simp

lemma ref_stream_laws: "stream_laws ref_redis id"
  unfolding stream_laws_def
proof (intro allI impI conjI)
  fix k ms fs and db :: rdb assume s: "as_stream (id db k) = Some ms"
  show "\<exists>i fs'. i \<notin> insert ''0'' (fst ` set ms) \<and> map_of fs' = map_of fs \<and>
      answers ref_redis id (XADD k fs) db (StrReply i) ((id db)(k \<mapsto> RStream (ms @ [(i, fs')])))"
    using fresh_id_fresh [of ms] ref_views(4) [of db k ms] s
    by (intro exI [of _ "fresh_id ms"] exI [of _ fs])
      (simp add: answers_def ref_calls Let_def)
next
  fix k ms i rest and n :: int and db :: rdb assume s: "as_stream (id db k) = Some ms"
    and r: "0 < n \<and> (i = ''0'' \<and> rest = ms \<or> (\<exists>before f. ms = before @ (i, f) # rest))"
  have at: "stream_at db k = ms" using ref_views(4) [of db k ms] s by simp
  show "answers ref_redis id (XREAD k i n) db
      (if rest = [] then NilReply else StreamsReply [(k, take (nat n) rest)]) (id db)"
    using after_entry [OF as_stream_distinct [OF s] r [THEN conjunct2]]
    by (simp add: answers_def ref_calls Let_def at)
qed

lemma ref_redis_ok: "redis_ok (client ref_store) id"
  by (simp add: redis_ok_def ref_store_def ref_client_laws ref_key_laws ref_hash_laws ref_set_laws
      ref_zset_laws ref_stream_laws)

lemma ref_float_ok: "float_ok ref_store"
proof -
  have "ref_format p \<noteq> '''' \<and> ref_parse (ref_format p) = Inr p" for p
  proof -
    obtain a b where q: "quotient_of p = (a, b)" by fastforce
    have no: "CHR ''/'' \<notin> set (FormatInt a)"
      using dec_digits [of "nat a"] dec_digits [of "nat (- a)"]
      by (auto simp: FormatInt_def list_all_iff is_digit_def)
    have b: "0 < b" and p: "p = Fract a b"
      using quotient_of_denom_pos [OF q] quotient_of_div [OF q] by (simp_all add: Fract_of_int_quotient)
    have a: "(if HasPrefix (FormatInt a) ''-'' then - int (parse_digits (tl (FormatInt a)))
        else int (parse_digits (FormatInt a))) = a"
    proof (cases "a < 0")
      case True
      then have "HasPrefix (FormatInt a) ''-''" by (simp add: FormatInt_def HasPrefix_def)
      then show ?thesis using True by (simp add: FormatInt_def)
    qed (simp add: FormatInt_def)
    have f: "ref_format p = FormatInt a @ CHR ''/'' # dec (nat b)" by (simp add: ref_format_def q)
    have "ref_format p \<noteq> ''0''" using no by (auto simp: f append_eq_Cons_conv)
    then have "ref_parse (ref_format p) = Inr (Fract a (int (parse_digits (dec (nat b)))))"
      unfolding ref_parse_def using a by (simp add: f takeWhile_sep [OF no] dropWhile_sep [OF no] Let_def)
    also have "\<dots> = Inr p" using b p by simp
    finally show ?thesis by (simp add: f)
  qed
  then show ?thesis by (simp add: float_ok_def ref_store_def ref_parse_def)
qed

definition demo_ops :: "store_op list" where
  "demo_ops = [OpSetState ''a1'' ''idle'', OpEnqueue ''t1'' 2 (zeroTaskMeta\<lparr>mDescription := ''fix''\<rparr>),
     OpEnqueue ''t2'' 1 zeroTaskMeta, OpDequeue, OpCas ''a1'' ''idle'' ''assigned'', OpCas ''a1'' ''idle'' ''x'',
     OpGetFields ''a2'', OpMeta ''t1'', OpLength]"


definition demo_event :: Event where
  "demo_event = \<lparr>eType = ''agent_registered'', eAgentID = ''a1'', eTaskID = '''', eTimestamp = 0, ePayload = ''x''\<rparr>"

lemma redis_events_roundtrip_witness:
  "\<exists>log. map seEvent log = [demo_event\<lparr>eTimestamp := 5\<rparr>, demo_event\<lparr>eTimestamp := 7\<rparr>] \<and>
     fst (redis_ReadEvents ref_store ''0'' 1
       (redis_publish_all ref_store [(0, demo_event\<lparr>eTimestamp := 5\<rparr>), (0, demo_event\<lparr>eTimestamp := 7\<rparr>)] Map.empty)) =
       Inr (take 1 log)"
  using redis_events_roundtrip [OF ref_redis_ok, of Map.empty
      "[(0, demo_event\<lparr>eTimestamp := 5\<rparr>), (0, demo_event\<lparr>eTimestamp := 7\<rparr>)]", OF _ _ refl]
  by (simp add: filled_def) (metis zero_less_one nat_1 take_0 One_nat_def)

end
