(* ===== verification/Agent_Machine.thy ===== *)
theory Agent_Machine
  imports State_Store
begin

section \<open>internal/agent: the agent state machine\<close>

text \<open>
  Agent states and events are Go strings with named constants, so they are strings here too: the
  store can hold any string, and \<open>ParseAgentState\<close> is the code's check. \<open>ValidTransition\<close> reads the
  transition table, \<open>ApplyEvent\<close> is the read / validate / compare-and-set of \<open>Machine.ApplyEvent\<close>
  over the two store operations it calls (\<open>GetAgentState\<close>, \<open>CompareAndSetAgentState\<close>), which the Go
  code reaches through the \<open>StateStore\<close> interface and the model takes as arguments. The locale
  \<open>agent_cas_store\<close> states what \<open>ApplyEvent\<close> needs of them; \<open>MockStore\<close> interprets it.
\<close>

subsection \<open>States, events, transitions\<close>

definition StateIdle :: string where "StateIdle = AgentStateIdle"
definition StateAssigned :: string where "StateAssigned = AgentStateAssigned"
definition StateWorking :: string where "StateWorking = AgentStateWorking"
definition StateReporting :: string where "StateReporting = AgentStateReporting"

definition EventTaskAssigned :: string where "EventTaskAssigned = ''task_assigned''"
definition EventWorkStarted :: string where "EventWorkStarted = ''work_started''"
definition EventOutputReady :: string where "EventOutputReady = ''output_ready''"
definition EventOutputDelivered :: string where "EventOutputDelivered = ''output_delivered''"
definition EventAgentFailed :: string where "EventAgentFailed = ''agent_failed''"

lemmas state_defs = StateIdle_def StateAssigned_def StateWorking_def StateReporting_def
  agent_state_defs
lemmas event_defs = EventTaskAssigned_def EventWorkStarted_def EventOutputReady_def
  EventOutputDelivered_def EventAgentFailed_def

definition ParseAgentState :: "string \<Rightarrow> goerror + string" where
  "ParseAgentState s =
     (if s = StateIdle \<or> s = StateAssigned \<or> s = StateWorking \<or> s = StateReporting
      then Inr s else Inl (ErrorNew ''unknown agent state: %q'' [s]))"

definition transitionTable :: "string \<rightharpoonup> (string \<rightharpoonup> string)" where
  "transitionTable =
     [StateIdle \<mapsto> [EventTaskAssigned \<mapsto> StateAssigned],
      StateAssigned \<mapsto> [EventWorkStarted \<mapsto> StateWorking],
      StateWorking \<mapsto> [EventOutputReady \<mapsto> StateReporting],
      StateReporting \<mapsto> [EventOutputDelivered \<mapsto> StateIdle]]"

definition ValidTransition :: "string \<Rightarrow> string \<Rightarrow> goerror + string" where
  "ValidTransition from_state event =
     (if event = EventAgentFailed then Inr StateIdle
      else (case transitionTable from_state of
              None \<Rightarrow> Inl (InvalidTransitionError from_state event)
            | Some targets \<Rightarrow>
               (case targets event of
                  None \<Rightarrow> Inl (InvalidTransitionError from_state event)
                | Some to_state \<Rightarrow> Inr to_state)))"

definition agent_states :: "string set" where
  "agent_states = {StateIdle, StateAssigned, StateWorking, StateReporting}"

lemma ParseAgentState_ok: "ParseAgentState s = Inr s' \<longleftrightarrow> s' = s \<and> s \<in> agent_states"
  by (auto simp: ParseAgentState_def agent_states_def)

lemma ValidTransition_target: "ValidTransition s e = Inr t \<Longrightarrow> t \<in> agent_states"
  by (auto simp: ValidTransition_def transitionTable_def agent_states_def
      split: if_splits option.splits)

lemma ValidTransition_failed [simp]: "ValidTransition s EventAgentFailed = Inr StateIdle"
  by (simp add: ValidTransition_def)

text \<open>Every successful transition is one of the cycle's four edges or a failure's reset.\<close>

lemma ValidTransition_cases:
  assumes "ValidTransition s e = Inr t"
  shows "e = EventAgentFailed \<and> t = StateIdle \<or>
    (s, e, t) \<in> {(StateIdle, EventTaskAssigned, StateAssigned),
                  (StateAssigned, EventWorkStarted, StateWorking),
                  (StateWorking, EventOutputReady, StateReporting),
                  (StateReporting, EventOutputDelivered, StateIdle)}"
  using assms
  by (auto simp: ValidTransition_def transitionTable_def split: if_splits option.splits)

lemma ValidTransition_edges [simp]:
  "ValidTransition StateIdle EventTaskAssigned = Inr StateAssigned"
  "ValidTransition StateAssigned EventWorkStarted = Inr StateWorking"
  "ValidTransition StateWorking EventOutputReady = Inr StateReporting"
  "ValidTransition StateReporting EventOutputDelivered = Inr StateIdle"
  by (simp_all add: ValidTransition_def transitionTable_def state_defs event_defs)

lemma ValidTransition_not_idle:
  "ValidTransition s e = Inr t \<Longrightarrow> e \<noteq> EventAgentFailed \<Longrightarrow> s \<noteq> t"
  by (drule ValidTransition_cases) (auto simp: state_defs)

lemma ValidTransition_deterministic_source:
  assumes "ValidTransition s e = Inr t" and "ValidTransition s' e = Inr t'"
    and "e \<noteq> EventAgentFailed"
  shows "s = s' \<and> t = t'"
  using assms by (auto dest!: ValidTransition_cases simp: event_defs)

subsection \<open>Machine.ApplyEvent\<close>

record AgentSnapshot =
  snAgentID :: string
  snPreviousState :: string
  snState :: string
  snEvent :: string

definition ApplyEvent ::
  "('s \<Rightarrow> string \<Rightarrow> goerror + string) \<Rightarrow>
   (string \<Rightarrow> string \<Rightarrow> string \<Rightarrow> 's \<Rightarrow> goerror + 's) \<Rightarrow>
   's \<Rightarrow> string \<Rightarrow> string \<Rightarrow> goerror + (AgentSnapshot \<times> 's)" where
  "ApplyEvent get_state cas s agentID event =
     (case get_state s agentID of
        Inl err \<Rightarrow> Inl err
      | Inr rawState \<Rightarrow>
        (case ParseAgentState rawState of
           Inl err \<Rightarrow> Inl (Errorf ''agent %s has unrecognised state %q'' [agentID, rawState] err)
         | Inr current \<Rightarrow>
           (case ValidTransition current event of
              Inl err \<Rightarrow> Inl err
            | Inr next_state \<Rightarrow>
              (case cas agentID rawState next_state s of
                 Inl err \<Rightarrow> Inl err
               | Inr s' \<Rightarrow>
                   Inr (\<lparr>snAgentID = agentID, snPreviousState = current, snState = next_state,
                         snEvent = event\<rparr>, s')))))"

text \<open>
  The part of \<open>StateStore\<close> the machine uses. \<open>ok\<close> says that the store is healthy: then a
  compare-and-set with the state just read goes through.
\<close>

locale agent_cas_store =
  fixes get_state :: "'s \<Rightarrow> string \<Rightarrow> goerror + string"
    and cas :: "string \<Rightarrow> string \<Rightarrow> string \<Rightarrow> 's \<Rightarrow> goerror + 's"
    and ok :: "'s \<Rightarrow> bool"
  assumes cas_sets: "cas a e n s = Inr s' \<Longrightarrow> get_state s' a = Inr n"
    and cas_expected: "cas a e n s = Inr s' \<Longrightarrow> get_state s a = Inr e"
    and cas_frame: "cas a e n s = Inr s' \<Longrightarrow> b \<noteq> a \<Longrightarrow> get_state s' b = get_state s b"
    and cas_enabled: "ok s \<Longrightarrow> get_state s a = Inr e \<Longrightarrow> \<exists>s'. cas a e n s = Inr s' \<and> ok s'"
begin

lemma apply_ok:
  assumes "ApplyEvent get_state cas s a ev = Inr (snap, s')"
  shows "get_state s a = Inr (snPreviousState snap)"
    and "get_state s' a = Inr (snState snap)"
    and "ValidTransition (snPreviousState snap) ev = Inr (snState snap)"
    and "snPreviousState snap \<in> agent_states" and "snState snap \<in> agent_states"
    and "snAgentID snap = a" and "snEvent snap = ev"
  using assms cas_sets cas_expected
  by (auto simp: ApplyEvent_def ParseAgentState_ok ValidTransition_target split: sum.splits)

lemma apply_frame:
  "ApplyEvent get_state cas s a ev = Inr (snap, s') \<Longrightarrow> b \<noteq> a \<Longrightarrow> get_state s' b = get_state s b"
  using cas_frame by (auto simp: ApplyEvent_def split: sum.splits)

lemma apply_succeeds:
  assumes "ok s" and "get_state s a = Inr cur" and "cur \<in> agent_states"
    and "ValidTransition cur ev = Inr t"
  obtains s' where "ApplyEvent get_state cas s a ev =
      Inr (\<lparr>snAgentID = a, snPreviousState = cur, snState = t, snEvent = ev\<rparr>, s')" and "ok s'"
proof -
  obtain s' where "cas a cur t s = Inr s'" "ok s'"
    using cas_enabled [OF assms(1,2)] by blast
  with assms that show ?thesis
    by (simp add: ApplyEvent_def ParseAgentState_def agent_states_def)
qed

lemma apply_invalid:
  assumes "get_state s a = Inr cur" and "cur \<in> agent_states"
    and "ValidTransition cur ev = Inl e"
  shows "ApplyEvent get_state cas s a ev = Inl e"
  using assms by (simp add: ApplyEvent_def ParseAgentState_def agent_states_def)

lemma apply_unknown_agent:
  "get_state s a = Inl e \<Longrightarrow> ApplyEvent get_state cas s a ev = Inl e"
  by (simp add: ApplyEvent_def)

end

definition store_ok :: "MockStore \<Rightarrow> bool" where
  "store_ok m \<longleftrightarrow> compareAndSetErr m = None"

interpretation mock_machine: agent_cas_store GetAgentState CompareAndSetAgentState store_ok
  by unfold_locales
    (auto simp: GetAgentState_def CompareAndSetAgentState_def store_ok_def
      split: option.splits if_splits)

text \<open>The machine on the orchestrator's store.\<close>

definition Machine_ApplyEvent ::
  "MockStore \<Rightarrow> string \<Rightarrow> string \<Rightarrow> goerror + (AgentSnapshot \<times> MockStore)" where
  "Machine_ApplyEvent = ApplyEvent GetAgentState CompareAndSetAgentState"

text \<open>What a transition does to the record: only the state field of one agent changes.\<close>

lemma Machine_ApplyEvent_Inr:
  "Machine_ApplyEvent m a ev = Inr (snap, m') \<longleftrightarrow>
     compareAndSetErr m = None \<and>
     (\<exists>r t. agents m a = Some r \<and> fState r \<in> agent_states \<and>
        ValidTransition (fState r) ev = Inr t \<and>
        m' = m\<lparr>agents := (agents m)(a \<mapsto> r\<lparr>fState := t\<rparr>)\<rparr> \<and>
        snap = \<lparr>snAgentID = a, snPreviousState = fState r, snState = t, snEvent = ev\<rparr>)"
  by (auto simp: Machine_ApplyEvent_def ApplyEvent_def GetAgentState_def
      CompareAndSetAgentState_def ParseAgentState_ok ParseAgentState_def agent_states_def
      split: option.splits sum.splits if_splits)

lemma Machine_ApplyEvent_inv:
  "store_inv m \<Longrightarrow> Machine_ApplyEvent m a ev = Inr (snap, m') \<Longrightarrow> store_inv m'"
  by (auto simp: Machine_ApplyEvent_Inr store_inv_def)

subsection \<open>Runs of the machine\<close>

text \<open>
  Events applied one after the other, an event that fails leaving the store as it was (the callers
  go on after an error).
\<close>

fun apply_events :: "MockStore \<Rightarrow> (string \<times> string) list \<Rightarrow> MockStore" where
  "apply_events m [] = m"
| "apply_events m ((a, ev) # evs) =
     (case Machine_ApplyEvent m a ev of
        Inl _ \<Rightarrow> apply_events m evs
      | Inr (_, m') \<Rightarrow> apply_events m' evs)"

definition states_ok :: "MockStore \<Rightarrow> bool" where
  "states_ok m \<longleftrightarrow> (\<forall>r \<in> ran (agents m). fState r \<in> agent_states)"

lemma states_okD: "states_ok m \<Longrightarrow> agents m a = Some r \<Longrightarrow> fState r \<in> agent_states"
  by (auto simp: states_ok_def ran_def)

lemma states_ok_update:
  "states_ok m \<Longrightarrow> fState r \<in> agent_states \<Longrightarrow> states_ok (m\<lparr>agents := (agents m)(a \<mapsto> r)\<rparr>)"
  by (auto simp: states_ok_def ran_def split: if_splits)

lemma Machine_ApplyEvent_states_ok:
  assumes "states_ok m" and "Machine_ApplyEvent m a ev = Inr (snap, m')"
  shows "states_ok m'"
  using assms by (auto simp: Machine_ApplyEvent_Inr intro!: states_ok_update
      dest: ValidTransition_target)

lemma apply_events_states_ok: "states_ok m \<Longrightarrow> states_ok (apply_events m evs)"
proof (induction m evs rule: apply_events.induct)
  case (2 m a ev evs)
  then show ?case
    by (auto split: sum.splits dest: Machine_ApplyEvent_states_ok)
qed simp

text \<open>
  C16. An agent's life is the cycle idle, assigned, working, reporting, idle: on a healthy store an
  agent in a state of the cycle accepts a lifecycle event exactly when the table has the edge from
  its state, the failure event from every state, and an accepted event changes that agent's state
  to the table's target and nothing else (neither its other fields nor another agent nor any other
  part of the store); every other event is refused with the invalid-transition error that names
  the state and the event, and the store is unchanged.
\<close>

theorem ApplyEvent_lifecycle:
  assumes "compareAndSetErr m = None" and "agents m a = Some r" and "fState r \<in> agent_states"
  shows "Machine_ApplyEvent m a ev =
    (if ev = EventAgentFailed
        \<or> (fState r, ev) \<in> {(StateIdle, EventTaskAssigned), (StateAssigned, EventWorkStarted),
                             (StateWorking, EventOutputReady),
                             (StateReporting, EventOutputDelivered)}
     then let t = (if ev = EventAgentFailed \<or> fState r = StateReporting then StateIdle
                   else if fState r = StateIdle then StateAssigned
                   else if fState r = StateAssigned then StateWorking else StateReporting)
          in Inr (\<lparr>snAgentID = a, snPreviousState = fState r, snState = t, snEvent = ev\<rparr>,
                  m\<lparr>agents := (agents m)(a \<mapsto> r\<lparr>fState := t\<rparr>)\<rparr>)
     else Inl (InvalidTransitionError (fState r) ev))"
  using assms
  by (auto simp: Machine_ApplyEvent_def ApplyEvent_def GetAgentState_def ParseAgentState_def
      CompareAndSetAgentState_def ValidTransition_def transitionTable_def agent_states_def
      state_defs event_defs Let_def split: option.splits)

definition demo_agent :: "string \<Rightarrow> AgentFields" where
  "demo_agent st = \<lparr>fState = st, fLastHeartbeat = 5, fCurrentTaskID = ''t1'',
     fCurrentTaskPriority = 2, fRegisteredAt = 1\<rparr>"

definition demo_store :: "string \<Rightarrow> MockStore" where
  "demo_store st = NewMockStore\<lparr>agents := [''a1'' \<mapsto> demo_agent st]\<rparr>"

theorem ApplyEvent_lifecycle_witness:
  "Machine_ApplyEvent (demo_store StateWorking) ''a1'' EventOutputReady =
     Inr (\<lparr>snAgentID = ''a1'', snPreviousState = StateWorking, snState = StateReporting,
           snEvent = EventOutputReady\<rparr>, demo_store StateReporting) \<and>
   Machine_ApplyEvent (demo_store StateWorking) ''a1'' EventTaskAssigned =
     Inl (InvalidTransitionError StateWorking EventTaskAssigned)"
proof -
  have h: "compareAndSetErr (demo_store StateWorking) = None"
    "agents (demo_store StateWorking) ''a1'' = Some (demo_agent StateWorking)"
    "fState (demo_agent StateWorking) \<in> agent_states"
    by (simp_all add: demo_store_def demo_agent_def NewMockStore_def agent_states_def)
  show ?thesis
    using ApplyEvent_lifecycle [OF h, of EventOutputReady]
      ApplyEvent_lifecycle [OF h, of EventTaskAssigned]
    by (simp add: demo_store_def demo_agent_def NewMockStore_def state_defs event_defs Let_def)
qed

text \<open>
  The state of every agent stays one of the four the code parses, over every run of events on any
  number of agents.
\<close>

corollary apply_events_parse:
  assumes "states_ok m" and "agents (apply_events m evs) a = Some r"
  shows "ParseAgentState (fState r) = Inr (fState r)"
  using states_okD [OF apply_events_states_ok [OF assms(1)] assms(2)]
  by (simp add: ParseAgentState_ok)

end
