(* ===== verification/Restart_Policy.thy ===== *)
theory Restart_Policy
  imports Prelude "HOL-Library.Word"
begin

section \<open>internal/supervisor/restart.go: restart decisions\<close>

text \<open>
  \<open>RestartPolicy\<close> keeps, per agent, the crash times inside a sliding window and a counter of
  consecutive crashes. \<open>RecordCrash\<close> appends, prunes, opens the circuit when more than
  \<open>crashThreshold\<close> crashes remain, and otherwise answers with an exponential backoff;
  \<open>RecordSuccess\<close> forgets the agent's history. Durations are Go's int64 nanoseconds, so the
  doubling in \<open>computeBackoff\<close> wraps here as it does there. The clock is the argument \<open>now\<close>.
\<close>

type_synonym duration64 = "64 word"

record RestartDecision =
  rdShouldRestart :: bool
  rdBackoff :: duration64
  rdReason :: "goerror option"

record RestartPolicy =
  baseBackoff :: duration64
  maxBackoff :: duration64
  crashThreshold :: int
  crashWindow :: duration64
  agentCrashes :: "string \<rightharpoonup> gtime list"
  agentConsecutive :: "string \<rightharpoonup> int"

subsection \<open>Construction\<close>

definition WithMaxBackoff :: "duration64 \<Rightarrow> RestartPolicy \<Rightarrow> RestartPolicy" where
  "WithMaxBackoff d p = p\<lparr>maxBackoff := d\<rparr>"

definition WithCrashWindow :: "duration64 \<Rightarrow> RestartPolicy \<Rightarrow> RestartPolicy" where
  "WithCrashWindow d p = p\<lparr>crashWindow := d\<rparr>"

definition WithCrashThreshold :: "int \<Rightarrow> RestartPolicy \<Rightarrow> RestartPolicy" where
  "WithCrashThreshold n p = p\<lparr>crashThreshold := n\<rparr>"

definition WithBaseBackoff :: "duration64 \<Rightarrow> RestartPolicy \<Rightarrow> RestartPolicy" where
  "WithBaseBackoff d p = p\<lparr>baseBackoff := d\<rparr>"

definition NewRestartPolicy :: "(RestartPolicy \<Rightarrow> RestartPolicy) list \<Rightarrow> RestartPolicy" where
  "NewRestartPolicy opts =
     foldl (\<lambda>p opt. opt p)
       \<lparr>baseBackoff = word_of_int (1 * Second), maxBackoff = word_of_int (30 * Second),
        crashThreshold = 5, crashWindow = word_of_int (60 * Second),
        agentCrashes = Map.empty, agentConsecutive = Map.empty\<rparr> opts"

subsection \<open>Operations\<close>

text \<open>The loop of \<open>computeBackoff\<close>; the first argument counts the iterations left.\<close>

fun backoff_loop :: "nat \<Rightarrow> duration64 \<Rightarrow> duration64 \<Rightarrow> duration64" where
  "backoff_loop 0 backoff mx = backoff"
| "backoff_loop (Suc n) backoff mx =
     (let backoff' = backoff * 2
      in if sint backoff' \<ge> sint mx then mx else backoff_loop n backoff' mx)"

definition computeBackoff :: "RestartPolicy \<Rightarrow> int \<Rightarrow> duration64" where
  "computeBackoff p consecutive =
     backoff_loop (nat (consecutive - 1)) (baseBackoff p) (maxBackoff p)"

definition crashes_of :: "RestartPolicy \<Rightarrow> string \<Rightarrow> gtime list" where
  "crashes_of p a = (case agentCrashes p a of None \<Rightarrow> [] | Some ts \<Rightarrow> ts)"

definition consecutive_of :: "RestartPolicy \<Rightarrow> string \<Rightarrow> int" where
  "consecutive_of p a = (case agentConsecutive p a of None \<Rightarrow> 0 | Some n \<Rightarrow> n)"

definition RecordCrash :: "RestartPolicy \<Rightarrow> gtime \<Rightarrow> string \<Rightarrow> RestartDecision \<times> RestartPolicy" where
  "RecordCrash p now agentID =
     (let crashes = crashes_of p agentID @ [now];
          cutoff = now - sint (crashWindow p);
          recent = filter (\<lambda>t. \<not> t < cutoff) crashes;
          p1 = p\<lparr>agentCrashes := (agentCrashes p)(agentID \<mapsto> recent)\<rparr>
      in if int (length recent) > crashThreshold p
         then (\<lparr>rdShouldRestart = False, rdBackoff = 0, rdReason = Some ErrCircuitOpen\<rparr>, p1)
         else let n = consecutive_of p agentID + 1
              in (\<lparr>rdShouldRestart = True, rdBackoff = computeBackoff p n, rdReason = None\<rparr>,
                  p1\<lparr>agentConsecutive := (agentConsecutive p)(agentID \<mapsto> n)\<rparr>))"

definition RecordSuccess :: "RestartPolicy \<Rightarrow> string \<Rightarrow> RestartPolicy" where
  "RecordSuccess p agentID =
     p\<lparr>agentConsecutive := (agentConsecutive p)(agentID \<mapsto> 0),
       agentCrashes := (agentCrashes p)(agentID := None)\<rparr>"

subsection \<open>The backoff in closed form\<close>

lemma sint_double:
  fixes b :: duration64
  assumes "0 \<le> sint b" and "sint b < 2 ^ 62"
  shows "sint (b * 2) = 2 * sint b"
  using assms by (simp add: sint_word_ariths signed_take_bit_int_eq_self)

lemma backoff_loop_closed:
  assumes "0 \<le> sint b" and "sint b < 2 ^ 62" and "sint mx \<le> 2 ^ 62"
  shows "sint (backoff_loop n b mx) = (if n = 0 then sint b else min (sint b * 2 ^ n) (sint mx))"
  using assms
proof (induction n arbitrary: b)
  case (Suc n)
  have d: "sint (b * 2) = 2 * sint b" using Suc.prems by (simp add: sint_double)
  show ?case
  proof (cases "sint mx \<le> sint (b * 2)")
    case True
    have "2 * sint b \<le> sint b * 2 ^ Suc n"
      using Suc.prems(1) by (simp add: mult_le_cancel_left1)
    then show ?thesis using True d by (simp add: Let_def)
  next
    case False
    then have "sint (b * 2) < 2 ^ 62" using Suc.prems(3) by linarith
    then show ?thesis
      using False d Suc.IH [of "b * 2"] Suc.prems by (simp add: Let_def mult.left_commute mult.assoc)
  qed
qed simp

text \<open>
  The backoff of the n-th consecutive crash is the base doubled n - 1 times and capped at the
  maximum, with no overflow for any n, as long as the base is below and the maximum at most 2 ^ 62
  nanoseconds; the cap does not apply to the first crash, whose backoff is the base itself.
\<close>

theorem computeBackoff_closed:
  assumes "0 \<le> sint (baseBackoff p)" and "sint (baseBackoff p) < 2 ^ 62"
    and "sint (maxBackoff p) \<le> 2 ^ 62"
  shows "sint (computeBackoff p n) =
    (if n \<le> 1 then sint (baseBackoff p)
     else min (sint (baseBackoff p) * 2 ^ nat (n - 1)) (sint (maxBackoff p)))"
  using assms by (simp add: computeBackoff_def backoff_loop_closed)

theorem computeBackoff_closed_witness:
  "sint (computeBackoff (NewRestartPolicy []) 4) = 8000000000 \<and>
   sint (computeBackoff (NewRestartPolicy []) 100) = 30000000000"
  using computeBackoff_closed [of "NewRestartPolicy []" 4]
    computeBackoff_closed [of "NewRestartPolicy []" 100]
  by (simp add: NewRestartPolicy_def Second_def Millisecond_def)

subsection \<open>The circuit breaker over a history of crashes and successes\<close>

datatype policy_event = Crash string gtime | Success string

fun policy_step :: "RestartPolicy \<Rightarrow> policy_event \<Rightarrow> RestartPolicy" where
  "policy_step p (Crash a t) = snd (RecordCrash p t a)"
| "policy_step p (Success a) = RecordSuccess p a"

definition policy_run :: "RestartPolicy \<Rightarrow> policy_event list \<Rightarrow> RestartPolicy" where
  "policy_run p evs = foldl policy_step p evs"

text \<open>The specification keeps everything: all crash times of an agent since its last success.\<close>

definition crashes_since_success :: "string \<Rightarrow> policy_event list \<Rightarrow> gtime list" where
  "crashes_since_success a evs =
     foldl (\<lambda>ts e. case e of Crash b t \<Rightarrow> if b = a then ts @ [t] else ts
                            | Success b \<Rightarrow> if b = a then [] else ts) [] evs"

lemma policy_run_snoc: "policy_run p (evs @ [e]) = policy_step (policy_run p evs) e"
  by (simp add: policy_run_def)

lemma crashes_since_success_snoc:
  "crashes_since_success a (evs @ [Crash b t]) =
     (if b = a then crashes_since_success a evs @ [t] else crashes_since_success a evs)"
  "crashes_since_success a (evs @ [Success b]) =
     (if b = a then [] else crashes_since_success a evs)"
  by (simp_all add: crashes_since_success_def)

lemma policy_step_config [simp]:
  "crashWindow (policy_step p e) = crashWindow p"
  "crashThreshold (policy_step p e) = crashThreshold p"
  "baseBackoff (policy_step p e) = baseBackoff p"
  "maxBackoff (policy_step p e) = maxBackoff p"
  by (cases e; simp add: RecordCrash_def RecordSuccess_def Let_def)+

lemma policy_run_config [simp]:
  "crashWindow (policy_run p evs) = crashWindow p"
  "crashThreshold (policy_run p evs) = crashThreshold p"
  by (induction evs rule: rev_induct) (simp_all add: policy_run_snoc policy_run_def)

lemma crashes_of_step:
  "crashes_of (policy_step p (Crash b t)) a =
     (if b = a then filter (\<lambda>s. \<not> s < t - sint (crashWindow p)) (crashes_of p a @ [t])
      else crashes_of p a)"
  "crashes_of (policy_step p (Success b)) a = (if b = a then [] else crashes_of p a)"
  by (simp_all add: RecordCrash_def RecordSuccess_def crashes_of_def Let_def)

text \<open>Pruning forgets only crashes that no later window can see.\<close>

lemma pruned_history:
  assumes "0 \<le> sint (crashWindow p)" and "agentCrashes p = Map.empty"
    and "\<And>b t. Crash b t \<in> set evs \<Longrightarrow> t \<le> now"
  shows "filter (\<lambda>s. \<not> s < now - sint (crashWindow p)) (crashes_of (policy_run p evs) a) =
    filter (\<lambda>s. \<not> s < now - sint (crashWindow p)) (crashes_since_success a evs)"
  using assms(3)
proof (induction evs rule: rev_induct)
  case Nil
  show ?case
    by (simp add: policy_run_def crashes_of_def assms(2) crashes_since_success_def)
next
  case (snoc e evs)
  then have IH: "filter (\<lambda>s. \<not> s < now - sint (crashWindow p)) (crashes_of (policy_run p evs) a) =
      filter (\<lambda>s. \<not> s < now - sint (crashWindow p)) (crashes_since_success a evs)"
    by auto
  show ?case
  proof (cases e)
    case (Crash b t)
    then have "t \<le> now" using snoc.prems by auto
    then have "(\<not> s < now - sint (crashWindow p) \<and> \<not> s < t - sint (crashWindow p)) =
        (\<not> s < now - sint (crashWindow p))" for s
      by auto
    then show ?thesis
      using IH Crash assms(1) by (simp add: policy_run_snoc crashes_of_step(1) crashes_since_success_snoc
          conj_commute del: policy_step.simps)
  next
    case (Success b)
    then show ?thesis
      using IH by (simp add: policy_run_snoc crashes_of_step(2) crashes_since_success_snoc
          del: policy_step.simps)
  qed
qed

text \<open>
  C14. The circuit breaker: after any history of crashes and successes of any number of agents, a
  crash of an agent at time \<open>now\<close> (no earlier than the crashes before it) is answered with a
  restart exactly when the agent's crashes since its last success that lie in the window ending
  now, this one included, number at most the threshold; otherwise the answer is \<open>ErrCircuitOpen\<close>.
  The stored history is pruned at every crash, and the answer is the one the full history gives.
\<close>

theorem circuit_opens_iff:
  assumes "0 \<le> sint (crashWindow p)" and "agentCrashes p = Map.empty"
    and "\<forall>b t. Crash b t \<in> set evs \<longrightarrow> t \<le> now"
  shows "let d = fst (RecordCrash (policy_run p evs) now a)
    in (rdShouldRestart d \<longleftrightarrow>
          int (length (filter (\<lambda>t. now - sint (crashWindow p) \<le> t) (crashes_since_success a evs))) + 1
            \<le> crashThreshold p)
       \<and> rdReason d = (if rdShouldRestart d then None else Some ErrCircuitOpen)"
proof -
  have "filter (\<lambda>t. \<not> t < now - sint (crashWindow p)) (crashes_of (policy_run p evs) a @ [now]) =
      filter (\<lambda>t. \<not> t < now - sint (crashWindow p)) (crashes_since_success a evs) @ [now]"
    using pruned_history [OF assms(1,2), of evs now a] assms(1,3) by simp
  then show ?thesis
    by (auto simp: RecordCrash_def Let_def not_less)
qed

theorem circuit_opens_iff_witness:
  "rdReason (fst (RecordCrash (policy_run (NewRestartPolicy [WithCrashThreshold 2])
     [Crash ''a'' 1, Crash ''b'' 2, Crash ''a'' 3]) 4 ''a'')) = Some ErrCircuitOpen \<and>
   rdReason (fst (RecordCrash (policy_run (NewRestartPolicy [WithCrashThreshold 2])
     [Crash ''a'' 1, Success ''a'', Crash ''a'' 3]) 4 ''a'')) = None"
proof -
  let ?p = "NewRestartPolicy [WithCrashThreshold 2]"
  have w: "sint (crashWindow ?p) = 60000000000" "crashThreshold ?p = 2"
    "agentCrashes ?p = Map.empty"
    by (simp_all add: NewRestartPolicy_def WithCrashThreshold_def Second_def Millisecond_def)
  show ?thesis
    using circuit_opens_iff [of ?p "[Crash ''a'' 1, Crash ''b'' 2, Crash ''a'' 3]" 4 "''a''"]
      circuit_opens_iff [of ?p "[Crash ''a'' 1, Success ''a'', Crash ''a'' 3]" 4 "''a''"]
    by (simp add: w crashes_since_success_def Let_def)
qed

end
