(* ===== verification/Completion.thy ===== *)
theory Completion
  imports Prelude
begin

section \<open>internal/supervisor/completion.go: the completion registry\<close>

text \<open>
  \<open>CompletionRegistry\<close> lets a submitter block until the supervisor reports a task complete. Channels
  are heap objects that a blocked \<open>Wait\<close> still holds after the map forgot them, so they are
  identifiers here, with the set of closed ones and the next fresh one in the record. \<open>Wait\<close> is in
  two parts, the locked lookup (\<open>Wait_begin\<close>, which returns the channel) and the \<open>select\<close>
  (\<open>Wait_outcomes\<close>, the set of results the select may return now: empty when it blocks).
  The other methods run under the lock and are one step each; the clock is an argument.
\<close>

type_synonym chan = nat

record CompletionRegistry =
  waiters :: "string \<rightharpoonup> chan"
  cleaned :: "string \<rightharpoonup> gtime"
  completed :: "string \<rightharpoonup> gtime"
  tombstoneTTL :: duration
  sweepInterval :: duration
  closed_chans :: "chan set"
  next_chan :: chan

definition defaultStaleThreshold :: duration where
  "defaultStaleThreshold = 30 * Second"

definition defaultTombstoneTTL :: duration where
  "defaultTombstoneTTL = 2 * defaultStaleThreshold"

definition defaultSweepInterval :: duration where
  "defaultSweepInterval = defaultStaleThreshold"

definition WithTombstoneTTL :: "duration \<Rightarrow> CompletionRegistry \<Rightarrow> CompletionRegistry" where
  "WithTombstoneTTL d r = r\<lparr>tombstoneTTL := d\<rparr>"

definition WithSweepInterval :: "duration \<Rightarrow> CompletionRegistry \<Rightarrow> CompletionRegistry" where
  "WithSweepInterval d r = r\<lparr>sweepInterval := d\<rparr>"

definition NewCompletionRegistry ::
  "(CompletionRegistry \<Rightarrow> CompletionRegistry) list \<Rightarrow> CompletionRegistry" where
  "NewCompletionRegistry opts =
     foldl (\<lambda>r opt. opt r)
       \<lparr>waiters = Map.empty, cleaned = Map.empty, completed = Map.empty,
        tombstoneTTL = defaultTombstoneTTL, sweepInterval = defaultSweepInterval,
        closed_chans = {}, next_chan = 0\<rparr> opts"

subsection \<open>Operations\<close>

definition Wait_begin :: "string \<Rightarrow> CompletionRegistry \<Rightarrow> chan \<times> CompletionRegistry" where
  "Wait_begin taskID r =
     (let r1 = r\<lparr>cleaned := (cleaned r)(taskID := None), completed := (completed r)(taskID := None)\<rparr>
      in case waiters r taskID of
           Some ch \<Rightarrow> (ch, r1)
         | None \<Rightarrow> (next_chan r, r1\<lparr>waiters := (waiters r)(taskID \<mapsto> next_chan r),
                                    next_chan := Suc (next_chan r)\<rparr>))"

text \<open>The two ready cases of the \<open>select\<close>; Go picks any of those that are ready.\<close>

definition Wait_outcomes :: "chan \<Rightarrow> goerror option \<Rightarrow> CompletionRegistry \<Rightarrow> goerror option set" where
  "Wait_outcomes ch ctx_err r =
     (if ch \<in> closed_chans r then {None} else {}) \<union>
     (case ctx_err of Some e \<Rightarrow> {Some e} | None \<Rightarrow> {})"

definition Complete :: "gtime \<Rightarrow> string \<Rightarrow> CompletionRegistry \<Rightarrow> CompletionRegistry" where
  "Complete now taskID r =
     (case cleaned r taskID of
        Some _ \<Rightarrow> r\<lparr>cleaned := (cleaned r)(taskID := None)\<rparr>
      | None \<Rightarrow>
        (case waiters r taskID of
           Some ch \<Rightarrow> r\<lparr>closed_chans := insert ch (closed_chans r)\<rparr>
         | None \<Rightarrow> r\<lparr>waiters := (waiters r)(taskID \<mapsto> next_chan r),
                     completed := (completed r)(taskID \<mapsto> now),
                     closed_chans := insert (next_chan r) (closed_chans r),
                     next_chan := Suc (next_chan r)\<rparr>))"

definition Cleanup :: "gtime \<Rightarrow> string \<Rightarrow> CompletionRegistry \<Rightarrow> CompletionRegistry" where
  "Cleanup now taskID r =
     r\<lparr>waiters := (waiters r)(taskID := None), completed := (completed r)(taskID := None),
       cleaned := (cleaned r)(taskID \<mapsto> now)\<rparr>"

text \<open>Both loops of \<open>SweepOnce\<close> decide entry by entry, so the iteration order does not matter.\<close>

definition expired :: "gtime \<Rightarrow> CompletionRegistry \<Rightarrow> (string \<rightharpoonup> gtime) \<Rightarrow> string \<Rightarrow> bool" where
  "expired now r m taskID =
     (case m taskID of None \<Rightarrow> False | Some insertedAt \<Rightarrow> now - insertedAt \<ge> tombstoneTTL r)"

definition SweepOnce :: "gtime \<Rightarrow> CompletionRegistry \<Rightarrow> CompletionRegistry" where
  "SweepOnce now r =
     r\<lparr>cleaned := (\<lambda>t. if expired now r (cleaned r) t then None else cleaned r t),
       completed := (\<lambda>t. if expired now r (completed r) t then None else completed r t),
       waiters := (\<lambda>t. if expired now r (completed r) t then None else waiters r t)\<rparr>"

text \<open>The reaper goroutine: one \<open>SweepOnce\<close> per tick until the context is done.\<close>

definition StartReaper :: "gtime list \<Rightarrow> CompletionRegistry \<Rightarrow> CompletionRegistry" where
  "StartReaper ticks r = foldl (\<lambda>r now. SweepOnce now r) r ticks"

subsection \<open>Histories of the registry\<close>

datatype reg_op = RWait string | RComplete string gtime | RCleanup string gtime | RSweep gtime

fun reg_step :: "CompletionRegistry \<Rightarrow> reg_op \<Rightarrow> CompletionRegistry" where
  "reg_step r (RWait t) = snd (Wait_begin t r)"
| "reg_step r (RComplete t now) = Complete now t r"
| "reg_step r (RCleanup t now) = Cleanup now t r"
| "reg_step r (RSweep now) = SweepOnce now r"

definition reg_run :: "CompletionRegistry \<Rightarrow> reg_op list \<Rightarrow> CompletionRegistry" where
  "reg_run r ops = foldl reg_step r ops"

lemma reg_run_simps [simp]:
  "reg_run r [] = r" "reg_run r (op # ops) = reg_run (reg_step r op) ops"
  "reg_run r (xs @ ys) = reg_run (reg_run r xs) ys"
  by (simp_all add: reg_run_def)

lemmas registry_defs = Wait_begin_def Complete_def Cleanup_def SweepOnce_def expired_def Let_def

text \<open>
  Well-formedness: channels in use were allocated, two tasks never share one, a planted entry is a
  closed channel, and a task with a tombstone has no channel.
\<close>

definition reg_inv :: "CompletionRegistry \<Rightarrow> bool" where
  "reg_inv r \<longleftrightarrow>
     (\<forall>t ch. waiters r t = Some ch \<longrightarrow> ch < next_chan r) \<and>
     (\<forall>t u ch. waiters r t = Some ch \<and> waiters r u = Some ch \<longrightarrow> t = u) \<and>
     (\<forall>ch \<in> closed_chans r. ch < next_chan r) \<and>
     (\<forall>t. completed r t \<noteq> None \<longrightarrow> (\<exists>ch. waiters r t = Some ch \<and> ch \<in> closed_chans r)) \<and>
     (\<forall>t. cleaned r t \<noteq> None \<longrightarrow> waiters r t = None)"

lemma reg_invD:
  assumes "reg_inv r"
  shows "waiters r t = Some ch \<Longrightarrow> ch < next_chan r"
    and "waiters r t = Some ch \<Longrightarrow> waiters r u = Some ch \<Longrightarrow> t = u"
    and "ch \<in> closed_chans r \<Longrightarrow> ch < next_chan r"
    and "completed r t = Some s \<Longrightarrow> \<exists>ch. waiters r t = Some ch \<and> ch \<in> closed_chans r"
    and "cleaned r t = Some s \<Longrightarrow> waiters r t = None"
  using assms by (auto simp: reg_inv_def)

lemma reg_inv_initial: "waiters r = Map.empty \<Longrightarrow> cleaned r = Map.empty \<Longrightarrow>
    completed r = Map.empty \<Longrightarrow> closed_chans r = {} \<Longrightarrow> reg_inv r"
  by (simp add: reg_inv_def)

lemma NewCompletionRegistry_inv: "reg_inv (NewCompletionRegistry [])"
  by (simp add: NewCompletionRegistry_def reg_inv_def)

lemma Wait_begin_inv:
  assumes "reg_inv r"
  shows "reg_inv (snd (Wait_begin t r))"
proof (cases "waiters r t")
  case None
  then show ?thesis
    using reg_invD [OF assms] by (fastforce simp: Wait_begin_def reg_inv_def Let_def less_SucI)
next
  case (Some ch)
  then show ?thesis
    using reg_invD [OF assms] by (auto simp: Wait_begin_def reg_inv_def Let_def)
qed

lemma Complete_inv:
  assumes "reg_inv r"
  shows "reg_inv (Complete now t r)"
proof (cases "cleaned r t")
  case None
  show ?thesis
  proof (cases "waiters r t")
    case None
    then show ?thesis
      using reg_invD [OF assms] \<open>cleaned r t = None\<close>
      by (fastforce simp: Complete_def reg_inv_def less_SucI)
  next
    case (Some ch)
    have "\<exists>c. waiters r u = Some c \<and> c \<in> insert ch (closed_chans r)" if "completed r u = Some s" for u s
      using reg_invD(4) [OF assms that] by blast
    then show ?thesis
      using reg_invD(1,2,3,5) [OF assms] \<open>cleaned r t = None\<close> Some
      by (auto simp: Complete_def reg_inv_def)
  qed
next
  case (Some s)
  then show ?thesis
    using reg_invD [OF assms] by (auto simp: Complete_def reg_inv_def)
qed

lemma Cleanup_inv:
  assumes "reg_inv r"
  shows "reg_inv (Cleanup now t r)"
  using reg_invD [OF assms] by (auto simp: Cleanup_def reg_inv_def)

lemma SweepOnce_inv:
  assumes "reg_inv r"
  shows "reg_inv (SweepOnce now r)"
  using reg_invD [OF assms] by (auto simp: SweepOnce_def reg_inv_def)

lemma reg_step_inv: "reg_inv r \<Longrightarrow> reg_inv (reg_step r op)"
  by (cases op) (simp_all add: Wait_begin_inv Complete_inv Cleanup_inv SweepOnce_inv)

lemma reg_run_inv: "reg_inv r \<Longrightarrow> reg_inv (reg_run r ops)"
  by (induction ops arbitrary: r) (auto intro: reg_step_inv)

lemma closed_mono_step: "closed_chans r \<subseteq> closed_chans (reg_step r op)"
  by (cases op) (auto simp: registry_defs split: option.splits)

lemma closed_mono: "closed_chans r \<subseteq> closed_chans (reg_run r ops)"
  by (induction ops arbitrary: r) (auto dest: subsetD [OF closed_mono_step])

lemma reg_step_ttl [simp]: "tombstoneTTL (reg_step r op) = tombstoneTTL r"
  by (cases op) (auto simp: registry_defs split: option.splits)

subsection \<open>No lost and no spurious wake-up\<close>

text \<open>
  The channel \<open>ch\<close> is the one a \<open>Wait\<close> of \<open>t\<close> holds and its task is still claimed: no tombstone,
  no planted timestamp.
\<close>

definition waits_on :: "CompletionRegistry \<Rightarrow> string \<Rightarrow> chan \<Rightarrow> bool" where
  "waits_on r t ch \<longleftrightarrow> waiters r t = Some ch \<and> cleaned r t = None \<and> completed r t = None"

lemma Wait_begin_waits:
  "Wait_begin t r = (ch, r') \<Longrightarrow> waits_on r' t ch"
  by (auto simp: Wait_begin_def Let_def waits_on_def split: option.splits)

lemma waits_on_step:
  assumes "waits_on r t ch" and "\<And>now. op \<noteq> RCleanup t now"
  shows "waits_on (reg_step r op) t ch"
  using assms by (cases op) (auto simp: registry_defs waits_on_def split: option.splits)

lemma closed_step:
  assumes "reg_inv r" and "waits_on r t ch"
  shows "ch \<in> closed_chans (reg_step r op) \<longleftrightarrow>
    ch \<in> closed_chans r \<or> (\<exists>now. op = RComplete t now)"
  using assms reg_invD(1,2) [OF assms(1)]
  by (cases op) (auto simp: registry_defs waits_on_def split: option.splits)

lemma wait_closed_iff:
  assumes "reg_inv r" and "waits_on r t ch" and "\<And>now. RCleanup t now \<notin> set ops"
  shows "ch \<in> closed_chans (reg_run r ops) \<longleftrightarrow>
    ch \<in> closed_chans r \<or> (\<exists>now. RComplete t now \<in> set ops)"
  using assms
proof (induction ops arbitrary: r)
  case (Cons op ops)
  have "waits_on (reg_step r op) t ch"
    using Cons.prems by (intro waits_on_step) auto
  then show ?case
    using Cons.IH [OF reg_step_inv [OF Cons.prems(1)]] closed_step [OF Cons.prems(1,2)] Cons.prems(3)
    by auto
qed simp

text \<open>An entry planted by \<open>Complete\<close> survives until its TTL has passed.\<close>

definition banked :: "CompletionRegistry \<Rightarrow> string \<Rightarrow> gtime \<Rightarrow> bool" where
  "banked r t since \<longleftrightarrow> cleaned r t = None \<and>
     (\<exists>ch. waiters r t = Some ch \<and> ch \<in> closed_chans r) \<and>
     (\<forall>s. completed r t = Some s \<longrightarrow> since \<le> s)"

lemma Complete_banks:
  "cleaned r t = None \<Longrightarrow> reg_inv r \<Longrightarrow> (\<And>s. completed r t = Some s \<Longrightarrow> since \<le> s) \<Longrightarrow>
    since \<le> now \<Longrightarrow> banked (Complete now t r) t since"
  by (auto simp: Complete_def banked_def split: option.splits)

lemma banked_step:
  assumes "banked r t since" and "\<And>now. op \<noteq> RCleanup t now"
    and "\<And>now. op = RSweep now \<Longrightarrow> now - since < tombstoneTTL r"
  shows "banked (reg_step r op) t since"
proof (cases op)
  case (RSweep now)
  then have "\<not> expired now r (completed r) t"
    using assms by (fastforce simp: expired_def banked_def split: option.splits)
  then show ?thesis
    using assms RSweep by (auto simp: SweepOnce_def banked_def expired_def)
qed (use assms in \<open>auto simp: registry_defs banked_def split: option.splits\<close>)

lemma banked_run:
  assumes "banked r t since" and "\<And>now. RCleanup t now \<notin> set ops"
    and "\<And>now. RSweep now \<in> set ops \<Longrightarrow> now - since < tombstoneTTL r"
  shows "banked (reg_run r ops) t since"
  using assms
proof (induction ops arbitrary: r)
  case (Cons op ops)
  have "banked (reg_step r op) t since"
    using Cons.prems by (intro banked_step) auto
  then show ?case using Cons.IH [of "reg_step r op"] Cons.prems by auto
qed simp

lemma reg_inv_start: "reg_inv (NewCompletionRegistry [WithTombstoneTTL ttl])"
  by (simp add: NewCompletionRegistry_def WithTombstoneTTL_def reg_inv_def)

text \<open>The registry after a history, from a fresh one with the given TTL.\<close>

definition reg_after :: "duration \<Rightarrow> reg_op list \<Rightarrow> CompletionRegistry" where
  "reg_after ttl ops = reg_run (NewCompletionRegistry [WithTombstoneTTL ttl]) ops"

lemma reg_after_inv: "reg_inv (reg_after ttl ops)"
  by (simp add: reg_after_def reg_run_inv reg_inv_start)

lemma reg_after_snoc: "reg_after ttl (ops @ [op]) = reg_step (reg_after ttl ops) op"
  by (simp add: reg_after_def)

lemma reg_run_ttl [simp]: "tombstoneTTL (reg_run r ops) = tombstoneTTL r"
  by (induction ops arbitrary: r) simp_all

lemma reg_after_ttl [simp]: "tombstoneTTL (reg_after ttl ops) = ttl"
  by (simp add: reg_after_def NewCompletionRegistry_def WithTombstoneTTL_def)

text \<open>
  C15. No lost and no spurious wake-up: after any history, a \<open>Wait\<close> of a task that was looked up can
  return nil, at any later point before the task's cleanup, exactly when its channel was closed
  already or the supervisor has completed that very task since. Completions, waits, cleanups of
  other tasks and sweeps of the reaper neither wake it nor make it miss its signal.
\<close>

theorem Wait_woken_iff:
  assumes "Wait_begin t (reg_after ttl before) = (ch, r)"
    and "\<forall>now. RCleanup t now \<notin> set during"
  shows "None \<in> Wait_outcomes ch ctx (reg_run r during) \<longleftrightarrow>
    None \<in> Wait_outcomes ch ctx r \<or> (\<exists>now. RComplete t now \<in> set during)"
proof -
  have r: "r = snd (Wait_begin t (reg_after ttl before))" by (simp add: assms(1))
  have "reg_inv r" by (simp add: r Wait_begin_inv reg_after_inv)
  moreover have "waits_on r t ch" by (rule Wait_begin_waits [OF assms(1)])
  ultimately show ?thesis
    using wait_closed_iff [of r t ch during] assms(2)
    by (auto simp: Wait_outcomes_def split: option.splits)
qed

theorem Wait_woken_iff_witness:
  "\<exists>ch r. Wait_begin ''t'' (reg_after 60 [RComplete ''u'' 1]) = (ch, r) \<and>
     None \<in> Wait_outcomes ch None (reg_run r [RSweep 100, RComplete ''t'' 101, RSweep 500]) \<and>
     None \<notin> Wait_outcomes ch None (reg_run r [RSweep 100, RComplete ''v'' 101])"
proof -
  obtain ch r where w: "Wait_begin ''t'' (reg_after 60 [RComplete ''u'' 1]) = (ch, r)"
    by fastforce
  have "None \<notin> Wait_outcomes ch None r"
    using w by (auto simp: Wait_outcomes_def registry_defs reg_after_def
        NewCompletionRegistry_def WithTombstoneTTL_def)
  then show ?thesis
    using w Wait_woken_iff [OF w, of "[RSweep 100, RComplete ''t'' 101, RSweep 500]" None]
      Wait_woken_iff [OF w, of "[RSweep 100, RComplete ''v'' 101]" None]
    by auto
qed

text \<open>
  A completion that comes before its waiter is kept: if a task with no tombstone and no planted
  entry is completed at \<open>T\<close>, then a \<open>Wait\<close> that follows returns nil at once, whatever happened to
  other tasks in between, as long as the task is not cleaned up and every sweep in between came
  less than a TTL after \<open>T\<close>.
\<close>

theorem Complete_before_Wait_kept:
  assumes "cleaned (reg_after ttl before) t = None"
    and "completed (reg_after ttl before) t = None"
    and "\<forall>now. RCleanup t now \<notin> set between"
    and "\<forall>now. RSweep now \<in> set between \<longrightarrow> now - T < ttl"
    and "Wait_begin t (reg_after ttl (before @ RComplete t T # between)) = (ch, r)"
  shows "Wait_outcomes ch None r = {None}"
proof -
  let ?r = "reg_after ttl before" and ?r2 = "reg_after ttl (before @ RComplete t T # between)"
  have "banked (Complete T t ?r) t T"
    by (rule Complete_banks) (use assms(1,2) reg_after_inv in simp_all)
  then have "banked (reg_run (Complete T t ?r) between) t T"
    by (rule banked_run) (use assms(3,4) in \<open>auto simp: reg_step_ttl [of _ "RComplete t T", simplified]\<close>)
  then have "banked ?r2 t T" by (simp add: reg_after_def)
  then show ?thesis
    using assms(5) by (auto simp: banked_def Wait_begin_def Wait_outcomes_def Let_def)
qed

theorem Complete_before_Wait_kept_witness:
  "\<exists>ch r. Wait_begin ''t'' (reg_after 60 [RComplete ''t'' 1, RSweep 30, RCleanup ''u'' 40]) = (ch, r)
     \<and> Wait_outcomes ch None r = {None}"
proof -
  obtain ch r where
    w: "Wait_begin ''t'' (reg_after 60 ([] @ RComplete ''t'' 1 # [RSweep 30, RCleanup ''u'' 40])) = (ch, r)"
    by fastforce
  have "Wait_outcomes ch None r = {None}"
    by (rule Complete_before_Wait_kept [OF _ _ _ _ w])
      (auto simp: reg_after_def NewCompletionRegistry_def WithTombstoneTTL_def)
  then show ?thesis using w by auto
qed

subsection \<open>The registry does not grow\<close>

text \<open>A task is claimed while its last \<open>Wait\<close> has not been cleaned up.\<close>

definition claimed :: "reg_op list \<Rightarrow> string \<Rightarrow> bool" where
  "claimed ops t =
     foldl (\<lambda>b op. case op of RWait u \<Rightarrow> u = t \<or> b | RCleanup u _ \<Rightarrow> u \<noteq> t \<and> b | _ \<Rightarrow> b) False ops"

lemma claimed_snoc [simp]:
  "claimed (ops @ [RWait u]) t \<longleftrightarrow> u = t \<or> claimed ops t"
  "claimed (ops @ [RCleanup u now]) t \<longleftrightarrow> u \<noteq> t \<and> claimed ops t"
  "claimed (ops @ [RComplete u now]) t \<longleftrightarrow> claimed ops t"
  "claimed (ops @ [RSweep now]) t \<longleftrightarrow> claimed ops t"
  by (simp_all add: claimed_def)

lemma entries_explained:
  "(waiters (reg_after ttl ops) t \<noteq> None \<longrightarrow> claimed ops t \<or> completed (reg_after ttl ops) t \<noteq> None) \<and>
   (\<forall>s. completed (reg_after ttl ops) t = Some s \<longrightarrow> RComplete t s \<in> set ops) \<and>
   (\<forall>s. cleaned (reg_after ttl ops) t = Some s \<longrightarrow> RCleanup t s \<in> set ops)"
proof (induction ops rule: rev_induct)
  case Nil
  show ?case by (simp add: reg_after_def NewCompletionRegistry_def WithTombstoneTTL_def)
next
  case (snoc op ops)
  then show ?case
    by (cases op) (auto simp: reg_after_snoc registry_defs split: option.splits if_splits)
qed

text \<open>
  The registry is bounded: right after a sweep, whatever the history, every task that still has
  an entry in any of the three maps is being waited for, or was completed or cleaned up less than
  one TTL ago. In particular a completion that arrives after its tombstone was swept is not kept
  for ever.
\<close>

theorem registry_bounded:
  "let r = reg_after ttl (ops @ [RSweep now])
   in dom (waiters r) \<union> dom (cleaned r) \<union> dom (completed r) \<subseteq>
        {t. claimed ops t \<or>
            (\<exists>s. (RComplete t s \<in> set ops \<or> RCleanup t s \<in> set ops) \<and> now - s < ttl)}"
proof -
  have "claimed ops t \<or> (\<exists>s. (RComplete t s \<in> set ops \<or> RCleanup t s \<in> set ops) \<and> now - s < ttl)"
    if "t \<in> dom (waiters r) \<union> dom (cleaned r) \<union> dom (completed r)"
      and r: "r = reg_after ttl (ops @ [RSweep now])" for t r
    using that(1) entries_explained [of ttl ops t]
    unfolding r reg_after_snoc
    by (fastforce simp: SweepOnce_def expired_def not_le split: if_splits)
  then show ?thesis unfolding Let_def by blast
qed

text \<open>
  A finding. \<open>Cleanup\<close> always plants a tombstone, also after a normal completion, so a task
  identifier that is submitted again within the TTL can lose its completion: if the supervisor
  finishes the task before the second submitter reaches \<open>Wait\<close>, \<open>Complete\<close> takes the completion
  for a late one and swallows it, and the \<open>Wait\<close> blocks for good (until its context ends), unless
  the task is completed once more.
\<close>

theorem resubmitted_task_completion_lost:
  "let r1 = reg_after ttl (before @ [RWait t, RComplete t t1, RCleanup t t2, RComplete t t3]);
       (ch, r2) = Wait_begin t r1
   in Wait_outcomes ch None r2 = {}"
proof -
  have inv: "reg_inv (reg_after ttl (before @ [RWait t, RComplete t t1, RCleanup t t2, RComplete t t3]))"
    by (rule reg_after_inv)
  have w: "waiters (reg_after ttl (before @ [RWait t, RComplete t t1, RCleanup t t2, RComplete t t3])) t = None"
    by (simp add: reg_after_def Cleanup_def Complete_def)
  show ?thesis
    using w reg_invD(3) [OF inv]
    by (auto simp: Wait_begin_def Let_def Wait_outcomes_def)
qed

end
