(* ===== verification/Supervisor.thy ===== *)
theory Supervisor
  imports Agent_Machine Restart_Policy Completion
begin

section \<open>internal/supervisor: supervisor.go and reaper.go\<close>

text \<open>
  The supervisor keeps its own maps (registered agents, cooldowns, open circuits, the back-off of
  the assignment loop) next to the store, the restart policy and the completion registry; the
  record \<open>Supervisor\<close> holds all of them. A handler that runs under one agent's mutex is one
  definition and one atomic step (the store's operations on other agents commute with it); the
  assignment loop releases its locks between its phases, so besides \<open>tryAssignTask\<close> as a function
  there is a step relation in which other handlers run between the phases. A handler reads the
  clock as the argument \<open>now\<close>, the same for all readings of one call.

  The terminal substrate is an interface the supervisor calls and ignores the errors of: it is a
  record of answers, each of which may depend on the calls made before, and a log of the calls.
  Handlers return the Go error and the new state, since some fail after they have written.
\<close>

subsection \<open>The substrate\<close>

record Session =
  sName :: string
  sWidth :: int
  sHeight :: int
  sWindowCount :: int
  sAttached :: bool

datatype SubCall = SpawnSessionCall string string | DestroySessionCall string | ListSessionsCall

record Substrate =
  SpawnSession_res :: "SubCall list \<Rightarrow> string \<Rightarrow> goerror option"
  DestroySession_res :: "SubCall list \<Rightarrow> string \<Rightarrow> goerror option"
  ListSessions_res :: "SubCall list \<Rightarrow> goerror + Session list"

subsection \<open>State and construction\<close>

record Supervisor =
  store :: MockStore
  policy :: RestartPolicy
  substrate :: "Substrate option"
  subCalls :: "SubCall list"
  completionRegistry :: "CompletionRegistry option"
  heartbeatInterval :: duration
  staleThreshold :: duration
  taskPollInterval :: duration
  reapInterval :: duration
  agentMu :: "string set"
  agentCooldown :: "string \<rightharpoonup> gtime"
  circuitOpen :: "string \<rightharpoonup> bool"
  stopped :: bool
  consecutiveAssignErrors :: int
  nextAssignAttempt :: gtime

definition defaultHeartbeatInterval :: duration where
  "defaultHeartbeatInterval = 5 * Second"

definition defaultTaskPollInterval :: duration where
  "defaultTaskPollInterval = 100 * Millisecond"

definition defaultReapInterval :: duration where
  "defaultReapInterval = 15 * Second"

definition sessionPrefix :: string where
  "sessionPrefix = ''agent-''"

definition WithHeartbeatInterval :: "duration \<Rightarrow> Supervisor \<Rightarrow> Supervisor" where
  "WithHeartbeatInterval d sv = sv\<lparr>heartbeatInterval := d\<rparr>"

definition WithStaleThreshold :: "duration \<Rightarrow> Supervisor \<Rightarrow> Supervisor" where
  "WithStaleThreshold d sv = sv\<lparr>staleThreshold := d\<rparr>"

definition WithTaskPollInterval :: "duration \<Rightarrow> Supervisor \<Rightarrow> Supervisor" where
  "WithTaskPollInterval d sv = sv\<lparr>taskPollInterval := d\<rparr>"

definition WithReapInterval :: "duration \<Rightarrow> Supervisor \<Rightarrow> Supervisor" where
  "WithReapInterval d sv = sv\<lparr>reapInterval := d\<rparr>"

definition WithSubstrate :: "Substrate \<Rightarrow> Supervisor \<Rightarrow> Supervisor" where
  "WithSubstrate s sv = sv\<lparr>substrate := Some s\<rparr>"

definition WithCompletionRegistry :: "CompletionRegistry \<Rightarrow> Supervisor \<Rightarrow> Supervisor" where
  "WithCompletionRegistry r sv = sv\<lparr>completionRegistry := Some r\<rparr>"

definition NewSupervisor ::
  "MockStore \<Rightarrow> RestartPolicy \<Rightarrow> (Supervisor \<Rightarrow> Supervisor) list \<Rightarrow> Supervisor" where
  "NewSupervisor st pol opts =
     foldl (\<lambda>sv opt. opt sv)
       \<lparr>store = st, policy = pol, substrate = None, subCalls = [], completionRegistry = None,
        heartbeatInterval = defaultHeartbeatInterval, staleThreshold = defaultStaleThreshold,
        taskPollInterval = defaultTaskPollInterval, reapInterval = defaultReapInterval,
        agentMu = {}, agentCooldown = Map.empty, circuitOpen = Map.empty, stopped = False,
        consecutiveAssignErrors = 0, nextAssignAttempt = 0\<rparr> opts"

subsection \<open>Shared pieces\<close>

definition valid_agent_id :: "string \<Rightarrow> bool" where
  "valid_agent_id agentID \<longleftrightarrow> \<not> (agentID = '''' \<or> length agentID > 128)"

text \<open>\<open>_ = store.PublishEvent(...)\<close>: the error is dropped.\<close>

definition publish :: "gtime \<Rightarrow> Event \<Rightarrow> Supervisor \<Rightarrow> Supervisor" where
  "publish now ev sv = sv\<lparr>store := state_after (store sv) (PublishEvent now ev (store sv))\<rparr>"

definition agent_event :: "string \<Rightarrow> string \<Rightarrow> gtime \<Rightarrow> Event" where
  "agent_event ty agentID now = \<lparr>eType = ty, eAgentID = agentID, eTaskID = '''',
     eTimestamp = UnixMilli now, ePayload = ''''\<rparr>"

definition floor_event :: "string \<Rightarrow> string \<Rightarrow> gtime \<Rightarrow> Event" where
  "floor_event ty session now = \<lparr>eType = ty, eAgentID = '''', eTaskID = '''',
     eTimestamp = UnixMilli now, ePayload = session\<rparr>"

text \<open>Destroying an agent's session, with the \<open>floor_removed\<close> event when it worked.\<close>

definition destroy_session :: "gtime \<Rightarrow> string \<Rightarrow> Supervisor \<Rightarrow> Supervisor" where
  "destroy_session now agentID sv =
     (case substrate sv of
        None \<Rightarrow> sv
      | Some s \<Rightarrow>
          let sessionName = ''agent-'' @ agentID;
              res = DestroySession_res s (subCalls sv) sessionName;
              sv1 = sv\<lparr>subCalls := subCalls sv @ [DestroySessionCall sessionName]\<rparr>
          in (case res of
                Some _ \<Rightarrow> sv1
              | None \<Rightarrow> publish now (floor_event ''floor_removed'' sessionName now) sv1))"

definition getAgentMutex :: "Supervisor \<Rightarrow> string \<Rightarrow> bool" where
  "getAgentMutex sv agentID \<longleftrightarrow> agentID \<in> agentMu sv"

definition drop_cooldown :: "string \<Rightarrow> Supervisor \<Rightarrow> Supervisor" where
  "drop_cooldown agentID sv = sv\<lparr>agentCooldown := (agentCooldown sv)(agentID := None)\<rparr>"

definition set_cooldown :: "string \<Rightarrow> gtime \<Rightarrow> Supervisor \<Rightarrow> Supervisor" where
  "set_cooldown agentID until sv = sv\<lparr>agentCooldown := (agentCooldown sv)(agentID \<mapsto> until)\<rparr>"

subsection \<open>Registration, removal, stop\<close>

definition RegisterAgent :: "gtime \<Rightarrow> string \<Rightarrow> Supervisor \<Rightarrow> goerror option \<times> Supervisor" where
  "RegisterAgent now agentID sv =
     (if \<not> valid_agent_id agentID then (Some ErrInvalidAgentID, sv)
      else if stopped sv then (Some ErrSupervisorStopped, sv)
      else (case SetAgentFields agentID (zeroAgentFields\<lparr>fState := StateIdle,
                   fLastHeartbeat := UnixMilli now, fRegisteredAt := UnixMilli now\<rparr>) (store sv) of
              Inl e \<Rightarrow> (Some (Errorf ''register agent %s: %w'' [agentID] e), sv)
            | Inr m \<Rightarrow>
                let sv1 = sv\<lparr>store := m\<rparr>
                in if stopped sv1 then (Some ErrSupervisorStopped, sv1)
                   else
                     let sv2 = sv1\<lparr>agentMu := insert agentID (agentMu sv1)\<rparr>;
                         sv3 = (case substrate sv2 of
                           None \<Rightarrow> sv2
                         | Some s \<Rightarrow>
                             let sessionName = ''agent-'' @ agentID;
                                 res = SpawnSession_res s (subCalls sv2) sessionName;
                                 sv2' = sv2\<lparr>subCalls := subCalls sv2 @ [SpawnSessionCall sessionName '''']\<rparr>
                             in (case res of
                                   Some _ \<Rightarrow> sv2'
                                 | None \<Rightarrow> publish now (floor_event ''floor_created'' sessionName now) sv2'))
                     in (None, publish now (agent_event ''agent_registered'' agentID now) sv3)))"

definition Stop :: "string map_order \<Rightarrow> gtime \<Rightarrow> Supervisor \<Rightarrow> Supervisor" where
  "Stop ord now sv =
     (let sv1 = sv\<lparr>stopped := True\<rparr>
      in if substrate sv1 = None then sv1
         else foldl (\<lambda>s agentID. destroy_session now agentID s) sv1 (ord (agentMu sv1)))"

definition RemoveAgent :: "gtime \<Rightarrow> string \<Rightarrow> Supervisor \<Rightarrow> Supervisor" where
  "RemoveAgent now agentID sv =
     destroy_session now agentID
       (sv\<lparr>agentMu := agentMu sv - {agentID}, agentCooldown := (agentCooldown sv)(agentID := None),
           circuitOpen := (circuitOpen sv)(agentID := None)\<rparr>)"

subsection \<open>Crash detection\<close>

text \<open>\<open>EnqueueTask\<close> with the error only logged: the task is lost then.\<close>

definition enqueue_logged :: "string \<Rightarrow> rat \<Rightarrow> Supervisor \<Rightarrow> Supervisor" where
  "enqueue_logged taskID priority sv =
     sv\<lparr>store := state_after (store sv) (EnqueueTask taskID priority (store sv))\<rparr>"

text \<open>The end of \<open>crashAgent\<close>: the policy's decision becomes a cooldown or an open circuit.\<close>

definition apply_decision :: "gtime \<Rightarrow> string \<Rightarrow> RestartDecision \<Rightarrow> Supervisor \<Rightarrow> Supervisor" where
  "apply_decision now agentID d sv =
     (if \<not> rdShouldRestart d
      then drop_cooldown agentID (sv\<lparr>circuitOpen := (circuitOpen sv)(agentID \<mapsto> True)\<rparr>)
      else if sint (rdBackoff d) > 0 then set_cooldown agentID (now + sint (rdBackoff d)) sv
      else drop_cooldown agentID sv)"

definition crashAgent :: "gtime \<Rightarrow> string \<Rightarrow> Supervisor \<Rightarrow> Supervisor" where
  "crashAgent now agentID sv =
     (if \<not> getAgentMutex sv agentID then sv
      else (case GetAgentFields (store sv) agentID of
              Inl _ \<Rightarrow> sv
            | Inr preFields \<Rightarrow>
                let sv1 = set_cooldown agentID (now + 24 * Hour) sv
                in (case Machine_ApplyEvent (store sv1) agentID EventAgentFailed of
                      Inl _ \<Rightarrow> drop_cooldown agentID sv1
                    | Inr (snap, m) \<Rightarrow>
                        let sv2 = sv1\<lparr>store := m\<rparr>
                        in if snPreviousState snap = StateIdle then drop_cooldown agentID sv2
                           else
                             let sv3 = publish now (agent_event EventAgentFailed agentID now) sv2;
                                 sv4 = (if fCurrentTaskID preFields \<noteq> ''''
                                        then enqueue_logged (fCurrentTaskID preFields)
                                               (fCurrentTaskPriority preFields) sv3
                                        else sv3);
                                 (decision, pol) = RecordCrash (policy sv4) now agentID;
                                 sv5 = apply_decision now agentID decision (sv4\<lparr>policy := pol\<rparr>)
                             in destroy_session now agentID sv5)))"

definition is_stale :: "gtime \<Rightarrow> Supervisor \<Rightarrow> AgentFields \<Rightarrow> bool" where
  "is_stale now sv fields0 \<longleftrightarrow>
     \<not> (UnixMilli now - fLastHeartbeat fields0 \<le> Milliseconds (staleThreshold sv))"

definition checkHeartbeats :: "string map_order \<Rightarrow> gtime \<Rightarrow> Supervisor \<Rightarrow> Supervisor" where
  "checkHeartbeats ord now sv =
     (case ListAgents ord (store sv) of
        Inl _ \<Rightarrow> sv
      | Inr ids \<Rightarrow>
          foldl (\<lambda>s agentID.
            case GetAgentFields (store s) agentID of
              Inl _ \<Rightarrow> s
            | Inr flds \<Rightarrow>
                if fState flds = StateIdle then s
                else if \<not> is_stale now s flds then s
                else crashAgent now agentID s) sv ids)"

subsection \<open>Assignment\<close>

definition recordAssignError :: "gtime \<Rightarrow> Supervisor \<Rightarrow> Supervisor" where
  "recordAssignError now sv =
     (let n = consecutiveAssignErrors sv + 1;
          shift = (if n > 6 then 6 else n)
      in sv\<lparr>consecutiveAssignErrors := n,
            nextAssignAttempt := now + taskPollInterval sv * 2 ^ nat shift\<rparr>)"

definition resetAssignBackoff :: "Supervisor \<Rightarrow> Supervisor" where
  "resetAssignBackoff sv = sv\<lparr>consecutiveAssignErrors := 0, nextAssignAttempt := 0\<rparr>"

definition circuit_is_open :: "Supervisor \<Rightarrow> string \<Rightarrow> bool" where
  "circuit_is_open sv agentID \<longleftrightarrow> circuitOpen sv agentID = Some True"

definition in_cooldown :: "gtime \<Rightarrow> Supervisor \<Rightarrow> string \<Rightarrow> bool" where
  "in_cooldown now sv agentID =
     (case agentCooldown sv agentID of None \<Rightarrow> False | Some expiry \<Rightarrow> now < expiry)"

text \<open>The snapshot and the re-check read the same maps here, since no other step runs in between.\<close>

definition findIdleAgent :: "string map_order \<Rightarrow> gtime \<Rightarrow> Supervisor \<Rightarrow> string option" where
  "findIdleAgent ord now sv =
     (case ListAgents ord (store sv) of
        Inl _ \<Rightarrow> None
      | Inr ids \<Rightarrow>
          find (\<lambda>agentID.
            (case GetAgentState (store sv) agentID of
               Inl _ \<Rightarrow> False
             | Inr stateStr \<Rightarrow>
                 stateStr = StateIdle \<and> \<not> circuit_is_open sv agentID \<and>
                 \<not> in_cooldown now sv agentID)) ids)"

text \<open>The event that announces an assignment; the description is best effort.\<close>

definition assigned_event :: "gtime \<Rightarrow> AgentSnapshot \<Rightarrow> string \<Rightarrow> MockStore \<Rightarrow> Event" where
  "assigned_event now snap taskID m =
     \<lparr>eType = EventTaskAssigned, eAgentID = snAgentID snap, eTaskID = taskID,
      eTimestamp = UnixMilli now,
      ePayload = (case GetTaskMeta m taskID of Inl _ \<Rightarrow> '''' | Inr meta \<Rightarrow> mDescription meta)\<rparr>"

text \<open>The section of \<open>tryAssignTask\<close> under the agent's mutex, and the event after it.\<close>

definition assign_locked :: "gtime \<Rightarrow> string \<Rightarrow> string \<Rightarrow> rat \<Rightarrow> Supervisor \<Rightarrow> Supervisor" where
  "assign_locked now agentID taskID priority sv =
     (case Machine_ApplyEvent (store sv) agentID EventTaskAssigned of
        Inl err \<Rightarrow>
          let sv1 = enqueue_logged taskID priority sv
          in if as_StateConflict err = None then recordAssignError now sv1 else sv1
      | Inr (snap, m) \<Rightarrow>
          let sv1 = sv\<lparr>store := m\<rparr>;
              sv2 = (case GetAgentFields (store sv1) agentID of
                Inr cur \<Rightarrow>
                  (case SetAgentFields agentID
                          (cur\<lparr>fCurrentTaskID := taskID, fCurrentTaskPriority := priority\<rparr>) (store sv1) of
                     Inl _ \<Rightarrow> recordAssignError now (enqueue_logged taskID priority sv1)
                   | Inr m' \<Rightarrow> resetAssignBackoff (sv1\<lparr>store := m'\<rparr>))
              | Inl _ \<Rightarrow> recordAssignError now (enqueue_logged taskID priority sv1))
          in publish now (assigned_event now snap taskID (store sv2)) sv2)"

definition assign_backing_off :: "gtime \<Rightarrow> Supervisor \<Rightarrow> bool" where
  "assign_backing_off now sv \<longleftrightarrow> \<not> IsZero (nextAssignAttempt sv) \<and> now < nextAssignAttempt sv"

definition tryAssignTask :: "string map_order \<Rightarrow> gtime \<Rightarrow> Supervisor \<Rightarrow> Supervisor" where
  "tryAssignTask ord now sv =
     (if assign_backing_off now sv then sv
      else (case DequeueTask (store sv) of
              Inl err \<Rightarrow> if errors_Is err ErrQueueEmpty then sv else recordAssignError now sv
            | Inr (taskID, priority, m) \<Rightarrow>
                let sv1 = sv\<lparr>store := m\<rparr>
                in (case findIdleAgent ord now sv1 of
                      None \<Rightarrow> enqueue_logged taskID priority sv1
                    | Some agentID \<Rightarrow>
                        if \<not> getAgentMutex sv1 agentID then enqueue_logged taskID priority sv1
                        else assign_locked now agentID taskID priority sv1)))"

subsection \<open>Calls by the agents\<close>

definition Heartbeat :: "gtime \<Rightarrow> string \<Rightarrow> Supervisor \<Rightarrow> goerror option \<times> Supervisor" where
  "Heartbeat now agentID sv =
     (if \<not> valid_agent_id agentID then (Some ErrInvalidAgentID, sv)
      else if stopped sv then (Some ErrSupervisorStopped, sv)
      else if \<not> getAgentMutex sv agentID then (Some ErrSupervisorStopped, sv)
      else (case GetAgentFields (store sv) agentID of
              Inl e \<Rightarrow> (Some (Errorf ''heartbeat agent %s: %w'' [agentID] e), sv)
            | Inr flds \<Rightarrow>
              (case SetAgentFields agentID (flds\<lparr>fLastHeartbeat := UnixMilli now\<rparr>) (store sv) of
                 Inl e \<Rightarrow> (Some (Errorf ''heartbeat agent %s: %w'' [agentID] e), sv)
               | Inr m \<Rightarrow> (None, sv\<lparr>store := m\<rparr>))))"

text \<open>\<open>StartWork\<close> and \<open>ReportOutput\<close> differ in the event only.\<close>

definition apply_and_publish ::
  "gtime \<Rightarrow> string \<Rightarrow> string \<Rightarrow> Supervisor \<Rightarrow> goerror option \<times> Supervisor" where
  "apply_and_publish now agentID ev sv =
     (case Machine_ApplyEvent (store sv) agentID ev of
        Inl e \<Rightarrow> (Some e, sv)
      | Inr (snap, m) \<Rightarrow>
          if \<not> getAgentMutex sv agentID then (None, sv\<lparr>store := m\<rparr>)
          else (None, publish now (agent_event ev (snAgentID snap) now) (sv\<lparr>store := m\<rparr>)))"

definition StartWork :: "gtime \<Rightarrow> string \<Rightarrow> Supervisor \<Rightarrow> goerror option \<times> Supervisor" where
  "StartWork now agentID sv =
     (if \<not> valid_agent_id agentID then (Some ErrInvalidAgentID, sv)
      else apply_and_publish now agentID EventWorkStarted sv)"

definition ReportOutput :: "gtime \<Rightarrow> string \<Rightarrow> Supervisor \<Rightarrow> goerror option \<times> Supervisor" where
  "ReportOutput now agentID sv =
     (if \<not> valid_agent_id agentID then (Some ErrInvalidAgentID, sv)
      else apply_and_publish now agentID EventOutputReady sv)"

text \<open>Which task \<open>completeAgent\<close> signals: the store's, unless the store has none or cannot tell.\<close>

definition signalled_task :: "string \<Rightarrow> goerror + AgentFields \<Rightarrow> string" where
  "signalled_task taskID res =
     (case res of
        Inl _ \<Rightarrow> taskID
      | Inr flds \<Rightarrow>
          if fCurrentTaskID flds = '''' then taskID
          else if taskID = '''' \<or> taskID = fCurrentTaskID flds then fCurrentTaskID flds
          else fCurrentTaskID flds)"

definition signal_completion :: "gtime \<Rightarrow> string \<Rightarrow> string \<Rightarrow> Supervisor \<Rightarrow> Supervisor" where
  "signal_completion now agentID taskID sv =
     (case completionRegistry sv of
        None \<Rightarrow> sv
      | Some reg \<Rightarrow>
          let tid = signalled_task taskID (GetAgentFields (store sv) agentID)
          in if tid \<noteq> '''' then sv\<lparr>completionRegistry := Some (Complete now tid reg)\<rparr> else sv)"

definition completeAgent ::
  "gtime \<Rightarrow> string \<Rightarrow> string \<Rightarrow> Supervisor \<Rightarrow> goerror option \<times> Supervisor" where
  "completeAgent now agentID taskID sv =
     (if \<not> getAgentMutex sv agentID then (Some ErrSupervisorStopped, sv)
      else (case Machine_ApplyEvent (store sv) agentID EventOutputDelivered of
              Inl e \<Rightarrow> (Some e, sv)
            | Inr (snap, m) \<Rightarrow>
                let sv1 = publish now (agent_event EventOutputDelivered (snAgentID snap) now)
                            (sv\<lparr>store := m\<rparr>);
                    sv2 = sv1\<lparr>policy := RecordSuccess (policy sv1) agentID\<rparr>;
                    sv3 = signal_completion now agentID taskID sv2;
                    sv4 = sv3\<lparr>store := state_after (store sv3) (ClearCurrentTask agentID (store sv3))\<rparr>
                in (None, sv4\<lparr>agentCooldown := (agentCooldown sv4)(agentID := None),
                              circuitOpen := (circuitOpen sv4)(agentID := None)\<rparr>)))"

definition CompleteAgent ::
  "gtime \<Rightarrow> string \<Rightarrow> string \<Rightarrow> Supervisor \<Rightarrow> goerror option \<times> Supervisor" where
  "CompleteAgent now agentID taskID sv = completeAgent now agentID taskID sv"

subsection \<open>The reaper\<close>

definition TrimPrefix :: "string \<Rightarrow> string \<Rightarrow> string" where
  "TrimPrefix s pre = (if take (length pre) s = pre then drop (length pre) s else s)"

definition live_agents :: "Session list \<Rightarrow> string set" where
  "live_agents sessions =
     set (map (\<lambda>s. TrimPrefix (sName s) sessionPrefix)
       (filter (\<lambda>s. TrimPrefix (sName s) sessionPrefix \<noteq> sName s) sessions))"

definition agentIsTooYoungToReap :: "gtime \<Rightarrow> Supervisor \<Rightarrow> string \<Rightarrow> bool" where
  "agentIsTooYoungToReap now sv agentID =
     (case GetAgentFields (store sv) agentID of
        Inl _ \<Rightarrow> True
      | Inr flds \<Rightarrow>
          if fRegisteredAt flds = 0 then False
          else UnixMilli now - fRegisteredAt flds < Milliseconds (reapInterval sv))"

definition reapAgent :: "gtime \<Rightarrow> string \<Rightarrow> Supervisor \<Rightarrow> Supervisor" where
  "reapAgent now agentID sv =
     (let sv1 = RemoveAgent now agentID sv;
          sv2 = sv1\<lparr>store := state_after (store sv1) (DeleteAgent agentID (store sv1))\<rparr>
      in publish now (agent_event ''agent_deregistered'' agentID now) sv2)"

definition reapOrphanedAgents :: "string map_order \<Rightarrow> gtime \<Rightarrow> Supervisor \<Rightarrow> Supervisor" where
  "reapOrphanedAgents ord now sv =
     (case substrate sv of
        None \<Rightarrow> sv
      | Some s \<Rightarrow>
          let sv1 = sv\<lparr>subCalls := subCalls sv @ [ListSessionsCall]\<rparr>
          in (case ListSessions_res s (subCalls sv) of
                Inl _ \<Rightarrow> sv1
              | Inr sessions \<Rightarrow>
                  (case ListAgents ord (store sv1) of
                     Inl _ \<Rightarrow> sv1
                   | Inr ids \<Rightarrow>
                       foldl (\<lambda>s' agentID.
                         if agentID \<in> live_agents sessions then s'
                         else if agentIsTooYoungToReap now s' agentID then s'
                         else reapAgent now agentID s') sv1 ids)))"

subsection \<open>The hooks of the end-to-end tests (export_e2e.go)\<close>

definition CrashAgentForTest :: "gtime \<Rightarrow> string \<Rightarrow> Supervisor \<Rightarrow> Supervisor" where
  "CrashAgentForTest now agentID sv = crashAgent now agentID sv"

definition CompleteAgentForTest :: "gtime \<Rightarrow> string \<Rightarrow> Supervisor \<Rightarrow> goerror option \<times> Supervisor" where
  "CompleteAgentForTest now agentID sv = completeAgent now agentID '''' sv"

definition CompleteAgentForTestWithTask ::
  "gtime \<Rightarrow> string \<Rightarrow> string \<Rightarrow> Supervisor \<Rightarrow> goerror option \<times> Supervisor" where
  "CompleteAgentForTestWithTask now agentID taskID sv = completeAgent now agentID taskID sv"

definition ApplyEventForTest :: "string \<Rightarrow> string \<Rightarrow> Supervisor \<Rightarrow> (goerror + AgentSnapshot) \<times> Supervisor" where
  "ApplyEventForTest agentID ev sv =
     (case Machine_ApplyEvent (store sv) agentID ev of
        Inl e \<Rightarrow> (Inl e, sv)
      | Inr (snap, m) \<Rightarrow> (Inr snap, sv\<lparr>store := m\<rparr>))"

definition SubstrateForTest :: "Supervisor \<Rightarrow> Substrate option" where
  "SubstrateForTest sv = substrate sv"

subsection \<open>What the shared pieces change\<close>

text \<open>A store none of whose injected errors is set.\<close>

definition healthy :: "MockStore \<Rightarrow> bool" where
  "healthy m \<longleftrightarrow> getAgentFieldsErr m = None \<and> setAgentFieldsErr m = None \<and>
     getAgentFieldsByAgent m = Map.empty \<and> setAgentFieldsByAgent m = Map.empty \<and>
     enqueueTaskErr m = None \<and> dequeueTaskErr m = None \<and> clearCurrentTaskErr m = None \<and>
     compareAndSetErr m = None \<and> deleteAgentErr m = None"

lemma healthy_frame [simp]:
  "healthy (m\<lparr>agents := a\<rparr>) = healthy m" "healthy (m\<lparr>queue := q\<rparr>) = healthy m"
  "healthy (m\<lparr>taskMeta := x\<rparr>) = healthy m"
  by (simp_all add: healthy_def)

lemma healthy_ops:
  assumes "healthy m"
  shows "GetAgentFields m a = (case agents m a of None \<Rightarrow> Inl ErrAgentNotFound | Some r \<Rightarrow> Inr r)"
    and "SetAgentFields a f m = Inr (m\<lparr>agents := (agents m)(a \<mapsto> f)\<rparr>)"
    and "EnqueueTask t p m = Inr (m\<lparr>queue := sort_key qPriority
           (queue m @ [\<lparr>qTaskID = t, qPriority = p\<rparr>])\<rparr>)"
    and "ClearCurrentTask a m = (case agents m a of None \<Rightarrow> Inl ErrAgentNotFound
         | Some r \<Rightarrow> Inr (m\<lparr>agents := (agents m)(a \<mapsto>
             r\<lparr>fCurrentTaskID := '''', fCurrentTaskPriority := 0\<rparr>)\<rparr>))"
    and "DeleteAgent a m = Inr (m\<lparr>agents := (agents m)(a := None)\<rparr>)"
  using assms
  by (simp_all add: healthy_def GetAgentFields_def SetAgentFields_def EnqueueTask_def
      EnqueueTaskWithMeta_def ClearCurrentTask_def DeleteAgent_def zeroTaskMeta_def
      TaskMeta_IsZero_def Let_def)

lemma PublishEvent_store [simp]:
  "agents (state_after m (PublishEvent now ev m)) = agents m"
  "queue (state_after m (PublishEvent now ev m)) = queue m"
  "taskMeta (state_after m (PublishEvent now ev m)) = taskMeta m"
  "healthy (state_after m (PublishEvent now ev m)) = healthy m"
  by (simp_all add: PublishEvent_def Let_def healthy_def)

lemma publish_simps [simp]:
  "agents (store (publish now ev sv)) = agents (store sv)"
  "queue (store (publish now ev sv)) = queue (store sv)"
  "healthy (store (publish now ev sv)) = healthy (store sv)"
  "agentMu (publish now ev sv) = agentMu sv"
  "agentCooldown (publish now ev sv) = agentCooldown sv"
  "circuitOpen (publish now ev sv) = circuitOpen sv"
  "policy (publish now ev sv) = policy sv"
  "substrate (publish now ev sv) = substrate sv"
  "completionRegistry (publish now ev sv) = completionRegistry sv"
  "stopped (publish now ev sv) = stopped sv"
  by (simp_all add: publish_def)

lemma destroy_session_simps [simp]:
  "agents (store (destroy_session now a sv)) = agents (store sv)"
  "queue (store (destroy_session now a sv)) = queue (store sv)"
  "healthy (store (destroy_session now a sv)) = healthy (store sv)"
  "agentMu (destroy_session now a sv) = agentMu sv"
  "agentCooldown (destroy_session now a sv) = agentCooldown sv"
  "circuitOpen (destroy_session now a sv) = circuitOpen sv"
  "policy (destroy_session now a sv) = policy sv"
  "substrate (destroy_session now a sv) = substrate sv"
  "completionRegistry (destroy_session now a sv) = completionRegistry sv"
  "stopped (destroy_session now a sv) = stopped sv"
  by (simp_all add: destroy_session_def Let_def split: option.split)

lemma cooldown_simps [simp]:
  "store (drop_cooldown a sv) = store sv" "store (set_cooldown a t sv) = store sv"
  "agentMu (drop_cooldown a sv) = agentMu sv" "agentMu (set_cooldown a t sv) = agentMu sv"
  "policy (drop_cooldown a sv) = policy sv" "policy (set_cooldown a t sv) = policy sv"
  "circuitOpen (drop_cooldown a sv) = circuitOpen sv"
  "circuitOpen (set_cooldown a t sv) = circuitOpen sv"
  "agentCooldown (drop_cooldown a sv) = (agentCooldown sv)(a := None)"
  "agentCooldown (set_cooldown a t sv) = (agentCooldown sv)(a \<mapsto> t)"
  "completionRegistry (drop_cooldown a sv) = completionRegistry sv"
  "completionRegistry (set_cooldown a t sv) = completionRegistry sv"
  by (simp_all add: drop_cooldown_def set_cooldown_def)

lemma apply_decision_simps [simp]:
  "store (apply_decision now a d sv) = store sv"
  "agentMu (apply_decision now a d sv) = agentMu sv"
  "policy (apply_decision now a d sv) = policy sv"
  "completionRegistry (apply_decision now a d sv) = completionRegistry sv"
  by (simp_all add: apply_decision_def)

lemma backoff_simps [simp]:
  "store (recordAssignError now sv) = store sv" "store (resetAssignBackoff sv) = store sv"
  "agentMu (recordAssignError now sv) = agentMu sv" "agentMu (resetAssignBackoff sv) = agentMu sv"
  "circuitOpen (recordAssignError now sv) = circuitOpen sv"
  "circuitOpen (resetAssignBackoff sv) = circuitOpen sv"
  "agentCooldown (recordAssignError now sv) = agentCooldown sv"
  "agentCooldown (resetAssignBackoff sv) = agentCooldown sv"
  by (simp_all add: recordAssignError_def resetAssignBackoff_def Let_def)

text \<open>The machine on a healthy store, as an update of one agent's record.\<close>

lemma Machine_healthy:
  assumes "healthy m" and "agents m a = Some r" and "fState r \<in> agent_states"
    and "ValidTransition (fState r) ev = Inr t"
  shows "Machine_ApplyEvent m a ev =
    Inr (\<lparr>snAgentID = a, snPreviousState = fState r, snState = t, snEvent = ev\<rparr>,
         m\<lparr>agents := (agents m)(a \<mapsto> r\<lparr>fState := t\<rparr>)\<rparr>)"
  unfolding Machine_ApplyEvent_Inr using assms by (auto simp: healthy_def)

text \<open>Finding an idle agent: what the choice guarantees, and when there is none.\<close>

definition assignable :: "gtime \<Rightarrow> Supervisor \<Rightarrow> string \<Rightarrow> bool" where
  "assignable now sv a \<longleftrightarrow> (\<exists>r. agents (store sv) a = Some r \<and> fState r = StateIdle) \<and>
     \<not> circuit_is_open sv a \<and> \<not> in_cooldown now sv a"

lemma findIdleAgent_find:
  "findIdleAgent ord now sv = find (assignable now sv) (ord (dom (agents (store sv))))"
proof -
  have "(\<lambda>agentID. case GetAgentState (store sv) agentID of Inl _ \<Rightarrow> False
      | Inr stateStr \<Rightarrow> stateStr = StateIdle \<and> \<not> circuit_is_open sv agentID \<and>
          \<not> in_cooldown now sv agentID) = assignable now sv"
    by (auto simp: assignable_def GetAgentState_def fun_eq_iff split: option.splits)
  then show ?thesis by (simp add: findIdleAgent_def ListAgents_def)
qed

lemma findIdleAgent_Some: "findIdleAgent ord now sv = Some a \<Longrightarrow> assignable now sv a"
  unfolding findIdleAgent_find find_Some_iff by auto

lemma findIdleAgent_None:
  assumes "fair_order ord" and "finite (dom (agents (store sv)))"
  shows "findIdleAgent ord now sv = None \<longleftrightarrow> (\<forall>a. \<not> assignable now sv a)"
  unfolding findIdleAgent_find find_None_iff
  using assms by (auto simp: assignable_def)

subsection \<open>The handlers on a healthy store\<close>

definition requeue :: "AgentFields \<Rightarrow> queueItem list \<Rightarrow> queueItem list" where
  "requeue r q =
     (if fCurrentTaskID r = '''' then q
      else sort_key qPriority (q @ [\<lparr>qTaskID = fCurrentTaskID r, qPriority = fCurrentTaskPriority r\<rparr>]))"

lemma enqueue_logged_healthy:
  assumes "healthy (store sv)"
  shows "enqueue_logged t p sv = sv\<lparr>store := (store sv)\<lparr>queue := sort_key qPriority
    (queue (store sv) @ [\<lparr>qTaskID = t, qPriority = p\<rparr>])\<rparr>\<rparr>"
  using assms by (simp add: enqueue_logged_def healthy_ops)

text \<open>A crash of an idle agent changes nothing but its cooldown, which is lost.\<close>

lemma crashAgent_idle:
  assumes "healthy (store sv)" and "a \<in> agentMu sv" and "agents (store sv) a = Some r"
    and "fState r = StateIdle"
  shows "crashAgent now a sv = drop_cooldown a sv"
proof -
  have "Machine_ApplyEvent (store sv) a EventAgentFailed =
      Inr (\<lparr>snAgentID = a, snPreviousState = StateIdle, snState = StateIdle,
            snEvent = EventAgentFailed\<rparr>, (store sv)\<lparr>agents := (agents (store sv))(a \<mapsto> r\<lparr>fState := StateIdle\<rparr>)\<rparr>)"
    using Machine_healthy [OF assms(1,3), of EventAgentFailed StateIdle] assms(4)
    by (simp add: agent_states_def)
  moreover have "(agents (store sv))(a \<mapsto> r\<lparr>fState := StateIdle\<rparr>) = agents (store sv)"
    using assms(3,4) by (simp add: fun_upd_idem)
  ultimately show ?thesis
    using assms(1-3)
    by (simp add: crashAgent_def getAgentMutex_def healthy_ops Let_def drop_cooldown_def
        set_cooldown_def)
qed

text \<open>A crash of an agent at work: its task goes back to the queue, the agent becomes idle, and the
  restart policy decides.\<close>

lemma crashAgent_working:
  assumes "healthy (store sv)" and "a \<in> agentMu sv" and "agents (store sv) a = Some r"
    and "fState r \<in> agent_states" and "fState r \<noteq> StateIdle"
  shows "agents (store (crashAgent now a sv)) = (agents (store sv))(a \<mapsto> r\<lparr>fState := StateIdle\<rparr>)"
    and "queue (store (crashAgent now a sv)) = requeue r (queue (store sv))"
    and "healthy (store (crashAgent now a sv))"
    and "agentMu (crashAgent now a sv) = agentMu sv"
    and "policy (crashAgent now a sv) = snd (RecordCrash (policy sv) now a)"
    and "circuitOpen (crashAgent now a sv) =
      (if rdShouldRestart (fst (RecordCrash (policy sv) now a)) then circuitOpen sv
       else (circuitOpen sv)(a \<mapsto> True))"
    and "agentCooldown (crashAgent now a sv) =
      (let d = fst (RecordCrash (policy sv) now a)
       in if rdShouldRestart d \<and> sint (rdBackoff d) > 0
          then (agentCooldown sv)(a \<mapsto> now + sint (rdBackoff d)) else (agentCooldown sv)(a := None))"
proof -
  have m: "Machine_ApplyEvent (store sv) a EventAgentFailed =
      Inr (\<lparr>snAgentID = a, snPreviousState = fState r, snState = StateIdle,
            snEvent = EventAgentFailed\<rparr>, (store sv)\<lparr>agents := (agents (store sv))(a \<mapsto> r\<lparr>fState := StateIdle\<rparr>)\<rparr>)"
    using Machine_healthy [OF assms(1,3,4), of EventAgentFailed StateIdle] by simp
  note unfolded = crashAgent_def getAgentMutex_def healthy_ops Let_def m enqueue_logged_healthy
    requeue_def apply_decision_def drop_cooldown_def set_cooldown_def
  show "agents (store (crashAgent now a sv)) = (agents (store sv))(a \<mapsto> r\<lparr>fState := StateIdle\<rparr>)"
    "queue (store (crashAgent now a sv)) = requeue r (queue (store sv))"
    "healthy (store (crashAgent now a sv))" "agentMu (crashAgent now a sv) = agentMu sv"
    "policy (crashAgent now a sv) = snd (RecordCrash (policy sv) now a)"
    "circuitOpen (crashAgent now a sv) =
      (if rdShouldRestart (fst (RecordCrash (policy sv) now a)) then circuitOpen sv
       else (circuitOpen sv)(a \<mapsto> True))"
    "agentCooldown (crashAgent now a sv) =
      (let d = fst (RecordCrash (policy sv) now a)
       in if rdShouldRestart d \<and> sint (rdBackoff d) > 0
          then (agentCooldown sv)(a \<mapsto> now + sint (rdBackoff d)) else (agentCooldown sv)(a := None))"
    using assms by (auto simp: unfolded split: prod.splits)
qed

lemma crashAgent_unregistered: "a \<notin> agentMu sv \<Longrightarrow> crashAgent now a sv = sv"
  by (simp add: crashAgent_def getAgentMutex_def)

lemma crashAgent_unknown:
  "healthy (store sv) \<Longrightarrow> agents (store sv) a = None \<Longrightarrow> crashAgent now a sv = sv"
  by (simp add: crashAgent_def healthy_ops)

text \<open>What holds of a crash whatever the agent's state.\<close>

lemma crashAgent_agents:
  assumes "healthy (store sv)" and "states_ok (store sv)"
  shows "agents (store (crashAgent now a sv)) b =
      (if b = a \<and> a \<in> agentMu sv then map_option (\<lambda>r. r\<lparr>fState := StateIdle\<rparr>) (agents (store sv) a)
       else agents (store sv) b)"
    and "healthy (store (crashAgent now a sv))" and "agentMu (crashAgent now a sv) = agentMu sv"
    and "states_ok (store (crashAgent now a sv))"
proof -
  have "agents (store (crashAgent now a sv)) =
      (if a \<in> agentMu sv
       then (agents (store sv))(a := map_option (\<lambda>r. r\<lparr>fState := StateIdle\<rparr>) (agents (store sv) a))
       else agents (store sv)) \<and>
    healthy (store (crashAgent now a sv)) \<and> agentMu (crashAgent now a sv) = agentMu sv"
  proof (cases "a \<in> agentMu sv \<and> agents (store sv) a \<noteq> None")
    case True
    then obtain r where r: "agents (store sv) a = Some r" by auto
    then show ?thesis
      using True assms states_okD [OF assms(2) r] crashAgent_idle [OF assms(1) _ r]
        crashAgent_working [OF assms(1) _ r]
      by (cases "fState r = StateIdle") (auto simp: fun_upd_idem)
  next
    case False
    then show ?thesis
      using assms by (auto simp: crashAgent_unregistered crashAgent_unknown fun_upd_idem)
  qed
  then show "agents (store (crashAgent now a sv)) b =
      (if b = a \<and> a \<in> agentMu sv then map_option (\<lambda>r. r\<lparr>fState := StateIdle\<rparr>) (agents (store sv) a)
       else agents (store sv) b)"
    "healthy (store (crashAgent now a sv))" "agentMu (crashAgent now a sv) = agentMu sv"
    "states_ok (store (crashAgent now a sv))"
    using assms(2) by (auto simp: states_ok_def ran_def agent_states_def split: if_splits)
qed

text \<open>Assignment: the locked section on a healthy store.\<close>

lemma assign_locked_idle:
  assumes "healthy (store sv)" and "agents (store sv) a = Some r" and "fState r = StateIdle"
  shows "agents (store (assign_locked now a t p sv)) = (agents (store sv))(a \<mapsto>
      r\<lparr>fState := StateAssigned, fCurrentTaskID := t, fCurrentTaskPriority := p\<rparr>)"
    and "queue (store (assign_locked now a t p sv)) = queue (store sv)"
    and "healthy (store (assign_locked now a t p sv))"
    and "agentMu (assign_locked now a t p sv) = agentMu sv"
proof -
  have m: "Machine_ApplyEvent (store sv) a EventTaskAssigned =
      Inr (\<lparr>snAgentID = a, snPreviousState = StateIdle, snState = StateAssigned,
            snEvent = EventTaskAssigned\<rparr>, (store sv)\<lparr>agents := (agents (store sv))(a \<mapsto> r\<lparr>fState := StateAssigned\<rparr>)\<rparr>)"
    using Machine_healthy [OF assms(1,2), of EventTaskAssigned StateAssigned] assms(3)
    by (simp add: agent_states_def)
  show "agents (store (assign_locked now a t p sv)) = (agents (store sv))(a \<mapsto>
      r\<lparr>fState := StateAssigned, fCurrentTaskID := t, fCurrentTaskPriority := p\<rparr>)"
    "queue (store (assign_locked now a t p sv)) = queue (store sv)"
    "healthy (store (assign_locked now a t p sv))"
    "agentMu (assign_locked now a t p sv) = agentMu sv"
    using assms by (simp_all add: assign_locked_def m healthy_ops Let_def)
qed

lemma assign_locked_refused:
  assumes "healthy (store sv)"
    and "agents (store sv) a = None \<or> (\<exists>r. agents (store sv) a = Some r \<and> fState r \<noteq> StateIdle)"
  shows "agents (store (assign_locked now a t p sv)) = agents (store sv)"
    and "queue (store (assign_locked now a t p sv)) =
      sort_key qPriority (queue (store sv) @ [\<lparr>qTaskID = t, qPriority = p\<rparr>])"
    and "healthy (store (assign_locked now a t p sv))"
    and "agentMu (assign_locked now a t p sv) = agentMu sv"
proof -
  have "\<nexists>x. Machine_ApplyEvent (store sv) a EventTaskAssigned = Inr x"
  proof clarify
    fix snap m assume m: "Machine_ApplyEvent (store sv) a EventTaskAssigned = Inr (snap, m)"
    then obtain r s where "agents (store sv) a = Some r"
      "ValidTransition (fState r) EventTaskAssigned = Inr s"
      unfolding Machine_ApplyEvent_Inr by blast
    then show False using assms(2) ValidTransition_cases by (fastforce simp: event_defs)
  qed
  then obtain e where e: "Machine_ApplyEvent (store sv) a EventTaskAssigned = Inl e"
    by (cases "Machine_ApplyEvent (store sv) a EventTaskAssigned") auto
  show "agents (store (assign_locked now a t p sv)) = agents (store sv)"
    "queue (store (assign_locked now a t p sv)) =
      sort_key qPriority (queue (store sv) @ [\<lparr>qTaskID = t, qPriority = p\<rparr>])"
    "healthy (store (assign_locked now a t p sv))"
    "agentMu (assign_locked now a t p sv) = agentMu sv"
    using assms(1) by (simp_all add: assign_locked_def e Let_def enqueue_logged_healthy)
qed

subsection \<open>Properties\<close>

lemma assign_locked_changes:
  assumes "agents (store (assign_locked now a t p sv)) b \<noteq> agents (store sv) b"
  shows "b = a \<and> (\<exists>r. agents (store sv) a = Some r \<and> agents (store (assign_locked now a t p sv)) a \<in>
      {Some (r\<lparr>fState := StateAssigned\<rparr>),
       Some (r\<lparr>fState := StateAssigned, fCurrentTaskID := t, fCurrentTaskPriority := p\<rparr>)})"
proof -
  have eq: "agents (store (enqueue_logged t p sv)) = agents (store sv)" for sv
    by (auto simp: enqueue_logged_def EnqueueTask_def EnqueueTaskWithMeta_def Let_def split: option.splits)
  obtain snap m where m: "Machine_ApplyEvent (store sv) a EventTaskAssigned = Inr (snap, m)"
    using assms by (cases "Machine_ApplyEvent (store sv) a EventTaskAssigned")
      (auto simp: assign_locked_def Let_def eq split: if_splits)
  then obtain r where r: "agents (store sv) a = Some r"
    and m': "m = (store sv)\<lparr>agents := (agents (store sv))(a \<mapsto> r\<lparr>fState := StateAssigned\<rparr>)\<rparr>"
    unfolding Machine_ApplyEvent_Inr by (auto dest!: ValidTransition_cases simp: event_defs)
  show ?thesis
    using assms r unfolding m'
    by (auto simp: assign_locked_def m m' Let_def eq GetAgentFields_def SetAgentFields_def
        split: option.splits if_splits)
qed


definition demo_supervisor :: Supervisor where
  "demo_supervisor = (NewSupervisor
     (NewMockStore\<lparr>agents := [''a1'' \<mapsto> (demo_agent StateIdle)\<lparr>fCurrentTaskID := ''''\<rparr>],
                   queue := [\<lparr>qTaskID = ''t9'', qPriority = 4\<rparr>]\<rparr>)
     (NewRestartPolicy []) [])\<lparr>agentMu := {''a1''}\<rparr>"

lemma demo_supervisor_assigns:
  "agents (store (tryAssignTask sorted_list_of_set 7 demo_supervisor)) ''a1'' =
     Some ((demo_agent StateAssigned)\<lparr>fCurrentTaskID := ''t9'', fCurrentTaskPriority := 4\<rparr>)"
  by (simp add: tryAssignTask_def demo_supervisor_def NewSupervisor_def NewMockStore_def
      assign_backing_off_def IsZero_def DequeueTask_def findIdleAgent_find assignable_def
      circuit_is_open_def in_cooldown_def getAgentMutex_def assign_locked_idle healthy_def demo_agent_def)


text \<open>
  C20. A crash takes the agent out of service as the restart policy decides: after the crash of a
  registered agent at work, on a healthy store, the agent is idle in the store but is not assignable
  until the back-off has passed, and never while its circuit is open; the agent's task is back in
  the queue with its priority; no other agent becomes or stops being assignable.
\<close>

theorem crash_takes_out_of_service:
  assumes "healthy (store sv)" and "a \<in> agentMu sv" and "agents (store sv) a = Some r"
    and "fState r \<in> agent_states" and "fState r \<noteq> StateIdle"
    and "d = fst (RecordCrash (policy sv) now a)" and "sv' = crashAgent now a sv"
  shows "agents (store sv') a = Some (r\<lparr>fState := StateIdle\<rparr>) \<and>
    queue (store sv') = requeue r (queue (store sv)) \<and>
    (\<forall>later. (\<not> rdShouldRestart d \<longrightarrow> \<not> assignable later sv' a) \<and>
             (rdShouldRestart d \<and> later < now + sint (rdBackoff d) \<and> 0 < sint (rdBackoff d) \<longrightarrow>
                \<not> assignable later sv' a) \<and>
             (\<forall>b. b \<noteq> a \<longrightarrow> assignable later sv' b = assignable later sv b))"
  using crashAgent_working [OF assms(1-5), of now] unfolding assms(6,7)
  by (auto simp: assignable_def circuit_is_open_def in_cooldown_def Let_def)

definition demo_busy :: Supervisor where
  "demo_busy = demo_supervisor\<lparr>store := (store demo_supervisor)\<lparr>agents :=
     [''a1'' \<mapsto> demo_agent StateWorking]\<rparr>\<rparr>"

lemma demo_busy_facts: "healthy (store demo_busy)" "''a1'' \<in> agentMu demo_busy"
  "agents (store demo_busy) ''a1'' = Some (demo_agent StateWorking)"
  "fState (demo_agent StateWorking) \<in> agent_states" "fState (demo_agent StateWorking) \<noteq> StateIdle"
  by (simp_all add: demo_busy_def demo_supervisor_def NewSupervisor_def healthy_def NewMockStore_def
      demo_agent_def agent_states_def state_defs)

theorem crash_takes_out_of_service_witness:
  "map qTaskID (queue (store (crashAgent 5 ''a1'' demo_busy))) = [''t1'', ''t9''] \<and>
   \<not> assignable 6 (crashAgent 5 ''a1'' demo_busy) ''a1''"
proof -
  have b: "sint (rdBackoff (fst (RecordCrash (policy demo_busy) 5 ''a1''))) = 1000000000"
    "rdShouldRestart (fst (RecordCrash (policy demo_busy) 5 ''a1''))"
    by (simp_all add: demo_busy_def demo_supervisor_def NewSupervisor_def RecordCrash_def
        NewRestartPolicy_def crashes_of_def consecutive_of_def Let_def computeBackoff_def
        Second_def Millisecond_def)
  show ?thesis
    using crash_takes_out_of_service [OF demo_busy_facts refl refl, of 5] b
    by (simp add: requeue_def demo_agent_def demo_busy_def demo_supervisor_def NewSupervisor_def)
qed

text \<open>
  A finding. A crash report for an agent that is already idle (the race the code's guard is
  for) is meant to leave no trace, but the sentinel overwrites a cooldown the agent is serving and
  its removal ends that cooldown at once: the agent becomes assignable before its back-off is over.
\<close>

theorem spurious_crash_ends_cooldown:
  assumes "healthy (store sv)" and "a \<in> agentMu sv" and "agents (store sv) a = Some r"
    and "fState r = StateIdle" and "\<not> circuit_is_open sv a"
    and "agentCooldown sv a = Some expiry" and "now < expiry"
  shows "\<not> assignable now sv a \<and> assignable now (crashAgent now a sv) a"
  using assms crashAgent_idle [OF assms(1-4), of now]
  by (simp add: assignable_def in_cooldown_def circuit_is_open_def)

theorem spurious_crash_ends_cooldown_witness:
  "assignable 3 (crashAgent 3 ''a1'' (set_cooldown ''a1'' 1000 demo_supervisor)) ''a1''"
proof -
  let ?sv = "set_cooldown ''a1'' 1000 demo_supervisor"
  have "healthy (store ?sv)" "''a1'' \<in> agentMu ?sv"
    "agents (store ?sv) ''a1'' = Some ((demo_agent StateIdle)\<lparr>fCurrentTaskID := ''''\<rparr>)"
    "fState ((demo_agent StateIdle)\<lparr>fCurrentTaskID := ''''\<rparr>) = StateIdle"
    "\<not> circuit_is_open ?sv ''a1''" "agentCooldown ?sv ''a1'' = Some 1000" "(3 :: int) < 1000"
    by (simp_all add: demo_supervisor_def NewSupervisor_def healthy_def NewMockStore_def
        demo_agent_def circuit_is_open_def)
  then show ?thesis using spurious_crash_ends_cooldown [of ?sv "''a1''" _ 1000 3] by blast
qed

text \<open>The sweep of \<open>checkHeartbeats\<close> over distinct agents, one at a time.\<close>

definition heartbeat_check :: "gtime \<Rightarrow> Supervisor \<Rightarrow> string \<Rightarrow> Supervisor" where
  "heartbeat_check now s agentID =
     (case GetAgentFields (store s) agentID of
        Inl _ \<Rightarrow> s
      | Inr flds \<Rightarrow>
          if fState flds = StateIdle then s
          else if \<not> is_stale now s flds then s
          else crashAgent now agentID s)"

lemma checkHeartbeats_foldl:
  "checkHeartbeats ord now sv = foldl (heartbeat_check now) sv (ord (dom (agents (store sv))))"
  by (simp add: checkHeartbeats_def ListAgents_def heartbeat_check_def [abs_def])

lemma crashAgent_threshold [simp]: "staleThreshold (crashAgent now a sv) = staleThreshold sv"
  by (auto simp: crashAgent_def Let_def publish_def enqueue_logged_def destroy_session_def
      apply_decision_def drop_cooldown_def set_cooldown_def split: sum.splits prod.splits option.splits)

lemma heartbeat_check_effect:
  assumes "healthy (store s)" and "states_ok (store s)"
  shows "agents (store (heartbeat_check now s a)) b =
      (if b = a \<and> a \<in> agentMu s then map_option (\<lambda>r. if is_stale now s r then r\<lparr>fState := StateIdle\<rparr> else r)
         (agents (store s) a)
       else agents (store s) b)"
    and "healthy (store (heartbeat_check now s a))" and "states_ok (store (heartbeat_check now s a))"
    and "agentMu (heartbeat_check now s a) = agentMu s"
    and "is_stale now (heartbeat_check now s a) = is_stale now s"
proof -
  have idle: "r\<lparr>fState := StateIdle\<rparr> = r" if "fState r = StateIdle" for r :: AgentFields
    using that by simp
  note crash = crashAgent_agents [OF assms, of now a]
  show "agents (store (heartbeat_check now s a)) b =
      (if b = a \<and> a \<in> agentMu s then map_option (\<lambda>r. if is_stale now s r then r\<lparr>fState := StateIdle\<rparr> else r)
         (agents (store s) a)
       else agents (store s) b)"
    using crash(1) [of b] idle
    by (auto simp: heartbeat_check_def healthy_ops(1) [OF assms(1)] split: option.splits)
  show "healthy (store (heartbeat_check now s a))" "states_ok (store (heartbeat_check now s a))"
    "agentMu (heartbeat_check now s a) = agentMu s"
    "is_stale now (heartbeat_check now s a) = is_stale now s"
    using assms crash(2-4)
    by (auto simp: heartbeat_check_def is_stale_def fun_eq_iff split: sum.splits)
qed

lemma heartbeat_sweep:
  assumes "healthy (store s)" and "states_ok (store s)" and "distinct ids"
  shows "agents (store (foldl (heartbeat_check now) s ids)) b =
    (if b \<in> set ids \<and> b \<in> agentMu s
     then map_option (\<lambda>r. if is_stale now s r then r\<lparr>fState := StateIdle\<rparr> else r) (agents (store s) b)
     else agents (store s) b)"
  using assms
proof (induction ids arbitrary: s)
  case (Cons a ids)
  note E = heartbeat_check_effect [OF Cons.prems(1,2), of now a]
  show ?case
    using Cons.IH [OF E(2,3)] Cons.prems(3) by (auto simp: E)
qed simp

text \<open>
  C19. A tick of the heartbeat loop fails exactly the agents it should: on a healthy store, every
  registered agent whose last heartbeat is older than the threshold becomes idle, and the record of
  every other agent, and every other field of a failed one, is as before, whatever order the agents
  are listed in.
\<close>

theorem checkHeartbeats_exact:
  assumes "fair_order ord" and "healthy (store sv)" and "states_ok (store sv)"
    and "finite (dom (agents (store sv)))"
  shows "agents (store (checkHeartbeats ord now sv)) b =
    (if b \<in> agentMu sv
     then map_option (\<lambda>r. if is_stale now sv r then r\<lparr>fState := StateIdle\<rparr> else r) (agents (store sv) b)
     else agents (store sv) b)"
proof (cases "agents (store sv) b")
  case None
  then show ?thesis
    unfolding checkHeartbeats_foldl using assms by (simp add: heartbeat_sweep)
next
  case (Some r)
  then have "b \<in> set (ord (dom (agents (store sv))))" using assms(1,4) by auto
  then show ?thesis
    unfolding checkHeartbeats_foldl using assms by (simp add: heartbeat_sweep)
qed

theorem checkHeartbeats_exact_witness:
  "agents (store (checkHeartbeats sorted_list_of_set (unix_epoch + Hour) demo_busy)) ''a1'' =
     Some ((demo_agent StateWorking)\<lparr>fState := StateIdle\<rparr>)"
proof -
  have "states_ok (store demo_busy)" "finite (dom (agents (store demo_busy)))"
    using demo_busy_facts(4) by (simp_all add: states_ok_def demo_busy_def)
  then show ?thesis
    using checkHeartbeats_exact [OF fair_order_sorted demo_busy_facts(1), of "unix_epoch + Hour" "''a1''"]
    by (simp add: demo_busy_def demo_supervisor_def NewSupervisor_def is_stale_def UnixMilli_def
        Milliseconds_def defaultStaleThreshold_def Second_def Millisecond_def Hour_def demo_agent_def)
qed

text \<open>Completing a reporting agent on a healthy store.\<close>

lemma signal_completion_simps [simp]:
  "store (signal_completion now a tid sv) = store sv" "agentMu (signal_completion now a tid sv) = agentMu sv"
  "policy (signal_completion now a tid sv) = policy sv"
  "agentCooldown (signal_completion now a tid sv) = agentCooldown sv"
  "circuitOpen (signal_completion now a tid sv) = circuitOpen sv"
  by (simp_all add: signal_completion_def Let_def split: option.split)

lemma signal_completion_registry:
  assumes "GetAgentFields (store sv) a = Inr flds"
  shows "completionRegistry (signal_completion now a tid sv) =
    (if fCurrentTaskID flds \<noteq> '''' then map_option (Complete now (fCurrentTaskID flds)) (completionRegistry sv)
     else if tid \<noteq> '''' then map_option (Complete now tid) (completionRegistry sv) else completionRegistry sv)"
  using assms by (simp add: signal_completion_def signalled_task_def Let_def split: option.split)

lemma completeAgent_reporting:
  assumes "healthy (store sv)" and "a \<in> agentMu sv" and "agents (store sv) a = Some r"
    and "fState r = StateReporting" and "completeAgent now a tid sv = (err, sv')"
  shows "err = None"
    and "completionRegistry sv' =
      (if fCurrentTaskID r \<noteq> '''' then map_option (Complete now (fCurrentTaskID r)) (completionRegistry sv)
       else if tid \<noteq> '''' then map_option (Complete now tid) (completionRegistry sv) else completionRegistry sv)"
    and "agents (store sv') = (agents (store sv))(a \<mapsto>
      r\<lparr>fState := StateIdle, fCurrentTaskID := '''', fCurrentTaskPriority := 0\<rparr>)"
    and "queue (store sv') = queue (store sv)" and "policy sv' = RecordSuccess (policy sv) a"
    and "agentCooldown sv' a = None" and "circuitOpen sv' a = None"
    and "healthy (store sv')" and "agentMu sv' = agentMu sv"
proof -
  have m: "Machine_ApplyEvent (store sv) a EventOutputDelivered =
      Inr (\<lparr>snAgentID = a, snPreviousState = StateReporting, snState = StateIdle,
            snEvent = EventOutputDelivered\<rparr>, (store sv)\<lparr>agents := (agents (store sv))(a \<mapsto> r\<lparr>fState := StateIdle\<rparr>)\<rparr>)"
    using Machine_healthy [OF assms(1,3), of EventOutputDelivered StateIdle] assms(4)
    by (simp add: agent_states_def)
  let ?r = "r\<lparr>fState := StateIdle\<rparr>"
  let ?sv1 = "publish now (agent_event EventOutputDelivered a now)
      (sv\<lparr>store := (store sv)\<lparr>agents := (agents (store sv))(a \<mapsto> ?r)\<rparr>\<rparr>)"
  let ?sv2 = "?sv1\<lparr>policy := RecordSuccess (policy sv) a\<rparr>"
  have h: "healthy (store ?sv2)" using assms(1) by simp
  have g: "GetAgentFields (store ?sv2) a = Inr ?r" unfolding healthy_ops(1) [OF h] by simp
  have c: "ClearCurrentTask a (store ?sv1) = Inr ((store ?sv1)\<lparr>agents := (agents (store ?sv1))(a \<mapsto>
      ?r\<lparr>fCurrentTaskID := '''', fCurrentTaskPriority := 0\<rparr>)\<rparr>)"
    using h healthy_ops(4) [of "store ?sv1"] by simp
  have eq: "(err, sv') = (None, (signal_completion now a tid ?sv2)\<lparr>
      store := state_after (store ?sv2) (ClearCurrentTask a (store ?sv2)),
      agentCooldown := (agentCooldown ?sv2)(a := None), circuitOpen := (circuitOpen ?sv2)(a := None)\<rparr>)"
    using assms(2,5) by (simp add: completeAgent_def getAgentMutex_def m Let_def)
  have "err = None \<and> completionRegistry sv' =
      (if fCurrentTaskID r \<noteq> '''' then map_option (Complete now (fCurrentTaskID r)) (completionRegistry sv)
       else if tid \<noteq> '''' then map_option (Complete now tid) (completionRegistry sv) else completionRegistry sv) \<and>
    agents (store sv') = (agents (store sv))(a \<mapsto>
      r\<lparr>fState := StateIdle, fCurrentTaskID := '''', fCurrentTaskPriority := 0\<rparr>) \<and>
    queue (store sv') = queue (store sv) \<and> policy sv' = RecordSuccess (policy sv) a \<and>
    agentCooldown sv' a = None \<and> circuitOpen sv' a = None \<and> healthy (store sv') \<and> agentMu sv' = agentMu sv"
    using eq assms(1) by (simp add: c signal_completion_registry [OF g])
  then show "err = None"
    and "completionRegistry sv' =
      (if fCurrentTaskID r \<noteq> '''' then map_option (Complete now (fCurrentTaskID r)) (completionRegistry sv)
       else if tid \<noteq> '''' then map_option (Complete now tid) (completionRegistry sv) else completionRegistry sv)"
    and "agents (store sv') = (agents (store sv))(a \<mapsto>
      r\<lparr>fState := StateIdle, fCurrentTaskID := '''', fCurrentTaskPriority := 0\<rparr>)"
    and "queue (store sv') = queue (store sv)" and "policy sv' = RecordSuccess (policy sv) a"
    and "agentCooldown sv' a = None" and "circuitOpen sv' a = None"
    and "healthy (store sv')" and "agentMu sv' = agentMu sv" by blast+
qed

text \<open>
  C21. Which completion is signalled: completing a registered agent that is reporting, on a store
  that can be read, wakes the waiters of the task the store has for the agent, whatever identifier
  the caller sends (the caller's is used only when the store has none); the agent is idle
  afterwards, its task cleared, its cooldown and circuit reset and its crash history forgotten.
\<close>

theorem completeAgent_signals_store_task:
  assumes "healthy (store sv)" and "a \<in> agentMu sv" and "agents (store sv) a = Some r"
    and "fState r = StateReporting" and "completionRegistry sv = Some reg"
    and "completeAgent now a tid sv = (err, sv')"
  shows "err = None \<and>
    completionRegistry sv' =
      Some (if fCurrentTaskID r \<noteq> '''' then Complete now (fCurrentTaskID r) reg
            else if tid \<noteq> '''' then Complete now tid reg else reg) \<and>
    agents (store sv') = (agents (store sv))(a \<mapsto>
      r\<lparr>fState := StateIdle, fCurrentTaskID := '''', fCurrentTaskPriority := 0\<rparr>) \<and>
    queue (store sv') = queue (store sv) \<and> policy sv' = RecordSuccess (policy sv) a \<and>
    agentCooldown sv' a = None \<and> circuitOpen sv' a = None"
  using completeAgent_reporting [OF assms(1-4,6)] assms(5) by simp

theorem completeAgent_signals_store_task_witness:
  "completionRegistry (snd (completeAgent 9 ''a1'' ''wrong'' (demo_busy\<lparr>
      store := (store demo_busy)\<lparr>agents := [''a1'' \<mapsto> demo_agent StateReporting]\<rparr>,
      completionRegistry := Some (NewCompletionRegistry [])\<rparr>))) =
   Some (Complete 9 ''t1'' (NewCompletionRegistry []))"
proof -
  let ?sv = "demo_busy\<lparr>store := (store demo_busy)\<lparr>agents := [''a1'' \<mapsto> demo_agent StateReporting]\<rparr>,
    completionRegistry := Some (NewCompletionRegistry [])\<rparr>"
  obtain e sv' where c: "completeAgent 9 ''a1'' ''wrong'' ?sv = (e, sv')" by fastforce
  have "healthy (store ?sv)" "''a1'' \<in> agentMu ?sv"
    "agents (store ?sv) ''a1'' = Some (demo_agent StateReporting)"
    "fState (demo_agent StateReporting) = StateReporting"
    "completionRegistry ?sv = Some (NewCompletionRegistry [])"
    using demo_busy_facts(1,2) by (simp_all add: demo_agent_def)
  from completeAgent_signals_store_task [OF this c] c show ?thesis
    by (simp add: demo_agent_def)
qed

end
