(* ===== verification/Supervisor_Tasks.thy ===== *)
theory Supervisor_Tasks
  imports Supervisor
begin

section \<open>Where the tasks are: conservation, and what the reaper does\<close>

text \<open>
  A task that was submitted is waiting in the queue, held by the assignment loop between two of its
  phases, in flight with an agent, or done. The step relation \<open>sys_step\<close> lets every handler of the
  supervisor run between the phases of \<open>tryAssignTask\<close>, which releases its locks there; the
  conservation property is an invariant of it. The last part characterises the reaper, which does
  not conserve tasks.
\<close>

subsection \<open>Tasks in flight\<close>

definition task_of :: "AgentFields \<Rightarrow> (string \<times> rat) multiset" where
  "task_of r = (if fState r = StateIdle \<or> fCurrentTaskID r = '''' then {#}
     else {#(fCurrentTaskID r, fCurrentTaskPriority r)#})"

definition task_at :: "(string \<rightharpoonup> AgentFields) \<Rightarrow> string \<Rightarrow> (string \<times> rat) multiset" where
  "task_at A a = (case A a of None \<Rightarrow> {#} | Some r \<Rightarrow> task_of r)"

definition in_flight :: "(string \<rightharpoonup> AgentFields) \<Rightarrow> (string \<times> rat) multiset" where
  "in_flight A = (\<Sum>a \<in> dom A. task_at A a)"

lemma in_flight_remove:
  assumes "finite (dom A)"
  shows "in_flight A = in_flight (A(a := None)) + task_at A a"
proof (cases "A a")
  case None
  then have "A(a := None) = A" by auto
  then show ?thesis using None by (simp add: task_at_def)
next
  case (Some r)
  then have a: "a \<in> dom A" by auto
  have "(\<Sum>b \<in> dom A - {a}. task_at (A(a := None)) b) = (\<Sum>b \<in> dom A - {a}. task_at A b)"
    by (rule sum.cong) (auto simp: task_at_def)
  then show ?thesis
    unfolding in_flight_def using sum.remove [OF assms a, of "task_at A"] by (simp add: add.commute)
qed

lemma in_flight_upd:
  assumes "finite (dom A)"
  shows "in_flight (A(a := x)) + task_at A a = in_flight A + task_at (A(a := x)) a"
proof -
  have "finite (dom (A(a := x)))" using assms by (cases x) auto
  then show ?thesis
    using in_flight_remove [OF assms, of a] in_flight_remove [of "A(a := x)" a]
    by (simp add: ac_simps)
qed

lemma in_flight_same_task:
  assumes "finite (dom A)" and "task_at (A(a := x)) a = task_at A a"
  shows "in_flight (A(a := x)) = in_flight A"
  using in_flight_upd [OF assms(1), of a x] assms(2) by simp

lemma in_flight_empty [simp]: "in_flight Map.empty = {#}"
  by (simp add: in_flight_def)

text \<open>The tasks the supervisor's store knows of.\<close>

definition known_tasks :: "Supervisor \<Rightarrow> (string \<times> rat) multiset" where
  "known_tasks sv = queue_items (store sv) + in_flight (agents (store sv))"

definition queue_named :: "MockStore \<Rightarrow> bool" where
  "queue_named m \<longleftrightarrow> (\<forall>item \<in> set (queue m). qTaskID item \<noteq> '''')"

definition sv_ok :: "Supervisor \<Rightarrow> bool" where
  "sv_ok sv \<longleftrightarrow> healthy (store sv) \<and> states_ok (store sv) \<and> finite (dom (agents (store sv))) \<and>
     queue_named (store sv)"

lemma queue_items_snoc:
  "queue m' = sort_key qPriority (queue m @ [\<lparr>qTaskID = t, qPriority = p\<rparr>]) \<Longrightarrow>
    queue_items m' = add_mset (t, p) (queue_items m)"
  by (simp add: queue_items_def)

lemma queue_items_cong: "queue m' = queue m \<Longrightarrow> queue_items m' = queue_items m"
  by (simp add: queue_items_def)

lemma sv_okI:
  assumes "sv_ok sv" and "healthy (store sv')"
    and "agents (store sv') = (agents (store sv))(a := x)" and "\<And>r. x = Some r \<Longrightarrow> fState r \<in> agent_states"
    and "set (queue (store sv')) \<subseteq> set (queue (store sv)) \<union> {item. qTaskID item \<noteq> ''''}"
  shows "sv_ok sv'"
proof -
  have "dom (agents (store sv')) \<subseteq> insert a (dom (agents (store sv)))"
    using assms(3) by auto
  then have "finite (dom (agents (store sv')))"
    using assms(1) finite_subset by (fastforce simp: sv_ok_def)
  then show ?thesis
    using assms by (auto simp: sv_ok_def queue_named_def states_ok_def ran_def)
qed

subsection \<open>What each handler does to the tasks\<close>

lemma enqueue_logged_tasks:
  assumes "sv_ok sv" and "t \<noteq> ''''"
  shows "known_tasks (enqueue_logged t p sv) = add_mset (t, p) (known_tasks sv)"
    and "sv_ok (enqueue_logged t p sv)"
  using assms
  by (auto simp: known_tasks_def enqueue_logged_healthy sv_ok_def queue_items_def queue_named_def
      states_ok_def)

lemma crashAgent_tasks:
  assumes "sv_ok sv"
  shows "known_tasks (crashAgent now a sv) = known_tasks sv" and "sv_ok (crashAgent now a sv)"
proof -
  have ok: "healthy (store sv)" "states_ok (store sv)" "finite (dom (agents (store sv)))"
    using assms by (simp_all add: sv_ok_def)
  have "known_tasks (crashAgent now a sv) = known_tasks sv \<and> sv_ok (crashAgent now a sv)"
  proof (cases "a \<in> agentMu sv \<and> agents (store sv) a \<noteq> None")
    case False
    then show ?thesis using ok assms by (auto simp: crashAgent_unregistered crashAgent_unknown)
  next
    case True
    then obtain r where r: "agents (store sv) a = Some r" by auto
    show ?thesis
    proof (cases "fState r = StateIdle")
      case True
      then show ?thesis
        using crashAgent_idle [OF ok(1) _ r] \<open>a \<in> agentMu sv \<and> _\<close> assms
        by (simp add: known_tasks_def sv_ok_def)
    next
      case busy: False
      note C = crashAgent_working [OF ok(1) _ r states_okD [OF ok(2) r] busy, of now]
      have a: "a \<in> agentMu sv" using True by simp
      let ?r = "r\<lparr>fState := StateIdle\<rparr>"
      have "in_flight ((agents (store sv))(a \<mapsto> ?r)) + task_of r = in_flight (agents (store sv))"
        using in_flight_upd [OF ok(3), of a "Some ?r"] r by (simp add: task_at_def task_of_def)
      moreover have "queue_items (store (crashAgent now a sv)) = queue_items (store sv) + task_of r"
        using C(2) [OF a] busy by (simp add: requeue_def task_of_def queue_items_def)
      ultimately have "known_tasks (crashAgent now a sv) = known_tasks sv"
        using C(1) [OF a] by (simp add: known_tasks_def ac_simps)
      moreover have "sv_ok (crashAgent now a sv)"
        by (rule sv_okI [OF assms C(3) [OF a] C(1) [OF a]])
          (use C(2) [OF a] in \<open>auto simp: agent_states_def requeue_def split: if_splits\<close>)
      ultimately show ?thesis by simp
    qed
  qed
  then show "known_tasks (crashAgent now a sv) = known_tasks sv" "sv_ok (crashAgent now a sv)"
    by simp_all
qed

lemma heartbeat_check_tasks:
  assumes "sv_ok sv"
  shows "known_tasks (heartbeat_check now sv a) = known_tasks sv" and "sv_ok (heartbeat_check now sv a)"
  using crashAgent_tasks [OF assms] assms by (auto simp: heartbeat_check_def split: sum.splits)

lemma checkHeartbeats_tasks:
  assumes "sv_ok sv"
  shows "known_tasks (checkHeartbeats ord now sv) = known_tasks sv \<and> sv_ok (checkHeartbeats ord now sv)"
proof -
  have "known_tasks (foldl (heartbeat_check now) s ids) = known_tasks s \<and>
      sv_ok (foldl (heartbeat_check now) s ids)" if "sv_ok s" for s ids
    using that by (induction ids arbitrary: s) (simp_all add: heartbeat_check_tasks)
  then show ?thesis using assms by (simp add: checkHeartbeats_foldl)
qed

lemma assign_locked_tasks:
  assumes "sv_ok sv" and "t \<noteq> ''''"
  shows "known_tasks (assign_locked now a t p sv) = add_mset (t, p) (known_tasks sv)"
    and "sv_ok (assign_locked now a t p sv)"
proof -
  have ok: "healthy (store sv)" "states_ok (store sv)" "finite (dom (agents (store sv)))"
    using assms by (simp_all add: sv_ok_def)
  have "known_tasks (assign_locked now a t p sv) = add_mset (t, p) (known_tasks sv) \<and>
      sv_ok (assign_locked now a t p sv)"
  proof (cases "\<exists>r. agents (store sv) a = Some r \<and> fState r = StateIdle")
    case True
    then obtain r where r: "agents (store sv) a = Some r" "fState r = StateIdle" by blast
    note A = assign_locked_idle [OF ok(1) r, of now t p]
    let ?r = "r\<lparr>fState := StateAssigned, fCurrentTaskID := t, fCurrentTaskPriority := p\<rparr>"
    have "in_flight ((agents (store sv))(a \<mapsto> ?r)) = add_mset (t, p) (in_flight (agents (store sv)))"
      using in_flight_upd [OF ok(3), of a "Some ?r"] r assms(2)
      by (simp add: task_at_def task_of_def state_defs)
    then have "known_tasks (assign_locked now a t p sv) = add_mset (t, p) (known_tasks sv)"
      using A(1) queue_items_cong [OF A(2)] by (simp add: known_tasks_def)
    moreover have "sv_ok (assign_locked now a t p sv)"
      by (rule sv_okI [OF assms(1) A(3) A(1)]) (use A(2) in \<open>auto simp: agent_states_def\<close>)
    ultimately show ?thesis by simp
  next
    case False
    then have "agents (store sv) a = None \<or> (\<exists>r. agents (store sv) a = Some r \<and> fState r \<noteq> StateIdle)"
      by (cases "agents (store sv) a") auto
    note R = assign_locked_refused [OF ok(1) this, of now t p]
    have "known_tasks (assign_locked now a t p sv) = add_mset (t, p) (known_tasks sv)"
      using R(1) queue_items_snoc [OF R(2)] by (simp add: known_tasks_def)
    moreover have "sv_ok (assign_locked now a t p sv)"
      using assms R(1-3) by (auto simp: sv_ok_def queue_named_def states_ok_def)
    ultimately show ?thesis by simp
  qed
  then show "known_tasks (assign_locked now a t p sv) = add_mset (t, p) (known_tasks sv)"
    "sv_ok (assign_locked now a t p sv)" by simp_all
qed

text \<open>A transition that is not a failure and does not end at idle keeps the agent's task.\<close>

lemma apply_and_publish_tasks:
  assumes "sv_ok sv" and "apply_and_publish now a ev sv = (err, sv')"
    and "ev = EventWorkStarted \<or> ev = EventOutputReady"
  shows "known_tasks sv' = known_tasks sv" and "sv_ok sv'"
proof -
  have "known_tasks sv' = known_tasks sv \<and> sv_ok sv'"
  proof (cases "Machine_ApplyEvent (store sv) a ev")
    case (Inl e)
    then show ?thesis using assms by (simp add: apply_and_publish_def)
  next
    case (Inr x)
    then obtain snap m where x: "Machine_ApplyEvent (store sv) a ev = Inr (snap, m)"
      by (cases x) auto
    then obtain r t where r: "agents (store sv) a = Some r" and m: "m = (store sv)\<lparr>agents :=
        (agents (store sv))(a \<mapsto> r\<lparr>fState := t\<rparr>)\<rparr>" and t: "ValidTransition (fState r) ev = Inr t"
      unfolding Machine_ApplyEvent_Inr by blast
    have idle: "fState r \<noteq> StateIdle" "t \<noteq> StateIdle" "t \<in> agent_states"
      using ValidTransition_cases [OF t] ValidTransition_target [OF t] assms(3)
      by (auto simp: event_defs state_defs)
    have "in_flight ((agents (store sv))(a \<mapsto> r\<lparr>fState := t\<rparr>)) = in_flight (agents (store sv))"
      by (rule in_flight_same_task) (use assms(1) r idle in \<open>auto simp: sv_ok_def task_at_def task_of_def\<close>)
    then have "known_tasks sv' = known_tasks sv"
      using assms(2) x m by (auto simp: apply_and_publish_def known_tasks_def queue_items_def split: if_splits)
    moreover have "sv_ok sv'"
      by (rule sv_okI [OF assms(1), of _ a "Some (r\<lparr>fState := t\<rparr>)"])
        (use assms(1,2) x m idle in \<open>auto simp: apply_and_publish_def sv_ok_def split: if_splits\<close>)
    ultimately show ?thesis by simp
  qed
  then show "known_tasks sv' = known_tasks sv" "sv_ok sv'" by simp_all
qed

lemma Heartbeat_tasks:
  assumes "sv_ok sv" and "Heartbeat now a sv = (err, sv')"
  shows "known_tasks sv' = known_tasks sv" and "sv_ok sv'"
proof -
  have "known_tasks sv' = known_tasks sv \<and> sv_ok sv'"
  proof (cases "sv' = sv")
    case False
    then obtain r where r: "agents (store sv) a = Some r"
      and sv': "sv' = sv\<lparr>store := (store sv)\<lparr>agents :=
        (agents (store sv))(a \<mapsto> r\<lparr>fLastHeartbeat := UnixMilli now\<rparr>)\<rparr>\<rparr>"
      using assms by (auto simp: Heartbeat_def sv_ok_def healthy_ops split: if_splits option.splits)
    have "in_flight ((agents (store sv))(a \<mapsto> r\<lparr>fLastHeartbeat := UnixMilli now\<rparr>)) =
        in_flight (agents (store sv))"
      by (rule in_flight_same_task) (use assms(1) r in \<open>auto simp: sv_ok_def task_at_def task_of_def\<close>)
    then have "known_tasks sv' = known_tasks sv" by (simp add: sv' known_tasks_def queue_items_def)
    moreover have "sv_ok sv'"
      by (rule sv_okI [OF assms(1), of _ a "Some (r\<lparr>fLastHeartbeat := UnixMilli now\<rparr>)"])
        (use assms(1) r in \<open>auto simp: sv' sv_ok_def dest: states_okD\<close>)
    ultimately show ?thesis by simp
  qed (use assms(1) in simp)
  then show "known_tasks sv' = known_tasks sv" "sv_ok sv'" by simp_all
qed

text \<open>A completion takes exactly the agent's task away.\<close>

lemma completeAgent_tasks:
  assumes "sv_ok sv" and "completeAgent now a tid sv = (err, sv')"
  shows "known_tasks sv = known_tasks sv' + (if err = None then task_at (agents (store sv)) a else {#})"
    and "sv_ok sv'"
proof -
  have ok: "healthy (store sv)" "states_ok (store sv)" "finite (dom (agents (store sv)))"
    using assms by (simp_all add: sv_ok_def)
  have "known_tasks sv = known_tasks sv' + (if err = None then task_at (agents (store sv)) a else {#})
      \<and> sv_ok sv'"
  proof (cases "err = None")
    case False
    then have "sv' = sv" using assms(2) by (auto simp: completeAgent_def Let_def split: if_splits sum.splits)
    then show ?thesis using False assms(1) by auto
  next
    case True
    then obtain snap m where x: "Machine_ApplyEvent (store sv) a EventOutputDelivered = Inr (snap, m)"
      using assms(2) by (auto simp: completeAgent_def Let_def split: if_splits sum.splits)
    then obtain r where r: "agents (store sv) a = Some r" and m: "m = (store sv)\<lparr>agents :=
        (agents (store sv))(a \<mapsto> r\<lparr>fState := StateIdle\<rparr>)\<rparr>"
      unfolding Machine_ApplyEvent_Inr by (auto dest!: ValidTransition_cases simp: event_defs)
    let ?r = "r\<lparr>fState := StateIdle, fCurrentTaskID := '''', fCurrentTaskPriority := 0\<rparr>"
    have sc: "store (signal_completion now a tid s) = store s" for s
      by (simp add: signal_completion_def Let_def split: option.split)
    have st: "agents (store sv') = (agents (store sv))(a \<mapsto> ?r)" "queue (store sv') = queue (store sv)"
      "healthy (store sv')"
      using assms(2) ok(1) True m
      by (auto simp: completeAgent_def Let_def x sc healthy_ops split: if_splits)
    have "in_flight (agents (store sv)) = in_flight (agents (store sv')) + task_of r"
      using in_flight_upd [OF ok(3), of a "Some ?r"] r st(1) by (simp add: task_at_def task_of_def)
    then have "known_tasks sv = known_tasks sv' + task_of r"
      using queue_items_cong [OF st(2)] by (simp add: known_tasks_def)
    moreover have "sv_ok sv'"
      by (rule sv_okI [OF assms(1) st(3,1)]) (use st(2) in \<open>auto simp: agent_states_def\<close>)
    ultimately show ?thesis using True r by (simp add: task_at_def)
  qed
  then show "known_tasks sv = known_tasks sv' + (if err = None then task_at (agents (store sv)) a else {#})"
    "sv_ok sv'" by simp_all
qed

lemma RegisterAgent_tasks:
  assumes "sv_ok sv" and "RegisterAgent now a sv = (err, sv')" and "agents (store sv) a = None"
  shows "known_tasks sv' = known_tasks sv" and "sv_ok sv'"
proof -
  let ?r = "zeroAgentFields\<lparr>fState := StateIdle, fLastHeartbeat := UnixMilli now,
    fRegisteredAt := UnixMilli now\<rparr>"
  have "known_tasks sv' = known_tasks sv \<and> sv_ok sv'"
  proof (cases "err = None")
    case False
    then have "sv' = sv"
      using assms by (auto simp: RegisterAgent_def sv_ok_def healthy_ops Let_def split: if_splits)
    then show ?thesis using assms(1) by simp
  next
    case True
    then have st: "agents (store sv') = (agents (store sv))(a \<mapsto> ?r)"
      "queue (store sv') = queue (store sv)" "healthy (store sv')"
      using assms
      by (auto simp: RegisterAgent_def sv_ok_def healthy_ops Let_def split: if_splits option.splits)
    have "in_flight ((agents (store sv))(a \<mapsto> ?r)) = in_flight (agents (store sv))"
      by (rule in_flight_same_task) (use assms in \<open>auto simp: sv_ok_def task_at_def task_of_def\<close>)
    then have "known_tasks sv' = known_tasks sv"
      using st(1) queue_items_cong [OF st(2)] by (simp add: known_tasks_def)
    moreover have "sv_ok sv'"
      by (rule sv_okI [OF assms(1) st(3,1)]) (use st(2) in \<open>auto simp: agent_states_def\<close>)
    ultimately show ?thesis by simp
  qed
  then show "known_tasks sv' = known_tasks sv" "sv_ok sv'" by simp_all
qed

subsection \<open>The phases of the assignment loop\<close>

datatype assign_pc = Looking | Holding string rat | Chosen string rat string

fun assign_phase ::
  "string map_order \<Rightarrow> gtime \<Rightarrow> assign_pc \<Rightarrow> Supervisor \<Rightarrow> assign_pc \<times> Supervisor" where
  "assign_phase ord now Looking sv =
     (if assign_backing_off now sv then (Looking, sv)
      else (case DequeueTask (store sv) of
              Inl err \<Rightarrow> (Looking, if errors_Is err ErrQueueEmpty then sv else recordAssignError now sv)
            | Inr (taskID, priority, m) \<Rightarrow> (Holding taskID priority, sv\<lparr>store := m\<rparr>)))"
| "assign_phase ord now (Holding taskID priority) sv =
     (case findIdleAgent ord now sv of
        None \<Rightarrow> (Looking, enqueue_logged taskID priority sv)
      | Some agentID \<Rightarrow> (Chosen taskID priority agentID, sv))"
| "assign_phase ord now (Chosen taskID priority agentID) sv =
     (Looking, if \<not> getAgentMutex sv agentID then enqueue_logged taskID priority sv
               else assign_locked now agentID taskID priority sv)"

text \<open>\<open>tryAssignTask\<close> is a run of the phases that nothing interrupts.\<close>

lemma tryAssignTask_phases:
  "tryAssignTask ord now sv =
     (let (pc1, sv1) = assign_phase ord now Looking sv
      in if pc1 = Looking then sv1
         else let (pc2, sv2) = assign_phase ord now pc1 sv1
              in if pc2 = Looking then sv2 else snd (assign_phase ord now pc2 sv2))"
  by (auto simp: tryAssignTask_def Let_def split: sum.split prod.split option.split)

fun held :: "assign_pc \<Rightarrow> (string \<times> rat) multiset" where
  "held Looking = {#}"
| "held (Holding t p) = {#(t, p)#}"
| "held (Chosen t p a) = {#(t, p)#}"

fun pc_named :: "assign_pc \<Rightarrow> bool" where
  "pc_named Looking = True"
| "pc_named (Holding t p) = (t \<noteq> '''')"
| "pc_named (Chosen t p a) = (t \<noteq> '''')"

lemma assign_phase_tasks:
  assumes "sv_ok sv" and "pc_named pc" and "assign_phase ord now pc sv = (pc', sv')"
  shows "known_tasks sv' + held pc' = known_tasks sv + held pc" and "sv_ok sv'" and "pc_named pc'"
proof -
  have "known_tasks sv' + held pc' = known_tasks sv + held pc \<and> sv_ok sv' \<and> pc_named pc'"
  proof (cases pc)
    case Looking
    show ?thesis
    proof (cases "pc' = Looking")
      case True
      then show ?thesis
        using assms(1,3) Looking
        by (auto simp: known_tasks_def sv_ok_def split: if_splits sum.splits)
    next
      case False
      then obtain t p m where d: "DequeueTask (store sv) = Inr (t, p, m)"
        and r: "pc' = Holding t p" "sv' = sv\<lparr>store := m\<rparr>"
        using assms(3) Looking by (auto split: if_splits sum.splits)
      then obtain item rest where q: "queue (store sv) = item # rest" "t = qTaskID item"
        "p = qPriority item" "m = (store sv)\<lparr>queue := rest\<rparr>"
        by (auto simp: DequeueTask_def split: option.splits list.splits)
      then show ?thesis
        using assms(1) r DequeueTask_items [OF d] Looking
        by (auto simp: known_tasks_def sv_ok_def queue_named_def states_ok_def)
    qed
  next
    case (Holding t p)
    then show ?thesis
      using assms enqueue_logged_tasks [OF assms(1), of t p] by (auto split: option.splits)
  next
    case (Chosen t p a)
    then show ?thesis
      using assms enqueue_logged_tasks [OF assms(1), of t p] assign_locked_tasks [OF assms(1), of t now a p]
      by (auto split: if_splits)
  qed
  then show "known_tasks sv' + held pc' = known_tasks sv + held pc" "sv_ok sv'" "pc_named pc'"
    by simp_all
qed

subsection \<open>The system\<close>

record System =
  sysSv :: Supervisor
  sysPc :: assign_pc
  sysSubmitted :: "(string \<times> rat) multiset"
  sysCompleted :: "(string \<times> rat) multiset"

inductive sys_step :: "System \<Rightarrow> System \<Rightarrow> bool" where
  st_assign: "assign_phase ord now (sysPc S) (sysSv S) = (pc', sv') \<Longrightarrow>
     sys_step S (S\<lparr>sysPc := pc', sysSv := sv'\<rparr>)"
| st_submit: "t \<noteq> '''' \<Longrightarrow> EnqueueTaskWithMeta t p meta (store (sysSv S)) = Inr m \<Longrightarrow>
     sys_step S (S\<lparr>sysSv := (sysSv S)\<lparr>store := m\<rparr>, sysSubmitted := add_mset (t, p) (sysSubmitted S)\<rparr>)"
| st_register: "agents (store (sysSv S)) a = None \<Longrightarrow> RegisterAgent now a (sysSv S) = (err, sv') \<Longrightarrow>
     sys_step S (S\<lparr>sysSv := sv'\<rparr>)"
| st_heartbeat: "Heartbeat now a (sysSv S) = (err, sv') \<Longrightarrow> sys_step S (S\<lparr>sysSv := sv'\<rparr>)"
| st_start: "StartWork now a (sysSv S) = (err, sv') \<Longrightarrow> sys_step S (S\<lparr>sysSv := sv'\<rparr>)"
| st_report: "ReportOutput now a (sysSv S) = (err, sv') \<Longrightarrow> sys_step S (S\<lparr>sysSv := sv'\<rparr>)"
| st_complete: "CompleteAgent now a tid (sysSv S) = (err, sv') \<Longrightarrow>
     sys_step S (S\<lparr>sysSv := sv', sysCompleted := sysCompleted S +
       (if err = None then task_at (agents (store (sysSv S))) a else {#})\<rparr>)"
| st_check: "sys_step S (S\<lparr>sysSv := checkHeartbeats ord now (sysSv S)\<rparr>)"
| st_crash: "sys_step S (S\<lparr>sysSv := crashAgent now a (sysSv S)\<rparr>)"
| st_registry: "sys_step S (S\<lparr>sysSv := (sysSv S)\<lparr>completionRegistry := reg\<rparr>\<rparr>)"

inductive sys_reach :: "System \<Rightarrow> System \<Rightarrow> bool" for S0 where
  sys_start: "sys_reach S0 S0"
| sys_more: "sys_reach S0 S \<Longrightarrow> sys_step S S' \<Longrightarrow> sys_reach S0 S'"

definition start_system :: "Supervisor \<Rightarrow> System" where
  "start_system sv = \<lparr>sysSv = sv, sysPc = Looking, sysSubmitted = {#}, sysCompleted = {#}\<rparr>"

definition sys_inv :: "System \<Rightarrow> bool" where
  "sys_inv S \<longleftrightarrow> sv_ok (sysSv S) \<and> pc_named (sysPc S) \<and>
     known_tasks (sysSv S) + held (sysPc S) + sysCompleted S = sysSubmitted S"

lemma sys_inv_same:
  assumes "sys_inv S" and "known_tasks sv' = known_tasks (sysSv S)" and "sv_ok sv'"
  shows "sys_inv (S\<lparr>sysSv := sv'\<rparr>)"
  using assms by (simp add: sys_inv_def)

lemma sys_step_inv:
  assumes "sys_step S S'" and "sys_inv S"
  shows "sys_inv S'"
proof -
  have ok: "sv_ok (sysSv S)" and pc: "pc_named (sysPc S)"
    and eq: "known_tasks (sysSv S) + held (sysPc S) + sysCompleted S = sysSubmitted S"
    using assms(2) by (simp_all add: sys_inv_def)
  note same = sys_inv_same [OF assms(2)]
  show ?thesis
    using assms(1)
  proof cases
    case (st_assign ord now pc' sv')
    then show ?thesis
      using assign_phase_tasks [OF ok pc st_assign(2)] eq by (simp add: sys_inv_def)
  next
    case (st_submit t p meta m)
    have "agents m = agents (store (sysSv S))" "sv_ok ((sysSv S)\<lparr>store := m\<rparr>)"
      using st_submit ok
      by (auto simp: EnqueueTaskWithMeta_def Let_def sv_ok_def queue_named_def states_ok_def healthy_def
          split: option.splits if_splits)
    then show ?thesis
      using st_submit EnqueueTaskWithMeta_items [OF st_submit(3)] pc eq
      by (auto simp: sys_inv_def known_tasks_def)
  next
    case (st_register a now err sv')
    then show ?thesis using same RegisterAgent_tasks [OF ok] by simp
  next
    case (st_heartbeat now a err sv')
    then show ?thesis using same Heartbeat_tasks [OF ok] by simp
  next
    case (st_start now a err sv')
    then show ?thesis
      using same assms(2) apply_and_publish_tasks [OF ok, of now a EventWorkStarted err sv']
      by (auto simp: StartWork_def split: if_splits)
  next
    case (st_report now a err sv')
    then show ?thesis
      using same assms(2) apply_and_publish_tasks [OF ok, of now a EventOutputReady err sv']
      by (auto simp: ReportOutput_def split: if_splits)
  next
    case (st_complete now a tid err sv')
    then show ?thesis
      using completeAgent_tasks [OF ok, of now a tid err sv'] pc eq
      by (auto simp: CompleteAgent_def sys_inv_def ac_simps)
  next
    case (st_check ord now)
    then show ?thesis using same checkHeartbeats_tasks [OF ok] by simp
  next
    case (st_crash now a)
    then show ?thesis using same crashAgent_tasks [OF ok] by simp
  next
    case (st_registry reg)
    then show ?thesis using assms(2) by (simp add: sys_inv_def known_tasks_def sv_ok_def)
  qed
qed

lemma sys_reach_inv:
  assumes "sys_reach (start_system (NewSupervisor NewMockStore pol [])) S"
  shows "sys_inv S"
proof -
  have "sys_inv (start_system (NewSupervisor NewMockStore pol []))"
    by (simp add: sys_inv_def start_system_def NewSupervisor_def known_tasks_def sv_ok_def
        healthy_def queue_named_def states_ok_def NewMockStore_def queue_items_def)
  with assms show ?thesis by (induction) (auto intro: sys_step_inv)
qed



subsection \<open>The reaper\<close>

definition reap_check :: "gtime \<Rightarrow> string set \<Rightarrow> Supervisor \<Rightarrow> string \<Rightarrow> Supervisor" where
  "reap_check now live s agentID =
     (if agentID \<in> live then s
      else if agentIsTooYoungToReap now s agentID then s
      else reapAgent now agentID s)"

definition old_enough :: "gtime \<Rightarrow> Supervisor \<Rightarrow> AgentFields \<Rightarrow> bool" where
  "old_enough now sv r \<longleftrightarrow> fRegisteredAt r = 0 \<or>
     \<not> UnixMilli now - fRegisteredAt r < Milliseconds (reapInterval sv)"

lemma reapAgent_effect:
  assumes "healthy (store s)"
  shows "agents (store (reapAgent now a s)) = (agents (store s))(a := None)"
    and "queue (store (reapAgent now a s)) = queue (store s)"
    and "healthy (store (reapAgent now a s))"
    and "agentMu (reapAgent now a s) = agentMu s - {a}"
    and "reapInterval (reapAgent now a s) = reapInterval s"
proof -
  have h: "healthy (store (RemoveAgent now a s))" using assms by (simp add: RemoveAgent_def)
  show "agents (store (reapAgent now a s)) = (agents (store s))(a := None)"
    "queue (store (reapAgent now a s)) = queue (store s)"
    "healthy (store (reapAgent now a s))"
    "agentMu (reapAgent now a s) = agentMu s - {a}"
    using assms by (simp_all add: reapAgent_def Let_def healthy_ops(5) [OF h]) (simp_all add: RemoveAgent_def)
  show "reapInterval (reapAgent now a s) = reapInterval s"
    by (auto simp: reapAgent_def RemoveAgent_def destroy_session_def publish_def Let_def split: option.splits)
qed

lemma reap_check_effect:
  assumes "healthy (store s)" and "agents (store s) a \<noteq> None"
  shows "agents (store (reap_check now live s a)) =
      (if a \<notin> live \<and> old_enough now s (the (agents (store s) a))
       then (agents (store s))(a := None) else agents (store s))"
    and "healthy (store (reap_check now live s a))"
    and "reapInterval (reap_check now live s a) = reapInterval s"
proof -
  obtain r where r: "agents (store s) a = Some r" using assms(2) by auto
  have "GetAgentFields (store s) a = Inr r" using healthy_ops(1) [OF assms(1), of a] r by simp
  then have "agentIsTooYoungToReap now s a = (\<not> old_enough now s (the (agents (store s) a)))"
    by (auto simp: agentIsTooYoungToReap_def old_enough_def r)
  then show "agents (store (reap_check now live s a)) =
      (if a \<notin> live \<and> old_enough now s (the (agents (store s) a))
       then (agents (store s))(a := None) else agents (store s))"
    "healthy (store (reap_check now live s a))"
    "reapInterval (reap_check now live s a) = reapInterval s"
    using assms(1) reapAgent_effect [OF assms(1), of now a] by (simp_all add: reap_check_def)
qed

lemma reap_sweep:
  assumes "healthy (store s)" and "distinct ids" and "set ids \<subseteq> dom (agents (store s))"
  shows "agents (store (foldl (reap_check now live) s ids)) b =
    (if b \<in> set ids \<and> b \<notin> live \<and> old_enough now s (the (agents (store s) b)) then None
     else agents (store s) b)"
  using assms
proof (induction ids arbitrary: s)
  case (Cons a ids)
  then have a: "agents (store s) a \<noteq> None" by auto
  note E = reap_check_effect [OF Cons.prems(1) a, of now live]
  have oe: "old_enough now (reap_check now live s a) r = old_enough now s r" for r
    by (simp add: old_enough_def E(3))
  have "set ids \<subseteq> dom (agents (store (reap_check now live s a)))"
    using Cons.prems(2,3) E(1) by auto
  then show ?case
    using Cons.IH [OF E(2)] Cons.prems(2) by (auto simp: E(1) oe)
qed simp

text \<open>
  C22. A sweep of the reaper deregisters exactly the agents without a terminal: on a healthy store,
  the agents removed are those with no live session among the ones listed that have been
  registered for at least one reap interval; every other record is untouched. When the session
  list cannot be read, or there is no substrate, no agent is removed.
\<close>

theorem reaper_exact:
  assumes "fair_order ord" and "healthy (store sv)" and "finite (dom (agents (store sv)))"
  shows "agents (store (reapOrphanedAgents ord now sv)) b =
    (case substrate sv of
       None \<Rightarrow> agents (store sv) b
     | Some s \<Rightarrow>
       (case ListSessions_res s (subCalls sv) of
          Inl _ \<Rightarrow> agents (store sv) b
        | Inr sessions \<Rightarrow>
            if agents (store sv) b \<noteq> None \<and> b \<notin> live_agents sessions \<and>
               old_enough now sv (the (agents (store sv) b))
            then None else agents (store sv) b))"
proof (cases "substrate sv")
  case None
  then show ?thesis by (simp add: reapOrphanedAgents_def)
next
  case (Some s)
  show ?thesis
  proof (cases "ListSessions_res s (subCalls sv)")
    case (Inl e)
    then show ?thesis using Some by (simp add: reapOrphanedAgents_def)
  next
    case (Inr sessions)
    let ?sv = "sv\<lparr>subCalls := subCalls sv @ [ListSessionsCall]\<rparr>"
    have "reapOrphanedAgents ord now sv =
        foldl (reap_check now (live_agents sessions)) ?sv (ord (dom (agents (store sv))))"
      using Some Inr by (simp add: reapOrphanedAgents_def Let_def ListAgents_def reap_check_def [abs_def])
    then show ?thesis
      using reap_sweep [of ?sv "ord (dom (agents (store sv)))" now "live_agents sessions" b] assms Some Inr
      by (auto simp: old_enough_def)
  qed
qed

definition quiet_substrate :: "Session list \<Rightarrow> Substrate" where
  "quiet_substrate ss = \<lparr>SpawnSession_res = (\<lambda>_ _. None), DestroySession_res = (\<lambda>_ _. None),
     ListSessions_res = (\<lambda>_. Inr ss)\<rparr>"

theorem reaper_exact_witness:
  "agents (store (reapOrphanedAgents sorted_list_of_set (unix_epoch + Hour)
     (demo_busy\<lparr>substrate := Some (quiet_substrate [])\<rparr>))) ''a1'' = None"
proof -
  have "healthy (store (demo_busy\<lparr>substrate := Some (quiet_substrate [])\<rparr>))"
    "finite (dom (agents (store (demo_busy\<lparr>substrate := Some (quiet_substrate [])\<rparr>))))"
    using demo_busy_facts(1) by (simp_all add: demo_busy_def)
  from reaper_exact [OF fair_order_sorted this, of "unix_epoch + Hour" "''a1''"] show ?thesis
    by (simp add: quiet_substrate_def live_agents_def old_enough_def demo_busy_def demo_agent_def
        UnixMilli_def Milliseconds_def demo_supervisor_def NewSupervisor_def defaultReapInterval_def
        Second_def Millisecond_def Hour_def)
qed

text \<open>
  A finding. The reaper does not put an agent's task back: when it removes an agent at work (its
  terminal has vanished before the heartbeat loop noticed, whose threshold is twice the reap
  interval), the agent's task is neither in the queue nor in flight nor completed any more, so
  whoever waits for it waits for ever.
\<close>

theorem reaper_loses_task:
  assumes "healthy (store sv)" and "finite (dom (agents (store sv)))"
    and "agents (store sv) a = Some r" and "fState r \<noteq> StateIdle" and "fCurrentTaskID r \<noteq> ''''"
  shows "known_tasks sv =
    add_mset (fCurrentTaskID r, fCurrentTaskPriority r) (known_tasks (reapAgent now a sv))"
proof -
  note R = reapAgent_effect [OF assms(1), of now a]
  have "in_flight (agents (store sv)) = in_flight ((agents (store sv))(a := None)) + task_of r"
    using in_flight_remove [OF assms(2), of a] assms(3) by (simp add: task_at_def)
  then show ?thesis
    using R(1) queue_items_cong [OF R(2)] assms(4,5) by (simp add: known_tasks_def task_of_def)
qed

theorem reaper_loses_task_witness:
  "known_tasks demo_busy = add_mset (''t1'', 2) (known_tasks (reapAgent 9 ''a1'' demo_busy))"
proof -
  have "finite (dom (agents (store demo_busy)))" "fCurrentTaskID (demo_agent StateWorking) \<noteq> ''''"
    by (simp_all add: demo_busy_def demo_agent_def)
  then show ?thesis
    using reaper_loses_task [OF demo_busy_facts(1) _ demo_busy_facts(3,5), of 9]
    by (simp add: demo_agent_def)
qed

end
