(* ===== verification/Dag_Graph.thy ===== *)
theory Dag_Graph
  imports Prelude "HOL-Library.Finite_Map"
begin

section \<open>internal/dag/graph.go and sort.go: task graphs and their levels\<close>

text \<open>
  A \<open>DAGSpec\<close> (proto/orchestrator.proto) is turned into a \<open>Graph\<close> of Go maps, here finite maps; the
  levels come from Kahn's algorithm, level by level. The loop of \<open>TopologicalSort\<close> is the recursive
  function \<open>topo_loop\<close>, which terminates on every graph because an in-degree reaches zero at most
  once. The lemmas show the loop's invariant, from which the properties follow: the levels partition
  the nodes, every dependency lies in an earlier level, and the error is returned exactly for
  cyclic graphs.
\<close>

subsection \<open>Specifications\<close>

record TaskSpec =
  tsTaskId :: string
  tsPrompt :: string
  tsModelTier :: string
  tsPriority :: rat
  tsMetadata :: "string \<rightharpoonup> string"

record DAGNode =
  dnNodeId :: string
  dnTask :: "TaskSpec option"
  dnDependsOn :: "string list"

record DAGEdge =
  deFromNode :: string
  deToNode :: string

record DAGSpec =
  dsDagId :: string
  dsNodes :: "DAGNode list"
  dsEdges :: "DAGEdge list"

record Graph =
  dagID :: string
  nodes :: "(string, DAGNode) fmap"
  successors :: "(string, string list) fmap"
  predecessors :: "(string, string list) fmap"
  nodeOrder :: "string list"

text \<open>Reading a missing key gives the zero value.\<close>

definition slice_at :: "(string, string list) fmap \<Rightarrow> string \<Rightarrow> string list" where
  "slice_at m k = (case fmlookup m k of None \<Rightarrow> [] | Some xs \<Rightarrow> xs)"

definition int_at :: "(string, int) fmap \<Rightarrow> string \<Rightarrow> int" where
  "int_at m k = (case fmlookup m k of None \<Rightarrow> 0 | Some n \<Rightarrow> n)"

lemma slice_at_upd [simp]: "slice_at (fmupd k xs m) j = (if j = k then xs else slice_at m j)"
  by (simp add: slice_at_def)

lemma int_at_upd [simp]: "int_at (fmupd k n m) j = (if j = k then n else int_at m j)"
  by (simp add: int_at_def)

definition Nodes :: "Graph \<Rightarrow> string list" where
  "Nodes g = nodeOrder g"

definition Predecessors :: "Graph \<Rightarrow> string \<Rightarrow> string list" where
  "Predecessors g nodeID = slice_at (predecessors g) nodeID"

definition TaskSpec_of :: "Graph \<Rightarrow> string \<Rightarrow> TaskSpec option" where
  "TaskSpec_of g nodeID =
     (case fmlookup (nodes g) nodeID of None \<Rightarrow> None | Some n \<Rightarrow> dnTask n)"

definition DAGID :: "Graph \<Rightarrow> string" where
  "DAGID g = dagID g"

definition successorsOf :: "Graph \<Rightarrow> string \<Rightarrow> string list" where
  "successorsOf g nodeID = slice_at (successors g) nodeID"

definition inDegrees :: "Graph \<Rightarrow> (string, int) fmap" where
  "inDegrees g = fmmap (\<lambda>preds. int (length preds)) (predecessors g)"

subsection \<open>TopologicalSort\<close>

text \<open>One decrement, and the scan of a level's successors.\<close>

definition dec_degree ::
  "(string, int) fmap \<times> string list \<Rightarrow> string \<Rightarrow> (string, int) fmap \<times> string list" where
  "dec_degree st succ =
     (let (inDeg, nextQueue) = st;
          d = int_at inDeg succ - 1
      in (fmupd succ d inDeg, if d = 0 then nextQueue @ [succ] else nextQueue))"

definition relax_level ::
  "Graph \<Rightarrow> string list \<Rightarrow> (string, int) fmap \<Rightarrow> (string, int) fmap \<times> string list" where
  "relax_level g currentLevel inDeg =
     foldl (\<lambda>st nodeID. foldl dec_degree st (successorsOf g nodeID)) (inDeg, []) currentLevel"

lemma dec_degree_pair: "dec_degree (D, q) s =
    (fmupd s (int_at D s - 1) D, if int_at D s - 1 = 0 then q @ [s] else q)"
  by (simp add: dec_degree_def Let_def)

lemma relax_level_flat:
  "relax_level g level D = foldl dec_degree (D, []) (concat (map (successorsOf g) level))"
proof -
  have "foldl (\<lambda>st u. foldl dec_degree st (successorsOf g u)) st level =
      foldl dec_degree st (concat (map (successorsOf g) level))" for st
    by (induction level arbitrary: st) simp_all
  then show ?thesis by (simp add: relax_level_def)
qed

definition positive :: "(string, int) fmap \<Rightarrow> string set" where
  "positive D = {k. 0 < int_at D k}"

lemma finite_positive [simp]: "finite (positive D)"
proof (rule finite_subset)
  show "positive D \<subseteq> fmdom' D"
    by (auto simp: positive_def int_at_def fmdom'I split: option.splits)
qed simp

text \<open>What a run of decrements does: degrees drop by the number of occurrences, and the nodes
  that reach zero are appended, each once.\<close>

lemma foldl_dec_degree:
  assumes "foldl dec_degree (D, q) S = (D', q')"
  shows "(\<forall>v. int_at D' v = int_at D v - int (count_list S v)) \<and>
    (\<exists>new. q' = q @ new \<and> distinct new \<and>
       set new = {v. 0 < int_at D v \<and> int_at D v \<le> int (count_list S v)})"
  using assms
proof (induction S arbitrary: D q)
  case (Cons s S)
  define d where "d = int_at D s - 1"
  let ?q = "if d = 0 then q @ [s] else q"
  have run: "foldl dec_degree (fmupd s d D, ?q) S = (D', q')"
    using Cons.prems by (simp add: dec_degree_pair d_def)
  note IH = Cons.IH [OF run]
  then obtain new where new: "q' = ?q @ new" "distinct new"
    "set new = {v. 0 < int_at (fmupd s d D) v \<and> int_at (fmupd s d D) v \<le> int (count_list S v)}"
    by blast
  let ?new = "(if d = 0 then [s] else []) @ new"
  have "q' = q @ ?new" "distinct ?new" using new by (auto simp: d_def)
  moreover have "set ?new = {v. 0 < int_at D v \<and> int_at D v \<le> int (count_list (s # S) v)}"
    unfolding set_append new(3) by (auto simp: d_def)
  moreover have "\<forall>v. int_at D' v = int_at D v - int (count_list (s # S) v)"
    using IH by (auto simp: d_def)
  ultimately show ?case by blast
qed simp

lemma relax_level_positive:
  assumes "relax_level g level D = (D', nq)"
  shows "positive D' \<subseteq> positive D" and "set nq \<subseteq> positive D - positive D'"
  using foldl_dec_degree [of D "[]" "concat (map (successorsOf g) level)" D' nq] assms
  by (auto simp: relax_level_flat positive_def)

text \<open>The loop: the queue, the in-degrees, and the accumulated levels and count.\<close>

function topo_loop ::
  "Graph \<Rightarrow> string list \<Rightarrow> (string, int) fmap \<Rightarrow> string list list \<Rightarrow> nat \<Rightarrow>
   string list list \<times> nat" where
  "topo_loop g queue inDeg levels processed =
     (if queue = [] then (levels, processed)
      else let (inDeg', nextQueue) = relax_level g queue inDeg
           in topo_loop g (sort nextQueue) inDeg' (levels @ [queue]) (processed + length queue))"
  by pat_completeness auto
termination
proof (relation "measure (\<lambda>(g, queue, inDeg, levels, processed).
    2 * card (positive inDeg) + (if queue = [] then 0 else 1))", goal_cases)
  case (2 g queue inDeg levels processed st inDeg' nextQueue)
  then have r: "relax_level g queue inDeg = (inDeg', nextQueue)" by simp
  note p = relax_level_positive [OF r]
  show ?case
  proof (cases "nextQueue = []")
    case True
    then show ?thesis using 2 card_mono [OF finite_positive p(1)] by simp
  next
    case False
    then have "positive inDeg' \<subset> positive inDeg" using p by (cases nextQueue) auto
    then have "card (positive inDeg') < card (positive inDeg)" by (simp add: psubset_card_mono)
    then show ?thesis using 2 by simp
  qed
qed simp

declare topo_loop.simps [simp del]

definition TopologicalSort :: "string map_order \<Rightarrow> Graph \<Rightarrow> goerror + string list list" where
  "TopologicalSort ord g =
     (let inDeg = inDegrees g;
          totalNodes = card (fmdom' inDeg);
          queue = sort (filter (\<lambda>id. int_at inDeg id = 0) (ord (fmdom' inDeg)));
          (levels, processed) = topo_loop g queue inDeg [] 0
      in if processed < totalNodes then Inl ErrCycleDetected else Inr levels)"

text \<open>Sorting the seeds removes the order in which Go ranges over the map.\<close>

lemma TopologicalSort_fair:
  assumes "fair_order ord" and "fair_order ord2"
  shows "TopologicalSort ord g = TopologicalSort ord2 g"
  unfolding TopologicalSort_def using assms by (simp add: sort_filter_fair_order)

subsection \<open>NewGraph\<close>

fun add_nodes ::
  "DAGNode list \<Rightarrow> (string, DAGNode) fmap \<Rightarrow> string list \<Rightarrow>
   goerror + ((string, DAGNode) fmap \<times> string list)" where
  "add_nodes [] ns order = Inr (ns, order)"
| "add_nodes (n # rest) ns order =
     (if fmlookup ns (dnNodeId n) \<noteq> None then Inl (Errorf ''%w: %s'' [dnNodeId n] ErrDuplicateNode)
      else if dnTask n = None then Inl (Errorf ''%w: %s'' [dnNodeId n] ErrMissingTaskSpec)
      else add_nodes rest (fmupd (dnNodeId n) n ns) (order @ [dnNodeId n]))"

type_synonym edges = "(string, string list) fmap \<times> (string, string list) fmap"

text \<open>The two nested loops over \<open>DependsOn\<close>; the pair is (predecessors, successors).\<close>

fun add_deps ::
  "(string, DAGNode) fmap \<Rightarrow> string \<Rightarrow> string list \<Rightarrow> edges \<Rightarrow> goerror + edges" where
  "add_deps ns nodeId [] es = Inr es"
| "add_deps ns nodeId (dep # deps) (preds, succs) =
     (if fmlookup ns dep = None
      then Inl (Errorf ''%w: %s referenced by %s'' [dep, nodeId] ErrNodeNotFound)
      else add_deps ns nodeId deps
             (fmupd nodeId (slice_at preds nodeId @ [dep]) preds,
              fmupd dep (slice_at succs dep @ [nodeId]) succs))"

fun add_edges ::
  "(string, DAGNode) fmap \<Rightarrow> DAGNode list \<Rightarrow> edges \<Rightarrow> goerror + edges" where
  "add_edges ns [] es = Inr es"
| "add_edges ns (n # rest) es =
     (case add_deps ns (dnNodeId n) (dnDependsOn n) es of
        Inl e \<Rightarrow> Inl e
      | Inr es' \<Rightarrow> add_edges ns rest es')"

definition empty_slices :: "(string, DAGNode) fmap \<Rightarrow> (string, string list) fmap" where
  "empty_slices ns = fmmap (\<lambda>_. []) ns"

definition NewGraph :: "string map_order \<Rightarrow> DAGSpec option \<Rightarrow> goerror + Graph" where
  "NewGraph ord spec_opt =
     (case spec_opt of
        None \<Rightarrow> Inl ErrEmptyDAG
      | Some spec \<Rightarrow>
        if dsNodes spec = [] then Inl ErrEmptyDAG
        else (case add_nodes (dsNodes spec) fmempty [] of
                Inl e \<Rightarrow> Inl e
              | Inr (ns, order) \<Rightarrow>
                (case add_edges ns (dsNodes spec) (empty_slices ns, empty_slices ns) of
                   Inl e \<Rightarrow> Inl e
                 | Inr (preds, succs) \<Rightarrow>
                   let g = \<lparr>dagID = dsDagId spec, nodes = ns, successors = succs,
                            predecessors = preds, nodeOrder = order\<rparr>
                   in (case TopologicalSort ord g of Inl e \<Rightarrow> Inl e | Inr _ \<Rightarrow> Inr g))))"

subsection \<open>Graphs that NewGraph builds\<close>

definition graph_ok :: "Graph \<Rightarrow> bool" where
  "graph_ok g \<longleftrightarrow>
     distinct (nodeOrder g) \<and> fmdom' (predecessors g) = set (nodeOrder g) \<and>
     fmdom' (nodes g) = set (nodeOrder g) \<and>
     (\<forall>v. set (Predecessors g v) \<subseteq> set (nodeOrder g)) \<and>
     (\<forall>u v. count_list (successorsOf g u) v = count_list (Predecessors g v) u)"

text \<open>\<open>deps g\<close> relates a node to the nodes that depend on it.\<close>

definition deps :: "Graph \<Rightarrow> (string \<times> string) set" where
  "deps g = {(u, v). u \<in> set (Predecessors g v)}"

lemma graph_okD:
  assumes "graph_ok g"
  shows "distinct (nodeOrder g)" and "fmdom' (predecessors g) = set (nodeOrder g)"
    and "set (Predecessors g v) \<subseteq> set (nodeOrder g)"
    and "count_list (successorsOf g u) v = count_list (Predecessors g v) u"
    and "fmdom' (nodes g) = set (nodeOrder g)"
  using assms by (auto simp: graph_ok_def)

lemma Predecessors_dom:
  assumes "graph_ok g" and "u \<in> set (Predecessors g v)"
  shows "v \<in> set (nodeOrder g)"
proof -
  have "fmlookup (predecessors g) v \<noteq> None"
    using assms(2) by (cases "fmlookup (predecessors g) v") (simp_all add: Predecessors_def slice_at_def)
  then show ?thesis using graph_okD(2) [OF assms(1)] by (metis fmdom'_notI fmdom'_notD)
qed

lemma deps_subset: "graph_ok g \<Longrightarrow> deps g \<subseteq> set (nodeOrder g) \<times> set (nodeOrder g)"
  using graph_okD(3) Predecessors_dom by (fastforce simp: deps_def)

lemma finite_deps: "graph_ok g \<Longrightarrow> finite (deps g)"
  by (rule finite_subset [OF deps_subset]) simp_all

subsection \<open>The invariant of the loop\<close>

text \<open>
  \<open>layered g L\<close>: the dependencies of a node are in earlier levels, and one is in the level just
  before, so that no node could have started earlier.
\<close>

definition layered :: "Graph \<Rightarrow> string list list \<Rightarrow> bool" where
  "layered g L \<longleftrightarrow> (\<forall>i < length L. \<forall>v \<in> set (L ! i).
     set (Predecessors g v) \<subseteq> set (concat (take i L)) \<and>
     (0 < i \<longrightarrow> (\<exists>u \<in> set (L ! (i - 1)). u \<in> set (Predecessors g v))))"

definition kahn_inv :: "Graph \<Rightarrow> string list list \<Rightarrow> string list \<Rightarrow> (string, int) fmap \<Rightarrow> bool" where
  "kahn_inv g L Q D \<longleftrightarrow>
     distinct (concat L @ Q) \<and> set (concat L @ Q) \<subseteq> set (nodeOrder g) \<and>
     (\<forall>v. int_at D v = int (length (filter (\<lambda>u. u \<notin> set (concat L)) (Predecessors g v)))) \<and>
     (\<forall>v \<in> set (nodeOrder g). int_at D v = 0 \<longleftrightarrow> v \<in> set (concat L @ Q)) \<and>
     layered g L \<and>
     (\<forall>v \<in> set Q. L \<noteq> [] \<longrightarrow> (\<exists>u \<in> set (last L). u \<in> set (Predecessors g v))) \<and>
     [] \<notin> set L \<and> (\<forall>l \<in> set L. sorted l) \<and> sorted Q"

lemma kahn_invD:
  assumes "kahn_inv g L Q D"
  shows "distinct (concat L @ Q)" and "set (concat L @ Q) \<subseteq> set (nodeOrder g)"
    and "int_at D v = int (length (filter (\<lambda>u. u \<notin> set (concat L)) (Predecessors g v)))"
    and "v \<in> set (nodeOrder g) \<Longrightarrow> int_at D v = 0 \<longleftrightarrow> v \<in> set (concat L @ Q)"
    and "layered g L"
    and "v \<in> set Q \<Longrightarrow> L \<noteq> [] \<Longrightarrow> \<exists>u \<in> set (last L). u \<in> set (Predecessors g v)"
    and "[] \<notin> set L" and "\<forall>l \<in> set L. sorted l" and "sorted Q"
  using assms unfolding kahn_inv_def by blast+

lemma layered_snoc:
  assumes "layered g L" and "\<And>v. v \<in> set Q \<Longrightarrow> set (Predecessors g v) \<subseteq> set (concat L)"
    and "\<And>v. v \<in> set Q \<Longrightarrow> L \<noteq> [] \<Longrightarrow> \<exists>u \<in> set (last L). u \<in> set (Predecessors g v)"
  shows "layered g (L @ [Q])"
  unfolding layered_def
proof (intro allI impI ballI)
  fix i v assume i: "i < length (L @ [Q])" and v: "v \<in> set ((L @ [Q]) ! i)"
  show "set (Predecessors g v) \<subseteq> set (concat (take i (L @ [Q]))) \<and>
      (0 < i \<longrightarrow> (\<exists>u \<in> set ((L @ [Q]) ! (i - 1)). u \<in> set (Predecessors g v)))"
  proof (cases "i < length L")
    case True
    then have "i - 1 < length L" by simp
    then show ?thesis using True assms(1) v by (simp add: layered_def nth_append)
  next
    case False
    then have "i = length L" using i by simp
    then show ?thesis
      using v assms(2,3) by (cases L rule: rev_cases) (auto simp: nth_append)
  qed
qed

lemma filter_split_length:
  assumes "A \<inter> B = {}"
  shows "length (filter (\<lambda>u. u \<notin> A) xs) =
    length (filter (\<lambda>u. u \<in> B) xs) + length (filter (\<lambda>u. u \<notin> A \<union> B) xs)"
  using assms by (induction xs) auto

text \<open>The decrements a level causes at a node: its dependencies in that level, with multiplicity.\<close>

lemma count_level:
  assumes "graph_ok g" and "distinct Q"
  shows "count_list (concat (map (successorsOf g) Q)) v =
    length (filter (\<lambda>u. u \<in> set Q) (Predecessors g v))"
  using assms(2)
proof (induction Q)
  case (Cons q Q)
  have count: "count_list (successorsOf g q) v = length (filter (\<lambda>u. u = q) (Predecessors g v))"
  proof -
    have "count_list xs q = length (filter (\<lambda>u. u = q) xs)" for xs :: "string list"
      by (induction xs) auto
    then show ?thesis by (simp add: graph_okD(4) [OF assms(1)])
  qed
  have "length (filter (\<lambda>u. u \<in> set (q # Q)) xs) =
      length (filter (\<lambda>u. u = q) xs) + length (filter (\<lambda>u. u \<in> set Q) xs)" for xs
    using Cons.prems by (induction xs) auto
  then show ?case using Cons count by simp
qed simp

lemma kahn_step:
  assumes ok: "graph_ok g" and inv: "kahn_inv g L Q D" and "Q \<noteq> []"
    and relax: "relax_level g Q D = (D', nq)"
  shows "kahn_inv g (L @ [Q]) (sort nq) D'"
proof -
  note I = kahn_invD [OF inv]
  let ?V = "set (nodeOrder g)" and ?P = "set (concat L)"
  have dQ: "distinct Q" and disj: "?P \<inter> set Q = {}" using I(1) by auto
  note step = foldl_dec_degree [of D "[]" "concat (map (successorsOf g) Q)" D' nq]
  have D': "int_at D' v = int (length (filter (\<lambda>u. u \<notin> ?P \<union> set Q) (Predecessors g v)))" for v
    using step relax I(3) [of v] filter_split_length [OF disj, of "Predecessors g v"]
    by (simp add: relax_level_flat count_level [OF ok dQ])
  have nq: "distinct nq" "set nq = {v. 0 < int_at D v \<and> int_at D' v = 0}"
  proof -
    have "int_at D' v = int_at D v - int (count_list (concat (map (successorsOf g) Q)) v)" for v
      using step relax by (simp add: relax_level_flat)
    moreover have "0 \<le> int_at D' v" for v by (simp add: D')
    ultimately have "int_at D v \<le> int (count_list (concat (map (successorsOf g) Q)) v) \<longleftrightarrow>
        int_at D' v = 0" for v by (smt (verit))
    then show "distinct nq" "set nq = {v. 0 < int_at D v \<and> int_at D' v = 0}"
      using step relax by (auto simp: relax_level_flat)
  qed
  have le: "int_at D' v \<le> int_at D v" for v
    using step relax by (simp add: relax_level_flat)
  have nqV: "set nq \<subseteq> ?V"
  proof
    fix v assume "v \<in> set nq"
    then have "Predecessors g v \<noteq> []" using nq(2) I(3) [of v] by auto
    then show "v \<in> ?V" using Predecessors_dom [OF ok] by (metis last_in_set)
  qed
  have nq_fresh: "set nq \<inter> (?P \<union> set Q) = {}"
  proof (intro equals0I, elim IntE)
    fix v assume "v \<in> set nq" "v \<in> ?P \<union> set Q"
    then show False using nq(2) subsetD [OF nqV] I(4) [of v] by auto
  qed
  have last_pred: "\<exists>u \<in> set Q. u \<in> set (Predecessors g v)" if "v \<in> set nq" for v
  proof (rule ccontr)
    assume "\<not> ?thesis"
    then have "filter (\<lambda>u. u \<notin> ?P \<union> set Q) (Predecessors g v) =
        filter (\<lambda>u. u \<notin> ?P) (Predecessors g v)"
      by (intro filter_cong) auto
    then show False using that nq(2) D' [of v] I(3) [of v] by auto
  qed
  have Qpreds: "set (Predecessors g v) \<subseteq> ?P" if "v \<in> set Q" for v
    using that I(2) I(4) [of v] I(3) [of v] by (auto simp: filter_empty_conv)
  show ?thesis
    unfolding kahn_inv_def
  proof (intro conjI ballI)
    show "distinct (concat (L @ [Q]) @ sort nq)" using I(1) nq(1) nq_fresh by auto
    show "set (concat (L @ [Q]) @ sort nq) \<subseteq> ?V" using I(2) nqV by auto
    show "\<forall>v. int_at D' v =
        int (length (filter (\<lambda>u. u \<notin> set (concat (L @ [Q]))) (Predecessors g v)))"
      by (simp add: D')
    show "layered g (L @ [Q])" by (rule layered_snoc [OF I(5) Qpreds I(6)])
    show "[] \<notin> set (L @ [Q])" using I(7) \<open>Q \<noteq> []\<close> by auto
  next
    fix v assume "v \<in> ?V"
    then show "int_at D' v = 0 \<longleftrightarrow> v \<in> set (concat (L @ [Q]) @ sort nq)"
      using I(4) [of v] I(3) [of v] nq(2) le [of v] D' [of v] by auto
  next
    fix v assume "v \<in> set (sort nq)"
    then show "L @ [Q] \<noteq> [] \<longrightarrow> (\<exists>u \<in> set (last (L @ [Q])). u \<in> set (Predecessors g v))"
      using last_pred by auto
  qed (use I(8,9) in auto)
qed

lemma kahn_loop:
  assumes "graph_ok g" and "kahn_inv g L Q D" and "p = length (concat L)"
  shows "\<exists>L' D'. topo_loop g Q D L p = (L', length (concat L')) \<and> kahn_inv g L' [] D'"
  using assms
proof (induction g Q D L p rule: topo_loop.induct)
  case (1 g Q D L p)
  show ?case
  proof (cases "Q = []")
    case True
    then show ?thesis using 1(3,4) by (subst topo_loop.simps) auto
  next
    case False
    obtain D' nq where r: "relax_level g Q D = (D', nq)" by fastforce
    have "kahn_inv g (L @ [Q]) (sort nq) D'" by (rule kahn_step [OF 1(2,3) False r])
    moreover have "topo_loop g Q D L p = topo_loop g (sort nq) D' (L @ [Q]) (p + length Q)"
      using False r by (simp add: topo_loop.simps [of g Q D L p])
    ultimately show ?thesis
      using 1(1) [OF False r [symmetric] refl, simplified] 1(2,4) by auto
  qed
qed

subsection \<open>What TopologicalSort returns\<close>

lemma inDegrees_at: "int_at (inDegrees g) v = int (length (Predecessors g v))"
  by (simp add: inDegrees_def int_at_def Predecessors_def slice_at_def split: option.splits)

lemma inDegrees_dom [simp]: "fmdom' (inDegrees g) = fmdom' (predecessors g)"
  by (simp add: inDegrees_def)

lemma kahn_init:
  assumes "graph_ok g" and "fair_order ord"
  shows "kahn_inv g []
    (sort (filter (\<lambda>id. int_at (inDegrees g) id = 0) (ord (fmdom' (inDegrees g))))) (inDegrees g)"
  using assms graph_okD(2) [OF assms(1)]
  by (auto simp: kahn_inv_def inDegrees_at layered_def filter_id_conv)

text \<open>An acyclic graph is one whose levels are exhausted.\<close>

lemma layered_acyclic:
  assumes ok: "graph_ok g" and "layered g L" and d: "distinct (concat L)"
    and cover: "set (concat L) = set (nodeOrder g)"
  shows "acyclic (deps g)"
proof -
  define lvl where "lvl v = (LEAST i. i < length L \<and> v \<in> set (L ! i))" for v
  have lvl: "lvl v < length L \<and> v \<in> set (L ! lvl v)" if v: "v \<in> set (nodeOrder g)" for v
  proof -
    have "\<exists>l \<in> set L. v \<in> set l" using v cover by auto
    then have "\<exists>i. i < length L \<and> v \<in> set (L ! i)" by (metis in_set_conv_nth)
    then show ?thesis unfolding lvl_def by (rule LeastI_ex)
  qed
  have "deps g \<subseteq> measure lvl"
  proof (clarify, unfold in_measure)
    fix u v assume e: "(u, v) \<in> deps g"
    then have v: "v \<in> set (nodeOrder g)" using deps_subset [OF ok] by auto
    then have "set (Predecessors g v) \<subseteq> set (concat (take (lvl v) L))"
      using assms(2) lvl [OF v] unfolding layered_def by blast
    then have "u \<in> set (concat (take (lvl v) L))"
      using e by (auto simp: deps_def)
    then obtain l where l: "l \<in> set (take (lvl v) L)" "u \<in> set l" by auto
    then obtain i where "i < lvl v" "i < length L" "u \<in> set (L ! i)"
      using lvl [OF v] by (auto simp: in_set_conv_nth [of l])
    moreover from this have "lvl u \<le> i" unfolding lvl_def by (intro Least_le) simp
    ultimately show "lvl u < lvl v" by simp
  qed
  then show ?thesis by (meson acyclic_subset wf_acyclic wf_measure)
qed

lemma stuck_cyclic:
  assumes ok: "graph_ok g" and inv: "kahn_inv g L [] D"
    and "set (concat L) \<noteq> set (nodeOrder g)"
  shows "\<not> acyclic (deps g)"
proof
  assume "acyclic (deps g)"
  then have wf: "wf (deps g)" by (rule finite_acyclic_wf [OF finite_deps [OF ok]])
  note I = kahn_invD [OF inv]
  let ?U = "set (nodeOrder g) - set (concat L)"
  have "?U \<noteq> {}" using I(2) assms(3) by auto
  then obtain v where v: "v \<in> ?U" and least: "\<And>u. (u, v) \<in> deps g \<Longrightarrow> u \<notin> ?U"
    using wfE_min' [OF wf] by metis
  have "int_at D v \<noteq> 0" using I(4) [of v] v by auto
  then have "filter (\<lambda>u. u \<notin> set (concat L)) (Predecessors g v) \<noteq> []"
    using I(3) [of v] by (metis list.size(3) of_nat_0)
  then obtain u where "u \<in> set (Predecessors g v)" "u \<notin> set (concat L)"
    by (auto simp: filter_empty_conv)
  then show False
    using least [of u] graph_okD(3) [OF ok, of v] by (auto simp: deps_def)
qed

lemma TopologicalSort_cases:
  assumes ok: "graph_ok g" and fair: "fair_order ord"
  obtains L D where "kahn_inv g L [] D"
    and "TopologicalSort ord g =
      (if set (concat L) = set (nodeOrder g) then Inr L else Inl ErrCycleDetected)"
    and "set (concat L) = set (nodeOrder g) \<longleftrightarrow> acyclic (deps g)"
proof -
  let ?Q = "sort (filter (\<lambda>id. int_at (inDegrees g) id = 0) (ord (fmdom' (inDegrees g))))"
  obtain L D where L: "topo_loop g ?Q (inDegrees g) [] 0 = (L, length (concat L))"
    and inv: "kahn_inv g L [] D"
    using kahn_loop [OF ok kahn_init [OF ok fair], of 0] by auto
  have sub: "set (concat L) \<subseteq> set (nodeOrder g)" and dist: "distinct (concat L)"
    using kahn_invD(1,2) [OF inv] by auto
  have card: "card (fmdom' (inDegrees g)) = card (set (nodeOrder g))"
    by (simp add: graph_okD(2) [OF ok])
  have len: "length (concat L) = card (set (concat L))"
    by (rule distinct_card [OF dist, symmetric])
  have "length (concat L) < card (set (nodeOrder g)) \<longleftrightarrow> set (concat L) \<noteq> set (nodeOrder g)"
    unfolding len using sub card_mono [OF List.finite_set sub]
      card_subset_eq [OF List.finite_set sub] by (metis le_neq_implies_less less_irrefl)
  then have "TopologicalSort ord g =
      (if set (concat L) = set (nodeOrder g) then Inr L else Inl ErrCycleDetected)"
    using L card by (simp add: TopologicalSort_def Let_def del: length_concat set_concat)
  moreover have "set (concat L) = set (nodeOrder g) \<longleftrightarrow> acyclic (deps g)"
    using layered_acyclic [OF ok kahn_invD(5) [OF inv] dist] stuck_cyclic [OF ok inv] by blast
  ultimately show ?thesis by (rule that [OF inv])
qed

lemma TopologicalSort_Inr:
  assumes "graph_ok g" and "fair_order ord" and "TopologicalSort ord g = Inr L"
  shows "distinct (concat L)" and "set (concat L) = set (nodeOrder g)" and "layered g L"
    and "[] \<notin> set L" and "\<forall>l \<in> set L. sorted l" and "acyclic (deps g)"
proof -
  obtain L' D where L: "kahn_inv g L' [] D"
    "TopologicalSort ord g =
      (if set (concat L') = set (nodeOrder g) then Inr L' else Inl ErrCycleDetected)"
    "set (concat L') = set (nodeOrder g) \<longleftrightarrow> acyclic (deps g)"
    using TopologicalSort_cases [OF assms(1,2)] .
  then have eq: "L' = L" and cover: "set (concat L') = set (nodeOrder g)"
    using assms(3) by (simp_all split: if_splits)
  show "distinct (concat L)" "set (concat L) = set (nodeOrder g)" "layered g L"
    "[] \<notin> set L" "\<forall>l \<in> set L. sorted l" "acyclic (deps g)"
    using kahn_invD [OF L(1)] cover L(3) unfolding eq by simp_all
qed

lemma TopologicalSort_iff:
  assumes "graph_ok g" and "fair_order ord"
  shows "TopologicalSort ord g = Inl ErrCycleDetected \<longleftrightarrow> \<not> acyclic (deps g)"
    and "(\<exists>L. TopologicalSort ord g = Inr L) \<longleftrightarrow> acyclic (deps g)"
  using TopologicalSort_cases [OF assms] by (metis Inl_Inr_False)+

subsection \<open>What NewGraph checks and builds\<close>

lemma add_nodes_Inr:
  assumes "add_nodes xs ns order = Inr (ns', order')"
  shows "order' = order @ map dnNodeId xs" and "fmdom' ns' = fmdom' ns \<union> dnNodeId ` set xs"
    and "distinct (map dnNodeId xs)" and "dnNodeId ` set xs \<inter> fmdom' ns = {}"
    and "\<And>n. n \<in> set xs \<Longrightarrow> dnTask n \<noteq> None \<and> fmlookup ns' (dnNodeId n) = Some n"
    and "\<And>k. k \<notin> dnNodeId ` set xs \<Longrightarrow> fmlookup ns' k = fmlookup ns k"
proof -
  have "order' = order @ map dnNodeId xs \<and> fmdom' ns' = fmdom' ns \<union> dnNodeId ` set xs \<and>
      distinct (map dnNodeId xs) \<and> dnNodeId ` set xs \<inter> fmdom' ns = {} \<and>
      (\<forall>n \<in> set xs. dnTask n \<noteq> None \<and> fmlookup ns' (dnNodeId n) = Some n) \<and>
      (\<forall>k. k \<notin> dnNodeId ` set xs \<longrightarrow> fmlookup ns' k = fmlookup ns k)"
    using assms
  proof (induction xs ns order rule: add_nodes.induct)
    case (2 n rest ns order)
    then show ?case by (auto simp: fmdom'_notI split: if_splits)
  qed simp
  then show "order' = order @ map dnNodeId xs" "fmdom' ns' = fmdom' ns \<union> dnNodeId ` set xs"
    "distinct (map dnNodeId xs)" "dnNodeId ` set xs \<inter> fmdom' ns = {}"
    "\<And>n. n \<in> set xs \<Longrightarrow> dnTask n \<noteq> None \<and> fmlookup ns' (dnNodeId n) = Some n"
    "\<And>k. k \<notin> dnNodeId ` set xs \<Longrightarrow> fmlookup ns' k = fmlookup ns k"
    by blast+
qed

text \<open>A refusal names a node whose identifier was there before, or a node without a task.\<close>

lemma add_nodes_Inl:
  assumes "add_nodes xs ns order = Inl e"
  shows "(\<exists>k \<in> dnNodeId ` set xs. e = Errorf ''%w: %s'' [k] ErrDuplicateNode \<and>
        (k \<in> fmdom' ns \<or> \<not> distinct (map dnNodeId xs))) \<or>
    (\<exists>n \<in> set xs. dnTask n = None \<and> e = Errorf ''%w: %s'' [dnNodeId n] ErrMissingTaskSpec)"
  using assms
proof (induction xs ns order rule: add_nodes.induct)
  case (2 n rest ns order)
  show ?case
  proof (cases "fmlookup ns (dnNodeId n) \<noteq> None \<or> dnTask n = None")
    case True
    then show ?thesis using 2(2) by (auto simp: fmdom'I split: if_splits)
  next
    case False
    then show ?thesis
      using 2 by (auto simp: image_iff) metis+
  qed
qed simp

lemma add_deps_Inr:
  assumes "add_deps ns v ds (preds, succs) = Inr (preds', succs')"
  shows "set ds \<subseteq> fmdom' ns \<and>
    slice_at preds' w = slice_at preds w @ (if w = v then ds else []) \<and>
    slice_at succs' u = slice_at succs u @ replicate (count_list ds u) v \<and>
    fmdom' preds' \<subseteq> insert v (fmdom' preds) \<and> fmdom' preds \<subseteq> fmdom' preds'"
  using assms
proof (induction ns v ds "(preds, succs)" arbitrary: preds succs rule: add_deps.induct)
  case (2 ns v d ds preds succs)
  then show ?case
    by (auto simp: fmdom'I replicate_app_Cons_same split: if_splits)
qed auto

lemma add_deps_Inl:
  assumes "add_deps ns v ds es = Inl e"
  shows "\<exists>d \<in> set ds. d \<notin> fmdom' ns \<and> e = Errorf ''%w: %s referenced by %s'' [d, v] ErrNodeNotFound"
  using assms
proof (induction ns v ds es rule: add_deps.induct)
  case (2 ns v d ds preds succs)
  then show ?case by (auto simp: fmdom'_notI split: if_splits)
qed simp

definition deps_of :: "DAGNode list \<Rightarrow> string \<Rightarrow> string list" where
  "deps_of xs v = concat (map (\<lambda>n. if dnNodeId n = v then dnDependsOn n else []) xs)"

definition dependents_of :: "DAGNode list \<Rightarrow> string \<Rightarrow> string list" where
  "dependents_of xs u = concat (map (\<lambda>n. replicate (count_list (dnDependsOn n) u) (dnNodeId n)) xs)"

lemma count_replicate: "count_list (replicate n x) y = (if x = y then n else 0)"
  by (induction n) auto

lemma count_dependents: "count_list (dependents_of xs u) v = count_list (deps_of xs v) u"
  by (induction xs) (auto simp: dependents_of_def deps_of_def count_replicate)

lemma add_edges_Inr:
  assumes "add_edges ns xs (preds, succs) = Inr (preds', succs')"
  shows "(\<forall>n \<in> set xs. set (dnDependsOn n) \<subseteq> fmdom' ns) \<and>
    slice_at preds' v = slice_at preds v @ deps_of xs v \<and>
    slice_at succs' u = slice_at succs u @ dependents_of xs u \<and>
    fmdom' preds' \<subseteq> dnNodeId ` set xs \<union> fmdom' preds \<and> fmdom' preds \<subseteq> fmdom' preds'"
  using assms
proof (induction xs arbitrary: preds succs)
  case (Cons n xs)
  then obtain p s where d: "add_deps ns (dnNodeId n) (dnDependsOn n) (preds, succs) = Inr (p, s)"
    and r: "add_edges ns xs (p, s) = Inr (preds', succs')"
    by (auto split: sum.splits)
  have cons: "deps_of (n # xs) v = (if v = dnNodeId n then dnDependsOn n else []) @ deps_of xs v"
    "dependents_of (n # xs) u = replicate (count_list (dnDependsOn n) u) (dnNodeId n) @ dependents_of xs u"
    by (simp_all add: deps_of_def dependents_of_def)
  show ?case
    unfolding cons using Cons.IH [OF r] add_deps_Inr [OF d, of v u] by (simp, blast)
qed (auto simp: deps_of_def dependents_of_def)

lemma add_edges_Inl:
  assumes "add_edges ns xs es = Inl e"
  shows "\<exists>n \<in> set xs. \<exists>d \<in> set (dnDependsOn n). d \<notin> fmdom' ns \<and>
    e = Errorf ''%w: %s referenced by %s'' [d, dnNodeId n] ErrNodeNotFound"
  using assms
proof (induction xs arbitrary: es)
  case (Cons n xs)
  show ?case
  proof (cases "add_deps ns (dnNodeId n) (dnDependsOn n) es")
    case (Inl e')
    then show ?thesis using Cons.prems add_deps_Inl [OF Inl] by simp
  next
    case (Inr es')
    then show ?thesis using Cons.prems Cons.IH [of es'] by simp
  qed
qed simp

lemma deps_of_distinct:
  "distinct (map dnNodeId xs) \<Longrightarrow> n \<in> set xs \<Longrightarrow> deps_of xs (dnNodeId n) = dnDependsOn n"
proof (induction xs)
  case (Cons m xs)
  have none: "deps_of xs v = []" if "v \<notin> dnNodeId ` set xs" for v
    using that by (induction xs) (auto simp: deps_of_def)
  have cons: "deps_of (m # xs) v = (if dnNodeId m = v then dnDependsOn m else []) @ deps_of xs v" for v
    by (simp add: deps_of_def)
  show ?case
  proof (cases "n = m")
    case True
    then show ?thesis using Cons.prems by (simp add: cons none)
  next
    case False
    then have "n \<in> set xs" "dnNodeId m \<noteq> dnNodeId n" using Cons.prems by auto
    then show ?thesis using Cons by (simp add: cons)
  qed
qed simp

lemma set_deps_of: "set (deps_of xs v) = \<Union> {set (dnDependsOn n) | n. n \<in> set xs \<and> dnNodeId n = v}"
  by (auto simp: deps_of_def split: if_splits)

text \<open>
  A specification is well formed when it has nodes, their identifiers differ, each has a task and
  every dependency names a node; \<open>spec_deps\<close> is the dependency relation it declares. The \<open>edges\<close>
  field of the message plays no part: the code never reads it.
\<close>

definition spec_ids :: "DAGSpec \<Rightarrow> string set" where
  "spec_ids spec = dnNodeId ` set (dsNodes spec)"

definition spec_ok :: "DAGSpec \<Rightarrow> bool" where
  "spec_ok spec \<longleftrightarrow> dsNodes spec \<noteq> [] \<and> distinct (map dnNodeId (dsNodes spec)) \<and>
     (\<forall>n \<in> set (dsNodes spec). dnTask n \<noteq> None \<and> set (dnDependsOn n) \<subseteq> spec_ids spec)"

definition spec_deps :: "DAGSpec \<Rightarrow> (string \<times> string) set" where
  "spec_deps spec = {(d, dnNodeId n) | d n. n \<in> set (dsNodes spec) \<and> d \<in> set (dnDependsOn n)}"

text \<open>The graph that is handed to \<open>TopologicalSort\<close> inside \<open>NewGraph\<close>.\<close>

lemma built_graph:
  assumes a: "add_nodes (dsNodes spec) fmempty [] = Inr (ns, order)"
    and e: "add_edges ns (dsNodes spec) (empty_slices ns, empty_slices ns) = Inr (preds, succs)"
    and g: "g = \<lparr>dagID = dsDagId spec, nodes = ns, successors = succs,
                 predecessors = preds, nodeOrder = order\<rparr>"
  shows "graph_ok g" and "deps g = spec_deps spec" and "set (nodeOrder g) = spec_ids spec"
    and "nodeOrder g = map dnNodeId (dsNodes spec)"
    and "\<And>n. n \<in> set (dsNodes spec) \<Longrightarrow> Predecessors g (dnNodeId n) = dnDependsOn n"
    and "\<And>n. n \<in> set (dsNodes spec) \<Longrightarrow> TaskSpec_of g (dnNodeId n) = dnTask n"
    and "dsNodes spec \<noteq> [] \<Longrightarrow> spec_ok spec"
proof -
  note A = add_nodes_Inr [OF a]
  have none: "slice_at (empty_slices ns) k = []" for k
    by (simp add: slice_at_def empty_slices_def split: option.splits)
  have E: "slice_at preds v = deps_of (dsNodes spec) v"
    "slice_at succs u = dependents_of (dsNodes spec) u"
    "fmdom' preds = fmdom' ns" "\<forall>n \<in> set (dsNodes spec). set (dnDependsOn n) \<subseteq> fmdom' ns" for u v
    using add_edges_Inr [OF e, of v u] A(2) none by (auto simp: empty_slices_def)
  have order: "order = map dnNodeId (dsNodes spec)" using A(1) by simp
  have sub: "set (deps_of (dsNodes spec) v) \<subseteq> spec_ids spec" for v
    using E(4) A(2) by (auto simp: set_deps_of spec_ids_def)
  show "graph_ok g"
    using A(2,3) sub by (simp add: graph_ok_def g order Predecessors_def successorsOf_def E
        count_dependents spec_ids_def)
  show "deps g = spec_deps spec"
    by (auto simp: deps_def spec_deps_def g Predecessors_def E set_deps_of)
  show "set (nodeOrder g) = spec_ids spec" "nodeOrder g = map dnNodeId (dsNodes spec)"
    by (simp_all add: g order spec_ids_def)
  show "Predecessors g (dnNodeId n) = dnDependsOn n" if "n \<in> set (dsNodes spec)" for n
    using that by (simp add: g Predecessors_def E deps_of_distinct [OF A(3)])
  show "TaskSpec_of g (dnNodeId n) = dnTask n" if "n \<in> set (dsNodes spec)" for n
    using A(5) [OF that] by (simp add: g TaskSpec_of_def)
  show "spec_ok spec" if "dsNodes spec \<noteq> []"
    using that A(2,3,5) E(4) by (auto simp: spec_ok_def spec_ids_def)
qed

text \<open>The outcomes of \<open>NewGraph\<close>, each with what it means for the specification.\<close>

lemma NewGraph_outcome:
  assumes "fair_order ord"
  shows "(case NewGraph ord (Some spec) of
      Inr g \<Rightarrow> spec_ok spec \<and> acyclic (spec_deps spec) \<and> graph_ok g \<and> deps g = spec_deps spec \<and>
        nodeOrder g = map dnNodeId (dsNodes spec) \<and> dagID g = dsDagId spec \<and>
        (\<forall>n \<in> set (dsNodes spec). Predecessors g (dnNodeId n) = dnDependsOn n \<and>
           TaskSpec_of g (dnNodeId n) = dnTask n) \<and>
        (\<exists>L. TopologicalSort ord g = Inr L)
    | Inl e \<Rightarrow>
        (e = ErrEmptyDAG \<and> dsNodes spec = []) \<or>
        (\<exists>i. e = Errorf ''%w: %s'' [i] ErrDuplicateNode \<and> \<not> distinct (map dnNodeId (dsNodes spec))) \<or>
        (\<exists>n \<in> set (dsNodes spec). e = Errorf ''%w: %s'' [dnNodeId n] ErrMissingTaskSpec \<and> dnTask n = None) \<or>
        (\<exists>n \<in> set (dsNodes spec). \<exists>d \<in> set (dnDependsOn n). d \<notin> spec_ids spec \<and>
           e = Errorf ''%w: %s referenced by %s'' [d, dnNodeId n] ErrNodeNotFound) \<or>
        (e = ErrCycleDetected \<and> spec_ok spec \<and> \<not> acyclic (spec_deps spec)))"
proof (cases "dsNodes spec = []")
  case True
  then show ?thesis by (simp add: NewGraph_def)
next
  case ne: False
  show ?thesis
  proof (cases "add_nodes (dsNodes spec) fmempty []")
    case (Inl e)
    then show ?thesis
      using ne add_nodes_Inl [OF Inl] by (auto simp: NewGraph_def)
  next
    case (Inr r)
    obtain ns order where a: "add_nodes (dsNodes spec) fmempty [] = Inr (ns, order)"
      using Inr by (cases r) auto
    have ids: "fmdom' ns = spec_ids spec" using add_nodes_Inr(2) [OF a] by (simp add: spec_ids_def)
    show ?thesis
    proof (cases "add_edges ns (dsNodes spec) (empty_slices ns, empty_slices ns)")
      case (Inl e)
      then show ?thesis
        using ne a add_edges_Inl [OF Inl] by (auto simp: NewGraph_def ids)
    next
      case (Inr r2)
      obtain preds succs where e: "add_edges ns (dsNodes spec) (empty_slices ns, empty_slices ns) =
          Inr (preds, succs)"
        using Inr by (cases r2) auto
      define g where "g = \<lparr>dagID = dsDagId spec, nodes = ns, successors = succs,
        predecessors = preds, nodeOrder = order\<rparr>"
      note B = built_graph [OF a e g_def]
      have n: "NewGraph ord (Some spec) =
          (case TopologicalSort ord g of Inl e \<Rightarrow> Inl e | Inr _ \<Rightarrow> Inr g)"
        using ne a e unfolding NewGraph_def g_def by (simp add: Let_def)
      show ?thesis
      proof (cases "acyclic (spec_deps spec)")
        case True
        then obtain L where "TopologicalSort ord g = Inr L"
          using TopologicalSort_iff(2) [OF B(1) assms] B(2) by auto
        then show ?thesis using n True B ne by (simp add: g_def)
      next
        case False
        then have "TopologicalSort ord g = Inl ErrCycleDetected"
          using TopologicalSort_iff(1) [OF B(1) assms] B(2) by simp
        then show ?thesis using n False B(7) ne by simp
      qed
    qed
  qed
qed

subsection \<open>Properties\<close>

text \<open>
  C9. \<open>NewGraph\<close> accepts a specification exactly when it is well formed (it has nodes, no identifier
  twice, a task on every node, no dependency on an unknown node) and its dependencies have no
  cycle, whatever order Go ranges over its maps in.
\<close>

theorem NewGraph_accepts_iff:
  assumes "fair_order ord"
  shows "(\<exists>g. NewGraph ord (Some spec) = Inr g) \<longleftrightarrow> spec_ok spec \<and> acyclic (spec_deps spec)"
  using NewGraph_outcome [OF assms, of spec]
  by (cases "NewGraph ord (Some spec)") (auto simp: spec_ok_def)

definition demo_task :: TaskSpec where
  "demo_task = \<lparr>tsTaskId = ''t'', tsPrompt = ''p'', tsModelTier = ''haiku'', tsPriority = 1,
     tsMetadata = Map.empty\<rparr>"

definition demo_node :: "string \<Rightarrow> string list \<Rightarrow> DAGNode" where
  "demo_node i ds = \<lparr>dnNodeId = i, dnTask = Some demo_task, dnDependsOn = ds\<rparr>"

definition demo_diamond :: DAGSpec where
  "demo_diamond = \<lparr>dsDagId = ''dag'',
     dsNodes = [demo_node ''d'' [''b'', ''c''], demo_node ''c'' [''a''], demo_node ''b'' [''a''],
                demo_node ''a'' []], dsEdges = []\<rparr>"

definition demo_loop :: DAGSpec where
  "demo_loop = \<lparr>dsDagId = ''dag'', dsNodes = [demo_node ''a'' [''b''], demo_node ''b'' [''a'']],
     dsEdges = []\<rparr>"

lemma demo_diamond_ok: "spec_ok demo_diamond" and demo_diamond_acyclic: "acyclic (spec_deps demo_diamond)"
proof -
  show "spec_ok demo_diamond"
    by (simp add: demo_diamond_def demo_node_def spec_ok_def spec_ids_def)
  let ?rank = "\<lambda>v. if v = ''a'' then 0 else if v = ''d'' then 2 else (1 :: nat)"
  have "spec_deps demo_diamond \<subseteq> measure ?rank"
    by (auto simp: demo_diamond_def demo_node_def spec_deps_def)
  then show "acyclic (spec_deps demo_diamond)" by (meson acyclic_subset wf_acyclic wf_measure)
qed

theorem NewGraph_accepts_iff_witness:
  "(\<exists>g. NewGraph sorted_list_of_set (Some demo_diamond) = Inr g) \<and>
   \<not> (\<exists>g. NewGraph sorted_list_of_set (Some demo_loop) = Inr g)"
proof -
  have "(''a'', ''b'') \<in> spec_deps demo_loop" "(''b'', ''a'') \<in> spec_deps demo_loop"
    by (force simp: demo_loop_def demo_node_def spec_deps_def)+
  then have "\<not> acyclic (spec_deps demo_loop)" by (meson acyclic_def r_into_trancl' trancl_trans)
  then show ?thesis
    unfolding NewGraph_accepts_iff [OF fair_order_sorted]
    using demo_diamond_ok demo_diamond_acyclic by blast
qed

text \<open>
  A refused specification gets the error of its first defect in the code's order of checks:
  no nodes, then a repeated identifier or a missing task, then a dependency that names no node,
  and the cycle error only for a specification that is otherwise well formed; each error names
  the node at fault.
\<close>

theorem NewGraph_refusal:
  assumes "fair_order ord" and "NewGraph ord (Some spec) = Inl e"
  shows "(e = ErrEmptyDAG \<and> dsNodes spec = []) \<or>
    (\<exists>i. e = Errorf ''%w: %s'' [i] ErrDuplicateNode \<and> \<not> distinct (map dnNodeId (dsNodes spec))) \<or>
    (\<exists>n \<in> set (dsNodes spec). e = Errorf ''%w: %s'' [dnNodeId n] ErrMissingTaskSpec \<and> dnTask n = None) \<or>
    (\<exists>n \<in> set (dsNodes spec). \<exists>d \<in> set (dnDependsOn n). d \<notin> spec_ids spec \<and>
       e = Errorf ''%w: %s referenced by %s'' [d, dnNodeId n] ErrNodeNotFound) \<or>
    (e = ErrCycleDetected \<and> spec_ok spec \<and> \<not> acyclic (spec_deps spec))"
  using NewGraph_outcome [OF assms(1), of spec] assms(2) by simp

theorem NewGraph_refusal_witness:
  "NewGraph sorted_list_of_set (Some (demo_diamond\<lparr>dsNodes := [demo_node ''a'' [''z'']]\<rparr>)) =
     Inl (Errorf ''%w: %s referenced by %s'' [''z'', ''a''] ErrNodeNotFound)"
proof -
  let ?s = "demo_diamond\<lparr>dsNodes := [demo_node ''a'' [''z'']]\<rparr>"
  obtain e where e: "NewGraph sorted_list_of_set (Some ?s) = Inl e"
    by (simp add: NewGraph_def demo_node_def)
  then show ?thesis
    using NewGraph_refusal [OF fair_order_sorted e]
    by (auto simp: demo_node_def spec_ok_def spec_ids_def)
qed

text \<open>
  C8. The plan of an accepted graph: \<open>TopologicalSort\<close> succeeds on it, with the same levels for
  every map order; the levels are sorted, non-empty, and list every node once; the dependencies of
  a node all lie in earlier levels, and one of them in the level just before, so each node runs at
  the earliest level its dependencies allow.
\<close>

theorem levels_correct:
  assumes "fair_order ord" and "fair_order ord2" and "NewGraph ord (Some spec) = Inr g"
  shows "\<exists>L. TopologicalSort ord g = Inr L \<and> TopologicalSort ord2 g = Inr L \<and>
    distinct (concat L) \<and> set (concat L) = spec_ids spec \<and> (\<forall>l \<in> set L. l \<noteq> [] \<and> sorted l) \<and>
    (\<forall>i < length L. \<forall>n \<in> set (dsNodes spec). dnNodeId n \<in> set (L ! i) \<longrightarrow>
       set (dnDependsOn n) \<subseteq> set (concat (take i L)) \<and>
       (0 < i \<longrightarrow> set (dnDependsOn n) \<inter> set (L ! (i - 1)) \<noteq> {}))"
proof -
  have o: "graph_ok g" "set (nodeOrder g) = spec_ids spec" "\<exists>L. TopologicalSort ord g = Inr L"
    "\<And>n. n \<in> set (dsNodes spec) \<Longrightarrow> Predecessors g (dnNodeId n) = dnDependsOn n"
    using NewGraph_outcome [OF assms(1), of spec] assms(3) by (auto simp: spec_ids_def)
  obtain L where L: "TopologicalSort ord g = Inr L" using o(3) by blast
  note T = TopologicalSort_Inr [OF o(1) assms(1) L]
  have "TopologicalSort ord2 g = TopologicalSort ord g"
    by (rule TopologicalSort_fair [OF assms(2,1)])
  moreover have "\<forall>i < length L. \<forall>n \<in> set (dsNodes spec). dnNodeId n \<in> set (L ! i) \<longrightarrow>
       set (dnDependsOn n) \<subseteq> set (concat (take i L)) \<and>
       (0 < i \<longrightarrow> set (dnDependsOn n) \<inter> set (L ! (i - 1)) \<noteq> {})"
  proof (intro allI ballI impI)
    fix i n assume h: "i < length L" "n \<in> set (dsNodes spec)" "dnNodeId n \<in> set (L ! i)"
    then show "set (dnDependsOn n) \<subseteq> set (concat (take i L)) \<and>
       (0 < i \<longrightarrow> set (dnDependsOn n) \<inter> set (L ! (i - 1)) \<noteq> {})"
      using T(3) o(4) [OF h(2)] unfolding layered_def by (metis disjoint_iff)
  qed
  ultimately show ?thesis using L T o(2) by auto
qed

theorem levels_correct_witness:
  "\<exists>g L. NewGraph sorted_list_of_set (Some demo_diamond) = Inr g \<and>
     TopologicalSort sorted_list_of_set g = Inr L \<and> set (concat L) = spec_ids demo_diamond"
proof -
  obtain g where g: "NewGraph sorted_list_of_set (Some demo_diamond) = Inr g"
    using NewGraph_outcome [OF fair_order_sorted, of demo_diamond] demo_diamond_ok
      demo_diamond_acyclic
    by (cases "NewGraph sorted_list_of_set (Some demo_diamond)") (auto simp: spec_ok_def)
  show ?thesis
    using levels_correct [OF fair_order_sorted fair_order_sorted g] g by blast
qed

text \<open>The same graph evaluated: the four nodes of the diamond in three levels.\<close>

definition demo_graph :: Graph where
  "demo_graph = \<lparr>dagID = ''dag'', nodes = fmempty,
     successors = fmap_of_list [(''a'', [''c'', ''b'']), (''b'', [''d'']), (''c'', [''d'']), (''d'', [])],
     predecessors = fmap_of_list [(''a'', []), (''b'', [''a'']), (''c'', [''a'']), (''d'', [''b'', ''c''])],
     nodeOrder = [''d'', ''c'', ''b'', ''a'']\<rparr>"

lemma demo_graph_levels:
  "fst (topo_loop demo_graph [''a''] (inDegrees demo_graph) [] 0) = [[''a''], [''b'', ''c''], [''d'']]"
  by (simp add: topo_loop.simps relax_level_def successorsOf_def slice_at_def demo_graph_def
      dec_degree_pair inDegrees_def int_at_def)

end
