(* ===== verification/Dag_Status.thy ===== *)
theory Dag_Status
  imports Dag_Graph
begin

section \<open>internal/dag/status.go: execution records\<close>

text \<open>
  \<open>StatusTracker\<close> holds one mutable record per execution; every method runs under its lock and is
  one definition. \<open>Snapshot\<close> copies a record (its node statuses sorted by identifier, so the map
  order does not show), \<open>ToProtoResponse\<close> is the message sent to clients. The clock is an argument.
\<close>

datatype DAGExecutionState = DAG_UNSPECIFIED | DAG_PENDING | DAG_RUNNING | DAG_COMPLETED | DAG_FAILED

record NodeStatus =
  nsNodeID :: string
  nsState :: DAGExecutionState
  nsStartedAt :: gtime
  nsCompletedAt :: gtime
  nsErrorMessage :: string

record ExecutionRecord =
  erExecutionID :: string
  erDAGID :: string
  erState :: DAGExecutionState
  erNodeStatuses :: "NodeStatus list"
  erStartedAt :: gtime
  erCompletedAt :: gtime

record mutableNodeStatus =
  mnState :: DAGExecutionState
  mnStartedAt :: gtime
  mnCompletedAt :: gtime
  mnErrorMessage :: string

record mutableRecord =
  mrExecutionID :: string
  mrDagID :: string
  mrState :: DAGExecutionState
  mrNodes :: "string \<rightharpoonup> mutableNodeStatus"
  mrStartedAt :: gtime
  mrCompletedAt :: gtime

type_synonym StatusTracker = "string \<rightharpoonup> mutableRecord"

definition NewStatusTracker :: StatusTracker where
  "NewStatusTracker = Map.empty"

definition pendingNode :: mutableNodeStatus where
  "pendingNode = \<lparr>mnState = DAG_PENDING, mnStartedAt = 0, mnCompletedAt = 0, mnErrorMessage = ''''\<rparr>"

definition CreateExecution ::
  "gtime \<Rightarrow> string \<Rightarrow> string \<Rightarrow> string list \<Rightarrow> StatusTracker \<Rightarrow> StatusTracker" where
  "CreateExecution now executionID dag nodeIDs t =
     t(executionID \<mapsto>
       \<lparr>mrExecutionID = executionID, mrDagID = dag, mrState = DAG_RUNNING,
        mrNodes = foldl (\<lambda>m i. m(i \<mapsto> pendingNode)) Map.empty nodeIDs,
        mrStartedAt = now, mrCompletedAt = 0\<rparr>)"

definition MarkNodeRunning :: "gtime \<Rightarrow> string \<Rightarrow> string \<Rightarrow> StatusTracker \<Rightarrow> StatusTracker" where
  "MarkNodeRunning now executionID nodeID t =
     (case t executionID of
        None \<Rightarrow> t
      | Some rec \<Rightarrow>
        (case mrNodes rec nodeID of
           None \<Rightarrow> t
         | Some node \<Rightarrow>
             t(executionID \<mapsto> rec\<lparr>mrNodes := (mrNodes rec)(nodeID \<mapsto>
               node\<lparr>mnState := DAG_RUNNING, mnStartedAt := now\<rparr>)\<rparr>)))"

definition allNodesCompleted :: "(string \<rightharpoonup> mutableNodeStatus) \<Rightarrow> bool" where
  "allNodesCompleted ns \<longleftrightarrow> (\<forall>n \<in> ran ns. mnState n = DAG_COMPLETED)"

definition MarkNodeCompleted :: "gtime \<Rightarrow> string \<Rightarrow> string \<Rightarrow> StatusTracker \<Rightarrow> StatusTracker" where
  "MarkNodeCompleted now executionID nodeID t =
     (case t executionID of
        None \<Rightarrow> t
      | Some rec \<Rightarrow>
        (case mrNodes rec nodeID of
           None \<Rightarrow> t
         | Some node \<Rightarrow>
             let rec1 = rec\<lparr>mrNodes := (mrNodes rec)(nodeID \<mapsto>
                          node\<lparr>mnState := DAG_COMPLETED, mnCompletedAt := now\<rparr>)\<rparr>
             in t(executionID \<mapsto>
                  (if allNodesCompleted (mrNodes rec1)
                   then rec1\<lparr>mrState := DAG_COMPLETED, mrCompletedAt := now\<rparr> else rec1))))"

definition MarkNodeFailed ::
  "gtime \<Rightarrow> string \<Rightarrow> string \<Rightarrow> string \<Rightarrow> StatusTracker \<Rightarrow> StatusTracker" where
  "MarkNodeFailed now executionID nodeID errMsg t =
     (case t executionID of
        None \<Rightarrow> t
      | Some rec \<Rightarrow>
        (case mrNodes rec nodeID of
           None \<Rightarrow> t
         | Some node \<Rightarrow>
             t(executionID \<mapsto>
               rec\<lparr>mrNodes := (mrNodes rec)(nodeID \<mapsto>
                     node\<lparr>mnState := DAG_FAILED, mnCompletedAt := now, mnErrorMessage := errMsg\<rparr>),
                   mrState := DAG_FAILED,
                   mrCompletedAt := (if IsZero (mrCompletedAt rec) then now else mrCompletedAt rec)\<rparr>)))"

definition ActiveCount :: "string map_order \<Rightarrow> StatusTracker \<Rightarrow> nat" where
  "ActiveCount ord t =
     length (filter (\<lambda>i. map_option mrState (t i) = Some DAG_RUNNING) (ord (dom t)))"

definition recordToSnapshot :: "string map_order \<Rightarrow> mutableRecord \<Rightarrow> ExecutionRecord" where
  "recordToSnapshot ord rec =
     \<lparr>erExecutionID = mrExecutionID rec, erDAGID = mrDagID rec, erState = mrState rec,
      erNodeStatuses =
        sort_key nsNodeID
          (map (\<lambda>i. let n = the (mrNodes rec i)
                    in \<lparr>nsNodeID = i, nsState = mnState n, nsStartedAt = mnStartedAt n,
                        nsCompletedAt = mnCompletedAt n, nsErrorMessage = mnErrorMessage n\<rparr>)
             (ord (dom (mrNodes rec)))),
      erStartedAt = mrStartedAt rec, erCompletedAt = mrCompletedAt rec\<rparr>"

definition zeroExecutionRecord :: ExecutionRecord where
  "zeroExecutionRecord = \<lparr>erExecutionID = '''', erDAGID = '''', erState = DAG_UNSPECIFIED,
     erNodeStatuses = [], erStartedAt = 0, erCompletedAt = 0\<rparr>"

definition Snapshot :: "string map_order \<Rightarrow> StatusTracker \<Rightarrow> string \<Rightarrow> ExecutionRecord" where
  "Snapshot ord t executionID =
     (case t executionID of None \<Rightarrow> zeroExecutionRecord | Some rec \<Rightarrow> recordToSnapshot ord rec)"

record DAGNodeStatus =
  pnNodeId :: string
  pnState :: DAGExecutionState
  pnAgentId :: string
  pnError :: string

record GetDAGStatusResponse =
  psDagExecutionId :: string
  psState :: DAGExecutionState
  psNodeStatuses :: "DAGNodeStatus list"

definition ToProtoResponse :: "ExecutionRecord \<Rightarrow> GetDAGStatusResponse" where
  "ToProtoResponse r =
     \<lparr>psDagExecutionId = erExecutionID r, psState = erState r,
      psNodeStatuses = map (\<lambda>ns. \<lparr>pnNodeId = nsNodeID ns, pnState = nsState ns, pnAgentId = '''',
        pnError = nsErrorMessage ns\<rparr>) (erNodeStatuses r)\<rparr>"

definition Status ::
  "string map_order \<Rightarrow> StatusTracker \<Rightarrow> string \<Rightarrow> goerror + GetDAGStatusResponse" where
  "Status ord t execID =
     (let snap = Snapshot ord t execID
      in if erState snap = DAG_UNSPECIFIED then Inl (Errorf ''%w: %s'' [execID] ErrExecutionNotFound)
         else Inr (ToProtoResponse snap))"

subsection \<open>The state of a node and of an execution\<close>

definition node_state :: "StatusTracker \<Rightarrow> string \<Rightarrow> string \<Rightarrow> DAGExecutionState option" where
  "node_state t e n =
     (case t e of None \<Rightarrow> None | Some rec \<Rightarrow> map_option mnState (mrNodes rec n))"

definition exec_state :: "StatusTracker \<Rightarrow> string \<Rightarrow> DAGExecutionState option" where
  "exec_state t e = map_option mrState (t e)"

definition nodes_of :: "StatusTracker \<Rightarrow> string \<Rightarrow> string set" where
  "nodes_of t e = {n. node_state t e n \<noteq> None}"

lemmas tracker_defs = MarkNodeRunning_def MarkNodeCompleted_def MarkNodeFailed_def node_state_def
  exec_state_def

lemma foldl_map_upds: "foldl (\<lambda>m i. m(i \<mapsto> x)) m ks = (\<lambda>k. if k \<in> set ks then Some x else m k)"
  by (induction ks arbitrary: m) (auto simp: fun_eq_iff)

lemma CreateExecution_state:
  "node_state (CreateExecution now e d ns t) e n = (if n \<in> set ns then Some DAG_PENDING else None)"
  "exec_state (CreateExecution now e d ns t) e = Some DAG_RUNNING"
  by (simp_all add: CreateExecution_def node_state_def exec_state_def foldl_map_upds pendingNode_def)

text \<open>The three marks, as updates of the node's state.\<close>

lemma Mark_node_state [simp]:
  "node_state (MarkNodeRunning now e n t) e m =
     (if m = n \<and> node_state t e n \<noteq> None then Some DAG_RUNNING else node_state t e m)"
  "node_state (MarkNodeCompleted now e n t) e m =
     (if m = n \<and> node_state t e n \<noteq> None then Some DAG_COMPLETED else node_state t e m)"
  "node_state (MarkNodeFailed now e n msg t) e m =
     (if m = n \<and> node_state t e n \<noteq> None then Some DAG_FAILED else node_state t e m)"
  by (auto simp: tracker_defs Let_def split: option.splits)

text \<open>The execution's state after each mark.\<close>

lemma Mark_exec_state [simp]:
  "exec_state (MarkNodeRunning now e n t) e = exec_state t e"
  "exec_state (MarkNodeFailed now e n msg t) e =
     (if node_state t e n \<noteq> None then Some DAG_FAILED else exec_state t e)"
  by (auto simp: tracker_defs split: option.splits)

lemma allNodesCompleted_iff:
  "t e = Some rec \<Longrightarrow>
    allNodesCompleted (mrNodes rec) \<longleftrightarrow> (\<forall>n \<in> nodes_of t e. node_state t e n = Some DAG_COMPLETED)"
  by (auto simp: allNodesCompleted_def nodes_of_def node_state_def ran_def)

lemma MarkNodeCompleted_exec_state:
  assumes "node_state t e n \<noteq> None"
  shows "exec_state (MarkNodeCompleted now e n t) e =
    (if \<forall>m \<in> nodes_of t e. m = n \<or> node_state t e m = Some DAG_COMPLETED
     then Some DAG_COMPLETED else exec_state t e)"
proof -
  obtain rec node where r: "t e = Some rec" "mrNodes rec n = Some node"
    using assms by (auto simp: node_state_def split: option.splits)
  let ?ns = "(mrNodes rec)(n \<mapsto> node\<lparr>mnState := DAG_COMPLETED, mnCompletedAt := now\<rparr>)"
  have "allNodesCompleted ?ns \<longleftrightarrow> (\<forall>m \<in> nodes_of t e. m = n \<or> node_state t e m = Some DAG_COMPLETED)"
    using r by (auto simp: allNodesCompleted_def nodes_of_def node_state_def ran_def)
  then show ?thesis
    using r by (auto simp: MarkNodeCompleted_def exec_state_def Let_def)
qed

lemma Mark_nodes_of [simp]:
  "nodes_of (MarkNodeRunning now e n t) e = nodes_of t e"
  "nodes_of (MarkNodeCompleted now e n t) e = nodes_of t e"
  "nodes_of (MarkNodeFailed now e n msg t) e = nodes_of t e"
  by (auto simp: nodes_of_def)

text \<open>Other executions are untouched.\<close>

lemma Mark_other [simp]:
  "e \<noteq> e2 \<Longrightarrow> MarkNodeRunning now e n t e2 = t e2"
  "e \<noteq> e2 \<Longrightarrow> MarkNodeCompleted now e n t e2 = t e2"
  "e \<noteq> e2 \<Longrightarrow> MarkNodeFailed now e n msg t e2 = t e2"
  by (auto simp: tracker_defs Let_def split: option.splits)

subsection \<open>What a snapshot shows\<close>

lemma map_sort_key: "map f (sort_key f xs) = sort (map f xs)"
  by (rule properties_for_sort [symmetric]) (simp_all add: mset_map)

lemma Snapshot_statuses:
  assumes "fair_order ord" and "t e = Some rec" and "finite (dom (mrNodes rec))"
  shows "map nsNodeID (erNodeStatuses (Snapshot ord t e)) = sorted_list_of_set (nodes_of t e)"
    and "(i, s) \<in> (\<lambda>x. (nsNodeID x, nsState x)) ` set (erNodeStatuses (Snapshot ord t e)) \<longleftrightarrow>
      node_state t e i = Some s"
proof -
  have dom: "nodes_of t e = dom (mrNodes rec)"
    using assms(2) by (auto simp: nodes_of_def node_state_def)
  let ?f = "\<lambda>i. let n = the (mrNodes rec i) in \<lparr>nsNodeID = i, nsState = mnState n,
    nsStartedAt = mnStartedAt n, nsCompletedAt = mnCompletedAt n, nsErrorMessage = mnErrorMessage n\<rparr>"
  have st: "erNodeStatuses (Snapshot ord t e) = sort_key nsNodeID (map ?f (ord (dom (mrNodes rec))))"
    using assms(2) by (simp add: Snapshot_def recordToSnapshot_def)
  show "map nsNodeID (erNodeStatuses (Snapshot ord t e)) = sorted_list_of_set (nodes_of t e)"
    unfolding st dom map_sort_key
    by (rule sorted_distinct_set_unique)
      (use assms(1,3) in \<open>auto simp: Let_def comp_def image_image\<close>)
  show "(i, s) \<in> (\<lambda>x. (nsNodeID x, nsState x)) ` set (erNodeStatuses (Snapshot ord t e)) \<longleftrightarrow>
      node_state t e i = Some s"
    unfolding st using assms by (auto simp: node_state_def Let_def image_iff)
qed

lemma Snapshot_all:
  assumes "fair_order ord" and "t e = Some rec" and "finite (dom (mrNodes rec))"
  shows "(\<forall>x \<in> set (erNodeStatuses (Snapshot ord t e)). P (nsState x)) \<longleftrightarrow>
    (\<forall>n \<in> nodes_of t e. \<exists>s. node_state t e n = Some s \<and> P s)"
proof -
  note snap = Snapshot_statuses(2) [where t = t and e = e, OF assms]
  show ?thesis
  proof
    assume a: "\<forall>x \<in> set (erNodeStatuses (Snapshot ord t e)). P (nsState x)"
    have "P s" if "node_state t e n = Some s" for n s
      using snap [of n s] a that by auto
    then show "\<forall>n \<in> nodes_of t e. \<exists>s. node_state t e n = Some s \<and> P s"
      by (auto simp: nodes_of_def)
  next
    assume a: "\<forall>n \<in> nodes_of t e. \<exists>s. node_state t e n = Some s \<and> P s"
    show "\<forall>x \<in> set (erNodeStatuses (Snapshot ord t e)). P (nsState x)"
    proof
      fix x assume "x \<in> set (erNodeStatuses (Snapshot ord t e))"
      then have "node_state t e (nsNodeID x) = Some (nsState x)"
        using snap [of "nsNodeID x" "nsState x"] by (metis (mono_tags, lifting) image_eqI)
      then show "P (nsState x)" using a by (force simp: nodes_of_def)
    qed
  qed
qed

end
