(* ===== verification/Dag_Executor.thy ===== *)
theory Dag_Executor
  imports Dag_Status Completion State_Store
begin

section \<open>internal/dag/executor.go: running a graph level by level\<close>

text \<open>
  \<open>Execute\<close> plans a graph and starts \<open>run\<close> in a goroutine; \<open>run\<close> starts one goroutine per node of a
  level, waits for them all, and goes on unless the context was cancelled. The interleavings of the
  main goroutine and the node goroutines are the step relation \<open>run_step\<close>: one rule per atomic
  action of \<open>run\<close> and \<open>executeNode\<close>, each node with a program counter. The submitter is the
  environment: a submitted task returns nil or an error at any later time. \<open>Shutdown\<close> may cancel
  the context at any moment. \<open>rLog\<close> records the calls of \<open>SubmitTask\<close> in order.
\<close>

subsection \<open>State and steps\<close>

datatype node_pc = Idle | Spawned | MarkedRunning | Submitted | SubmitOk | SubmitErr string
  | FailMarked | Returned

datatype main_pc = NextLevel nat | WaitLevel nat | SkipNodes "string list" | RunDone

record Run =
  rTracker :: StatusTracker
  rMain :: main_pc
  rNode :: "string \<Rightarrow> node_pc"
  rCancelled :: bool
  rLog :: "string list"

definition skipped_msg :: string where
  "skipped_msg = ''skipped: upstream failure''"

inductive run_step :: "string list list \<Rightarrow> string \<Rightarrow> Run \<Rightarrow> Run \<Rightarrow> bool" for levels execID where
  spawn_level: "rMain r = NextLevel i \<Longrightarrow> i < length levels \<Longrightarrow>
     run_step levels execID r (r\<lparr>rMain := WaitLevel i,
       rNode := (\<lambda>n. if n \<in> set (levels ! i) then Spawned else rNode r n)\<rparr>)"
| all_levels_done: "rMain r = NextLevel (length levels) \<Longrightarrow>
     run_step levels execID r (r\<lparr>rMain := RunDone\<rparr>)"
| mark_running: "rNode r n = Spawned \<Longrightarrow>
     run_step levels execID r (r\<lparr>rTracker := MarkNodeRunning now execID n (rTracker r),
       rNode := (rNode r)(n := MarkedRunning)\<rparr>)"
| submit: "rNode r n = MarkedRunning \<Longrightarrow>
     run_step levels execID r (r\<lparr>rNode := (rNode r)(n := Submitted), rLog := rLog r @ [n]\<rparr>)"
| submit_ok: "rNode r n = Submitted \<Longrightarrow>
     run_step levels execID r (r\<lparr>rNode := (rNode r)(n := SubmitOk)\<rparr>)"
| submit_err: "rNode r n = Submitted \<Longrightarrow>
     run_step levels execID r (r\<lparr>rNode := (rNode r)(n := SubmitErr msg)\<rparr>)"
| mark_completed: "rNode r n = SubmitOk \<Longrightarrow>
     run_step levels execID r (r\<lparr>rTracker := MarkNodeCompleted now execID n (rTracker r),
       rNode := (rNode r)(n := Returned)\<rparr>)"
| mark_failed: "rNode r n = SubmitErr msg \<Longrightarrow>
     run_step levels execID r (r\<lparr>rTracker := MarkNodeFailed now execID n msg (rTracker r),
       rNode := (rNode r)(n := FailMarked)\<rparr>)"
| do_cancel: "rNode r n = FailMarked \<Longrightarrow>
     run_step levels execID r (r\<lparr>rCancelled := True, rNode := (rNode r)(n := Returned)\<rparr>)"
| barrier: "rMain r = WaitLevel i \<Longrightarrow> \<forall>n \<in> set (levels ! i). rNode r n = Returned \<Longrightarrow>
     run_step levels execID r (r\<lparr>rMain :=
       (if rCancelled r then SkipNodes (concat (drop (Suc i) levels)) else NextLevel (Suc i))\<rparr>)"
| skip_node: "rMain r = SkipNodes (n # ns) \<Longrightarrow>
     run_step levels execID r (r\<lparr>rTracker := MarkNodeFailed now execID n skipped_msg (rTracker r),
       rMain := SkipNodes ns\<rparr>)"
| skip_done: "rMain r = SkipNodes [] \<Longrightarrow> run_step levels execID r (r\<lparr>rMain := RunDone\<rparr>)"


definition Shutdown :: "Run \<Rightarrow> Run" where
  "Shutdown r = r\<lparr>rCancelled := True\<rparr>"

inductive exec_reach :: "string list list \<Rightarrow> string \<Rightarrow> Run \<Rightarrow> Run \<Rightarrow> bool" for levels execID r0 where
  reach_start: "exec_reach levels execID r0 r0"
| reach_step: "exec_reach levels execID r0 r \<Longrightarrow> run_step levels execID r r' \<Longrightarrow>
     exec_reach levels execID r0 r'"
| reach_shutdown: "exec_reach levels execID r0 r \<Longrightarrow> exec_reach levels execID r0 (Shutdown r)"

definition start_run :: "StatusTracker \<Rightarrow> Run" where
  "start_run t = \<lparr>rTracker = t, rMain = NextLevel 0, rNode = (\<lambda>_. Idle), rCancelled = False, rLog = []\<rparr>"

text \<open>\<open>Execute\<close>: the identifier comes from \<open>uuid.New\<close>; the result carries the levels and the state
  in which the goroutine starts.\<close>

definition Execute ::
  "string map_order \<Rightarrow> string \<Rightarrow> gtime \<Rightarrow> DAGSpec option \<Rightarrow> StatusTracker \<Rightarrow>
   goerror + (string list list \<times> Run)" where
  "Execute ord execID now spec t =
     (case NewGraph ord spec of
        Inl e \<Rightarrow> Inl e
      | Inr g \<Rightarrow>
        (case TopologicalSort ord g of
           Inl e \<Rightarrow> Inl e
         | Inr levels \<Rightarrow>
             Inr (levels, start_run (CreateExecution now execID (DAGID g) (Nodes g) t))))"

subsection \<open>The invariant\<close>

definition pc_states :: "node_pc \<Rightarrow> DAGExecutionState set" where
  "pc_states p = (case p of
      Idle \<Rightarrow> {DAG_PENDING} | Spawned \<Rightarrow> {DAG_PENDING} | MarkedRunning \<Rightarrow> {DAG_RUNNING}
    | Submitted \<Rightarrow> {DAG_RUNNING} | SubmitOk \<Rightarrow> {DAG_RUNNING} | SubmitErr _ \<Rightarrow> {DAG_RUNNING}
    | FailMarked \<Rightarrow> {DAG_FAILED} | Returned \<Rightarrow> {DAG_COMPLETED, DAG_FAILED})"

definition verdict :: "string set \<Rightarrow> (string \<Rightarrow> DAGExecutionState option) \<Rightarrow> DAGExecutionState" where
  "verdict V st = (if \<exists>n \<in> V. st n = Some DAG_FAILED then DAG_FAILED
     else if \<forall>n \<in> V. st n = Some DAG_COMPLETED then DAG_COMPLETED else DAG_RUNNING)"

definition past :: "string list list \<Rightarrow> nat \<Rightarrow> string set" where
  "past levels i = set (concat (take i levels))"

definition future :: "string list list \<Rightarrow> nat \<Rightarrow> string set" where
  "future levels i = set (concat (drop i levels))"

definition completed_node :: "string \<Rightarrow> Run \<Rightarrow> string \<Rightarrow> bool" where
  "completed_node e r n \<longleftrightarrow> node_state (rTracker r) e n = Some DAG_COMPLETED \<and> rNode r n = Returned"

definition pending_node :: "string \<Rightarrow> Run \<Rightarrow> string \<Rightarrow> bool" where
  "pending_node e r n \<longleftrightarrow> node_state (rTracker r) e n = Some DAG_PENDING \<and> rNode r n = Idle"

definition final_node :: "string \<Rightarrow> Run \<Rightarrow> string \<Rightarrow> bool" where
  "final_node e r n \<longleftrightarrow> rNode r n \<in> {Idle, Returned} \<and>
     node_state (rTracker r) e n \<in> {Some DAG_COMPLETED, Some DAG_FAILED}"

text \<open>The part of the invariant that depends on where the main goroutine is.\<close>

fun phase_inv :: "string list list \<Rightarrow> string \<Rightarrow> Run \<Rightarrow> main_pc \<Rightarrow> bool" where
  "phase_inv levels e r (NextLevel i) \<longleftrightarrow> i \<le> length levels \<and>
     (\<forall>n \<in> past levels i. completed_node e r n) \<and> (\<forall>n \<in> future levels i. pending_node e r n)"
| "phase_inv levels e r (WaitLevel i) \<longleftrightarrow> i < length levels \<and>
     (\<forall>n \<in> past levels i. completed_node e r n) \<and> (\<forall>n \<in> future levels (Suc i). pending_node e r n) \<and>
     (\<forall>n \<in> set (levels ! i). rNode r n \<noteq> Idle \<and>
        (\<exists>s \<in> pc_states (rNode r n). node_state (rTracker r) e n = Some s))"
| "phase_inv levels e r (SkipNodes ns) \<longleftrightarrow> distinct ns \<and> set ns \<subseteq> set (concat levels) \<and>
     (\<forall>n \<in> set ns. pending_node e r n) \<and> (\<forall>n \<in> set (concat levels) - set ns. final_node e r n)"
| "phase_inv levels e r RunDone \<longleftrightarrow> (\<forall>n \<in> set (concat levels). final_node e r n)"

definition run_inv :: "string list list \<Rightarrow> string \<Rightarrow> Run \<Rightarrow> bool" where
  "run_inv levels e r \<longleftrightarrow>
     nodes_of (rTracker r) e = set (concat levels) \<and>
     (\<forall>n. n \<notin> set (concat levels) \<longrightarrow> rNode r n = Idle) \<and>
     phase_inv levels e r (rMain r) \<and>
     (\<forall>n. rNode r n = Returned \<and> node_state (rTracker r) e n = Some DAG_FAILED \<longrightarrow> rCancelled r) \<and>
     exec_state (rTracker r) e = Some (verdict (set (concat levels)) (node_state (rTracker r) e)) \<and>
     distinct (rLog r) \<and> (\<forall>n \<in> set (rLog r). rNode r n \<notin> {Idle, Spawned, MarkedRunning}) \<and>
     (\<forall>i < length levels. \<forall>n \<in> set (levels ! i). n \<in> set (rLog r) \<longrightarrow>
        (\<forall>m \<in> past levels i. node_state (rTracker r) e m = Some DAG_COMPLETED))"

lemma run_invD:
  assumes "run_inv levels e r"
  shows "nodes_of (rTracker r) e = set (concat levels)"
    and "n \<notin> set (concat levels) \<Longrightarrow> rNode r n = Idle"
    and "phase_inv levels e r (rMain r)"
    and "rNode r n = Returned \<Longrightarrow> node_state (rTracker r) e n = Some DAG_FAILED \<Longrightarrow> rCancelled r"
    and "exec_state (rTracker r) e = Some (verdict (set (concat levels)) (node_state (rTracker r) e))"
    and "distinct (rLog r)"
    and "n \<in> set (rLog r) \<Longrightarrow> rNode r n \<notin> {Idle, Spawned, MarkedRunning}"
    and "i < length levels \<Longrightarrow> n \<in> set (levels ! i) \<Longrightarrow> n \<in> set (rLog r) \<Longrightarrow>
      m \<in> past levels i \<Longrightarrow> node_state (rTracker r) e m = Some DAG_COMPLETED"
  using assms unfolding run_inv_def by blast+

lemma level_split:
  assumes "i < length levels" and "distinct (concat levels)"
  shows "set (concat levels) = past levels i \<union> set (levels ! i) \<union> future levels (Suc i)"
    and "past levels i \<inter> set (levels ! i) = {}"
    and "future levels (Suc i) \<inter> set (levels ! i) = {}"
    and "past levels i \<inter> future levels (Suc i) = {}"
    and "past levels (Suc i) = past levels i \<union> set (levels ! i)"
    and "future levels i = set (levels ! i) \<union> future levels (Suc i)"
proof -
  have c: "concat levels = concat (take i levels) @ levels ! i @ concat (drop (Suc i) levels)"
    by (metis assms(1) concat.simps(2) concat_append id_take_nth_drop)
  show "set (concat levels) = past levels i \<union> set (levels ! i) \<union> future levels (Suc i)"
    unfolding c past_def future_def by auto
  show "past levels i \<inter> set (levels ! i) = {}" "future levels (Suc i) \<inter> set (levels ! i) = {}"
    "past levels i \<inter> future levels (Suc i) = {}"
    using assms(2) unfolding c past_def future_def distinct_append set_append by blast+
  show "past levels (Suc i) = past levels i \<union> set (levels ! i)"
    using assms(1) by (simp add: past_def take_Suc_conv_app_nth)
  show "future levels i = set (levels ! i) \<union> future levels (Suc i)"
    using assms(1) by (simp add: future_def flip: Cons_nth_drop_Suc)
qed

lemma level_unique:
  fixes levels :: "string list list"
  assumes "distinct (concat levels)" and "i < length levels" and "j < length levels"
    and "n \<in> set (levels ! i)" and "n \<in> set (levels ! j)"
  shows "i = j"
proof (rule ccontr)
  have before: False if "a < b" "b < length levels" "n \<in> set (levels ! a)" "n \<in> set (levels ! b)" for a b
  proof -
    have "levels ! a \<in> set (take b levels)"
      using that(1,2) by (auto simp: in_set_conv_nth intro!: exI [of _ a])
    then have "n \<in> past levels b" using that(3) by (auto simp: past_def)
    then show False using level_split(2) [OF that(2) assms(1)] that(4) by auto
  qed
  assume "i \<noteq> j"
  then show False using before [of i j] before [of j i] assms by (cases "i < j") auto
qed

text \<open>A node goroutine that is under way belongs to the level being waited for.\<close>

lemma active_level:
  assumes "run_inv levels e r" and "distinct (concat levels)" and "rNode r n \<notin> {Idle, Returned}"
  obtains i where "rMain r = WaitLevel i" and "i < length levels" and "n \<in> set (levels ! i)"
proof -
  have V: "n \<in> set (concat levels)" using run_invD(2) [OF assms(1)] assms(3) by blast
  note ph = run_invD(3) [OF assms(1)]
  show ?thesis
  proof (cases "rMain r")
    case (NextLevel i)
    have "set (concat levels) = past levels i \<union> future levels i"
      by (metis append_take_drop_id concat_append future_def past_def set_append)
    then show ?thesis
      using ph V assms(3) NextLevel by (auto simp: completed_node_def pending_node_def)
  next
    case (WaitLevel i)
    then have i: "i < length levels" using ph by simp
    then show ?thesis
      using that [OF WaitLevel i] ph V assms(3) WaitLevel level_split(1) [OF i assms(2)]
      by (auto simp: completed_node_def pending_node_def)
  next
    case (SkipNodes ns)
    then show ?thesis
      using ph V assms(3) by (cases "n \<in> set ns") (auto simp: pending_node_def final_node_def)
  next
    case RunDone
    then show ?thesis using ph V assms(3) by (auto simp: final_node_def)
  qed
qed

lemma verdict_upd_running:
  assumes "st n \<notin> {Some DAG_COMPLETED, Some DAG_FAILED}" and "s \<notin> {DAG_COMPLETED, DAG_FAILED}"
  shows "verdict V (st(n := Some s)) = verdict V st"
proof -
  have "(\<exists>m \<in> V. (st(n := Some s)) m = Some DAG_FAILED) = (\<exists>m \<in> V. st m = Some DAG_FAILED)"
    and "(\<forall>m \<in> V. (st(n := Some s)) m = Some DAG_COMPLETED) = (\<forall>m \<in> V. st m = Some DAG_COMPLETED)"
    using assms by auto
  then show ?thesis unfolding verdict_def by (simp only:)
qed

lemma verdict_upd_completed:
  assumes "n \<in> V" and "st n \<notin> {Some DAG_COMPLETED, Some DAG_FAILED}"
  shows "verdict V (st(n := Some DAG_COMPLETED)) =
    (if \<forall>m \<in> V. m = n \<or> st m = Some DAG_COMPLETED then DAG_COMPLETED else verdict V st)"
  using assms by (auto simp: verdict_def)

lemma verdict_upd_failed: "n \<in> V \<Longrightarrow> verdict V (st(n := Some DAG_FAILED)) = DAG_FAILED"
  by (auto simp: verdict_def)

text \<open>One action of a node goroutine.\<close>

lemma active_update:
  assumes inv: "run_inv levels e r" and dist: "distinct (concat levels)"
    and active: "rNode r n \<notin> {Idle, Returned}"
    and st: "node_state (rTracker r') e = (node_state (rTracker r) e)(n := Some s)"
    and nodes: "nodes_of (rTracker r') e = nodes_of (rTracker r) e"
    and pc: "rNode r' = (rNode r)(n := p)" "p \<notin> {Idle, Spawned}" "s \<in> pc_states p"
    and main: "rMain r' = rMain r"
    and canc: "rCancelled r \<Longrightarrow> rCancelled r'" "p = Returned \<Longrightarrow> s = DAG_FAILED \<Longrightarrow> rCancelled r'"
    and ex: "exec_state (rTracker r') e = Some (verdict (set (concat levels)) (node_state (rTracker r') e))"
    and log: "rLog r' = rLog r \<or> (rLog r' = rLog r @ [n] \<and> n \<notin> set (rLog r))"
    and logpc: "n \<in> set (rLog r') \<Longrightarrow> p \<noteq> MarkedRunning"
  shows "run_inv levels e r'"
proof -
  note I = run_invD [OF inv]
  obtain i where i: "rMain r = WaitLevel i" "i < length levels" "n \<in> set (levels ! i)"
    using active_level [OF inv dist active] .
  note L = level_split [OF i(2) dist]
  have n: "n \<in> set (concat levels)" "n \<notin> past levels i" "n \<notin> future levels (Suc i)"
    using i(3) L by auto
  have ph: "phase_inv levels e r (WaitLevel i)" using I(3) i(1) by simp
  have same: "node_state (rTracker r') e m = node_state (rTracker r) e m \<and> rNode r' m = rNode r m"
    if "m \<noteq> n" for m using that st pc(1) by simp
  have ph': "phase_inv levels e r' (WaitLevel i)"
    unfolding phase_inv.simps
  proof (intro conjI ballI)
    fix m assume "m \<in> past levels i"
    then show "completed_node e r' m" using ph n(2) same [of m] by (auto simp: completed_node_def)
  next
    fix m assume "m \<in> future levels (Suc i)"
    then show "pending_node e r' m" using ph n(3) same [of m] by (auto simp: pending_node_def)
  next
    fix m assume m: "m \<in> set (levels ! i)"
    show "rNode r' m \<noteq> Idle" using m ph pc by auto
    show "\<exists>s \<in> pc_states (rNode r' m). node_state (rTracker r') e m = Some s"
      using m ph pc same [of m] st by (cases "m = n") auto
  qed (rule i(2))
  have keep: "node_state (rTracker r') e m = Some DAG_COMPLETED"
    if "m \<in> past levels j" "j < length levels" "k \<in> set (levels ! j)" "k \<in> set (rLog r)" for m j k
  proof -
    have c: "node_state (rTracker r) e m = Some DAG_COMPLETED" by (rule I(8) [OF that(2,3,4,1)])
    have "m \<noteq> n"
    proof
      assume "m = n"
      then have "DAG_COMPLETED \<in> pc_states (rNode r n)" using ph c i(3) by auto
      then show False using active by (cases "rNode r n") (auto simp: pc_states_def)
    qed
    with c same show ?thesis by simp
  qed
  have logn: "node_state (rTracker r') e m = Some DAG_COMPLETED"
    if "j < length levels" "n \<in> set (levels ! j)" "m \<in> past levels j" for j m
  proof -
    have "j = i" by (rule level_unique [OF dist that(1) i(2) that(2) i(3)])
    then show ?thesis using ph that(3) n(2) same [of m] by (auto simp: completed_node_def)
  qed
  show ?thesis
    unfolding run_inv_def
  proof (intro conjI allI impI ballI)
    show "nodes_of (rTracker r') e = set (concat levels)" using nodes I(1) by simp
    show "phase_inv levels e r' (rMain r')" using ph' main i(1) by simp
    show "rCancelled r'" if "rNode r' m = Returned \<and> node_state (rTracker r') e m = Some DAG_FAILED" for m
      using that I(4) [of m] canc st pc(1) by (cases "m = n") auto
    show "rNode r' m \<notin> {Idle, Spawned, MarkedRunning}" if "m \<in> set (rLog r')" for m
      using that I(7) [of m] log logpc pc by (cases "m = n") auto
    show "node_state (rTracker r') e m = Some DAG_COMPLETED"
      if "j < length levels" "k \<in> set (levels ! j)" "k \<in> set (rLog r')" "m \<in> past levels j" for j k m
      using that keep logn log by (cases "k = n") auto
  qed (use I(2,6) n(1) pc(1) ex log in auto)
qed

text \<open>Every rule keeps the invariant: first the actions of the nodes.\<close>

lemma node_state_same: "node_state t e n = Some s \<Longrightarrow> node_state t e = (node_state t e)(n := Some s)"
  by auto

lemma active_state:
  assumes "run_inv levels e r" and "distinct (concat levels)" and "rNode r n \<notin> {Idle, Returned}"
  shows "\<exists>s \<in> pc_states (rNode r n). node_state (rTracker r) e n = Some s"
    and "n \<in> set (concat levels)"
proof -
  obtain i where i: "rMain r = WaitLevel i" "i < length levels" "n \<in> set (levels ! i)"
    using active_level [OF assms] .
  then show "\<exists>s \<in> pc_states (rNode r n). node_state (rTracker r) e n = Some s"
    using run_invD(3) [OF assms(1)] by simp
  show "n \<in> set (concat levels)" using i(2,3) by (auto intro: nth_mem)
qed

lemma mark_running_inv:
  assumes "run_inv levels e r" and "distinct (concat levels)" and pc: "rNode r n = Spawned"
  shows "run_inv levels e (r\<lparr>rTracker := MarkNodeRunning now e n (rTracker r),
     rNode := (rNode r)(n := MarkedRunning)\<rparr>)"
proof -
  have st: "node_state (rTracker r) e n = Some DAG_PENDING"
    using active_state(1) [OF assms(1,2), of n] pc by (simp add: pc_states_def)
  have upd: "node_state (MarkNodeRunning now e n (rTracker r)) e =
      (node_state (rTracker r) e)(n := Some DAG_RUNNING)"
    using st by auto
  have log: "n \<notin> set (rLog r)" using run_invD(7) [OF assms(1)] pc by fastforce
  have v: "verdict (set (concat levels)) ((node_state (rTracker r) e)(n := Some DAG_RUNNING)) =
      verdict (set (concat levels)) (node_state (rTracker r) e)"
    by (rule verdict_upd_running) (use st in simp_all)
  show ?thesis
    by (rule active_update [OF assms(1,2), where n = n and s = DAG_RUNNING and p = MarkedRunning])
      (use pc upd log v run_invD(5) [OF assms(1)] in \<open>simp_all add: pc_states_def\<close>)
qed

lemma local_step_inv:
  assumes "run_inv levels e r" and "distinct (concat levels)"
    and pc: "rNode r n \<in> {MarkedRunning, Submitted}" and p: "p = Submitted \<or> p = SubmitOk \<or> (\<exists>msg. p = SubmitErr msg)"
    and log: "l = rLog r \<and> rNode r n = Submitted \<or> l = rLog r @ [n] \<and> rNode r n = MarkedRunning"
  shows "run_inv levels e (r\<lparr>rNode := (rNode r)(n := p), rLog := l\<rparr>)"
proof -
  have act: "rNode r n \<notin> {Idle, Returned}" using pc by auto
  have st: "node_state (rTracker r) e n = Some DAG_RUNNING"
    using active_state(1) [OF assms(1,2) act] pc by (auto simp: pc_states_def)
  have nl: "n \<notin> set (rLog r)" if "rNode r n = MarkedRunning"
    using run_invD(7) [OF assms(1), of n] that by auto
  show ?thesis
    by (rule active_update [OF assms(1,2) act, where s = DAG_RUNNING and p = p])
      (use node_state_same [OF st] log nl p run_invD(5) [OF assms(1)] in \<open>auto simp: pc_states_def\<close>)
qed

lemma mark_completed_inv:
  assumes "run_inv levels e r" and "distinct (concat levels)" and pc: "rNode r n = SubmitOk"
  shows "run_inv levels e (r\<lparr>rTracker := MarkNodeCompleted now e n (rTracker r),
     rNode := (rNode r)(n := Returned)\<rparr>)"
proof -
  have act: "rNode r n \<notin> {Idle, Returned}" using pc by auto
  note I = run_invD [OF assms(1)]
  have st: "node_state (rTracker r) e n = Some DAG_RUNNING"
    using active_state(1) [OF assms(1,2) act] pc by (auto simp: pc_states_def)
  have n: "n \<in> set (concat levels)" by (rule active_state(2) [OF assms(1,2) act])
  have upd: "node_state (MarkNodeCompleted now e n (rTracker r)) e =
      (node_state (rTracker r) e)(n := Some DAG_COMPLETED)"
    using st by auto
  define V where "V = set (concat levels)"
  have "exec_state (MarkNodeCompleted now e n (rTracker r)) e =
      (if \<forall>m \<in> V. m = n \<or> node_state (rTracker r) e m = Some DAG_COMPLETED
       then Some DAG_COMPLETED else Some (verdict V (node_state (rTracker r) e)))"
    using MarkNodeCompleted_exec_state [of "rTracker r" e n now] st
    unfolding I(1) I(5) V_def [symmetric] by simp
  moreover have "n \<in> V" using n by (simp add: V_def)
  ultimately have v: "exec_state (MarkNodeCompleted now e n (rTracker r)) e =
      Some (verdict V ((node_state (rTracker r) e)(n := Some DAG_COMPLETED)))"
    using st verdict_upd_completed [of n V "node_state (rTracker r) e"] by auto
  show ?thesis
    by (rule active_update [OF assms(1,2) act, where s = DAG_COMPLETED and p = Returned])
      (use upd v in \<open>simp_all add: pc_states_def V_def\<close>)
qed

lemma mark_failed_inv:
  assumes "run_inv levels e r" and "distinct (concat levels)" and pc: "rNode r n = SubmitErr m"
  shows "run_inv levels e (r\<lparr>rTracker := MarkNodeFailed now e n msg (rTracker r),
     rNode := (rNode r)(n := FailMarked)\<rparr>)"
proof -
  have act: "rNode r n \<notin> {Idle, Returned}" using pc by auto
  have st: "node_state (rTracker r) e n = Some DAG_RUNNING"
    using active_state(1) [OF assms(1,2) act] pc by (auto simp: pc_states_def)
  have n: "n \<in> set (concat levels)" by (rule active_state(2) [OF assms(1,2) act])
  have upd: "node_state (MarkNodeFailed now e n msg (rTracker r)) e =
      (node_state (rTracker r) e)(n := Some DAG_FAILED)"
    using st by auto
  show ?thesis
    by (rule active_update [OF assms(1,2) act, where s = DAG_FAILED and p = FailMarked])
      (use upd st verdict_upd_failed [OF n] in \<open>simp_all add: pc_states_def\<close>)
qed

lemma do_cancel_inv:
  assumes "run_inv levels e r" and "distinct (concat levels)" and pc: "rNode r n = FailMarked"
  shows "run_inv levels e (r\<lparr>rCancelled := True, rNode := (rNode r)(n := Returned)\<rparr>)"
proof -
  have act: "rNode r n \<notin> {Idle, Returned}" using pc by auto
  have st: "node_state (rTracker r) e n = Some DAG_FAILED"
    using active_state(1) [OF assms(1,2) act] pc by (auto simp: pc_states_def)
  show ?thesis
    by (rule active_update [OF assms(1,2) act, where s = DAG_FAILED and p = Returned])
      (use node_state_same [OF st] run_invD(5) [OF assms(1)] in \<open>simp_all add: pc_states_def\<close>)
qed

text \<open>Then the actions of the main goroutine.\<close>

lemma main_update:
  assumes "run_inv levels e r" and "phase_inv levels e (r\<lparr>rMain := p\<rparr>) p"
  shows "run_inv levels e (r\<lparr>rMain := p\<rparr>)"
  using assms unfolding run_inv_def by simp

lemma phase_frame [simp]:
  "completed_node e (r\<lparr>rMain := p\<rparr>) = completed_node e r"
  "pending_node e (r\<lparr>rMain := p\<rparr>) = pending_node e r"
  "final_node e (r\<lparr>rMain := p\<rparr>) = final_node e r"
  "completed_node e (r\<lparr>rCancelled := c\<rparr>) = completed_node e r"
  "pending_node e (r\<lparr>rCancelled := c\<rparr>) = pending_node e r"
  "final_node e (r\<lparr>rCancelled := c\<rparr>) = final_node e r"
  by (auto simp: fun_eq_iff completed_node_def pending_node_def final_node_def)

lemma Shutdown_inv: "run_inv levels e r \<Longrightarrow> run_inv levels e (Shutdown r)"
  unfolding run_inv_def Shutdown_def by (cases "rMain r") simp_all

lemma completed_final: "completed_node e r n \<Longrightarrow> final_node e r n"
  by (simp add: completed_node_def final_node_def)

lemma past_length: "past levels (length levels) = set (concat levels)"
  by (simp add: past_def)

lemma all_levels_done_inv:
  assumes "run_inv levels e r" and "rMain r = NextLevel (length levels)"
  shows "run_inv levels e (r\<lparr>rMain := RunDone\<rparr>)"
  by (rule main_update [OF assms(1)])
    (use run_invD(3) [OF assms(1)] assms(2) in
      \<open>simp add: completed_final past_length del: set_concat\<close>)

lemma skip_done_inv:
  assumes "run_inv levels e r" and "rMain r = SkipNodes []"
  shows "run_inv levels e (r\<lparr>rMain := RunDone\<rparr>)"
  by (rule main_update [OF assms(1)]) (use run_invD(3) [OF assms(1)] assms(2) in simp)

lemma spawn_level_inv:
  assumes inv: "run_inv levels e r" and dist: "distinct (concat levels)"
    and main: "rMain r = NextLevel i" and i: "i < length levels"
  shows "run_inv levels e (r\<lparr>rMain := WaitLevel i,
    rNode := (\<lambda>n. if n \<in> set (levels ! i) then Spawned else rNode r n)\<rparr>)"
proof -
  note I = run_invD [OF inv] and L = level_split [OF i dist]
  have ph: "phase_inv levels e r (NextLevel i)" using I(3) main by simp
  have pend: "pending_node e r n" if "n \<in> set (levels ! i)" for n
    using ph that L(6) by simp
  have not_logged: "n \<notin> set (rLog r)" if "n \<in> set (levels ! i)" for n
    using I(7) [of n] pend [OF that] by (auto simp: pending_node_def)
  have V: "n \<in> set (concat levels)" if "n \<in> set (levels ! i)" for n using that L(1) by simp
  let ?r = "r\<lparr>rMain := WaitLevel i, rNode := (\<lambda>n. if n \<in> set (levels ! i) then Spawned else rNode r n)\<rparr>"
  have ph': "phase_inv levels e ?r (WaitLevel i)"
    using ph L i pend
    by (auto simp: completed_node_def pending_node_def pc_states_def)
  show ?thesis
    unfolding run_inv_def
  proof (intro conjI allI impI ballI)
    show "phase_inv levels e ?r (rMain ?r)" using ph' by simp
    show "rNode ?r n = Idle" if "n \<notin> set (concat levels)" for n using that I(2) V by auto
    show "rCancelled ?r" if "rNode ?r n = Returned \<and> node_state (rTracker ?r) e n = Some DAG_FAILED" for n
      using that I(4) [of n] by (simp split: if_splits)
    show "rNode ?r n \<notin> {Idle, Spawned, MarkedRunning}" if "n \<in> set (rLog ?r)" for n
      using that I(7) [of n] not_logged by auto
    show "node_state (rTracker ?r) e m = Some DAG_COMPLETED"
      if "j < length levels" "k \<in> set (levels ! j)" "k \<in> set (rLog ?r)" "m \<in> past levels j" for j k m
      using that I(8) by simp
  qed (use I(1,5,6) in simp_all)
qed

lemma barrier_inv:
  assumes inv: "run_inv levels e r" and dist: "distinct (concat levels)"
    and main: "rMain r = WaitLevel i" and ret: "\<forall>n \<in> set (levels ! i). rNode r n = Returned"
  shows "run_inv levels e (r\<lparr>rMain :=
       (if rCancelled r then SkipNodes (concat (drop (Suc i) levels)) else NextLevel (Suc i))\<rparr>)"
proof (rule main_update [OF inv])
  note I = run_invD [OF inv]
  have ph: "phase_inv levels e r (WaitLevel i)" using I(3) main by simp
  then have i: "i < length levels" by simp
  note L = level_split [OF i dist]
  have st: "node_state (rTracker r) e n \<in> {Some DAG_COMPLETED, Some DAG_FAILED} \<and> rNode r n = Returned"
    if "n \<in> set (levels ! i)" for n
    using ph ret that by (fastforce simp: pc_states_def)
  let ?p = "if rCancelled r then SkipNodes (concat (drop (Suc i) levels)) else NextLevel (Suc i)"
  show "phase_inv levels e (r\<lparr>rMain := ?p\<rparr>) ?p"
  proof (cases "rCancelled r")
    case True
    have "distinct (concat (drop (Suc i) levels))"
      using dist by (metis append_take_drop_id concat_append distinct_append)
    moreover have "set (concat (drop (Suc i) levels)) = future levels (Suc i)"
      by (simp add: future_def)
    moreover have "final_node e r n" if "n \<in> past levels i \<union> set (levels ! i)" for n
      using that ph st by (auto simp: final_node_def completed_node_def)
    ultimately show ?thesis
      using True ph L(1,3,4) by (auto simp: future_def simp del: set_concat)
  next
    case False
    have "completed_node e r n" if "n \<in> set (levels ! i)" for n
      using st [OF that] I(4) [of n] False by (auto simp: completed_node_def)
    then show ?thesis using False ph L(5) i by auto
  qed
qed

lemma skip_node_inv:
  assumes inv: "run_inv levels e r" and dist: "distinct (concat levels)"
    and main: "rMain r = SkipNodes (n # ns)"
  shows "run_inv levels e (r\<lparr>rTracker := MarkNodeFailed now e n msg (rTracker r),
       rMain := SkipNodes ns\<rparr>)"
proof -
  note I = run_invD [OF inv]
  have ph: "phase_inv levels e r (SkipNodes (n # ns))" using I(3) main by simp
  then have st: "node_state (rTracker r) e n = Some DAG_PENDING" and pc: "rNode r n = Idle"
    and n: "n \<in> set (concat levels)"
    by (simp_all add: pending_node_def)
  let ?r = "r\<lparr>rTracker := MarkNodeFailed now e n msg (rTracker r), rMain := SkipNodes ns\<rparr>"
  have upd: "node_state (rTracker ?r) e = (node_state (rTracker r) e)(n := Some DAG_FAILED)"
    using st by auto
  have "pending_node e ?r m" if "m \<in> set ns" for m
    using that ph upd by (auto simp: pending_node_def)
  moreover have "final_node e ?r m" if "m \<in> set (concat levels) - set ns" for m
    using that ph upd pc by (cases "m = n") (auto simp: final_node_def)
  ultimately have ph': "phase_inv levels e ?r (SkipNodes ns)" using ph by simp
  show ?thesis
    unfolding run_inv_def
  proof (intro conjI allI impI ballI)
    show "phase_inv levels e ?r (rMain ?r)" using ph' by simp
    show "rCancelled ?r" if "rNode ?r m = Returned \<and> node_state (rTracker ?r) e m = Some DAG_FAILED" for m
      using that I(4) [of m] upd pc by (cases "m = n") auto
    show "exec_state (rTracker ?r) e =
        Some (verdict (set (concat levels)) (node_state (rTracker ?r) e))"
      using st verdict_upd_failed [OF n] unfolding upd by simp
    show "node_state (rTracker ?r) e m = Some DAG_COMPLETED"
      if "j < length levels" "k \<in> set (levels ! j)" "k \<in> set (rLog ?r)" "m \<in> past levels j" for j k m
      using that I(8) [of j k m] st upd by auto
  qed (use I(1,2,6,7) in auto)
qed

lemma run_step_inv:
  assumes "run_step levels e r r'" and "distinct (concat levels)" and "run_inv levels e r"
  shows "run_inv levels e r'"
  using assms
proof (cases rule: run_step.cases)
  case (submit n)
  then show ?thesis using local_step_inv [OF assms(3,2), of n Submitted "rLog r @ [n]"] by simp
next
  case (submit_ok n)
  then show ?thesis using local_step_inv [OF assms(3,2), of n SubmitOk "rLog r"] by simp
next
  case (submit_err n msg)
  then show ?thesis using local_step_inv [OF assms(3,2), of n "SubmitErr msg" "rLog r"] by simp
qed (use assms in \<open>simp_all add: spawn_level_inv all_levels_done_inv mark_running_inv
       mark_completed_inv mark_failed_inv do_cancel_inv barrier_inv skip_node_inv skip_done_inv
       del: distinct_concat_iff\<close>)

lemma exec_reach_inv:
  assumes "exec_reach levels e r0 r" and "distinct (concat levels)" and "run_inv levels e r0"
  shows "run_inv levels e r"
  using assms by (induction) (auto intro: run_step_inv Shutdown_inv)

subsection \<open>The plan as an interface\<close>

text \<open>
  What \<open>run\<close> needs of the levels it is given: no node twice, and the dependencies of a node in
  earlier levels. Under these two laws a node is submitted only when all it depends on is complete.
\<close>

locale level_planner =
  fixes plan :: "'g \<Rightarrow> string list list"
    and preds :: "'g \<Rightarrow> string \<Rightarrow> string list"
    and valid :: "'g \<Rightarrow> bool"
  assumes plan_distinct: "valid g \<Longrightarrow> distinct (concat (plan g))"
    and plan_preds: "valid g \<Longrightarrow> i < length (plan g) \<Longrightarrow> v \<in> set (plan g ! i) \<Longrightarrow>
      set (preds g v) \<subseteq> set (concat (take i (plan g)))"
begin

lemma submitted_deps_completed:
  assumes "valid g" and "run_inv (plan g) e r" and "n \<in> set (rLog r)" and "d \<in> set (preds g n)"
  shows "node_state (rTracker r) e d = Some DAG_COMPLETED"
proof -
  have "n \<in> set (concat (plan g))"
    using run_invD(2,7) [OF assms(2), of n] assms(3) by blast
  then obtain l where "l \<in> set (plan g)" "n \<in> set l" by auto
  then obtain i where i: "i < length (plan g)" "n \<in> set (plan g ! i)"
    by (auto simp: in_set_conv_nth [of l])
  then have "d \<in> past (plan g) i"
    using plan_preds [OF assms(1) i] assms(4) unfolding past_def by blast
  then show ?thesis by (rule run_invD(8) [OF assms(2) i assms(3)])
qed

lemma reach_run_inv:
  assumes "valid g" and "run_inv (plan g) e r0" and "exec_reach (plan g) e r0 r"
  shows "run_inv (plan g) e r"
  by (rule exec_reach_inv [OF assms(3) plan_distinct [OF assms(1)] assms(2)])

text \<open>A failure at one level keeps every later level from starting.\<close>

lemma failed_level_stops:
  assumes "valid g" and "run_inv (plan g) e r" and "i < j" and "j < length (plan g)"
    and "n \<in> set (plan g ! i)" and "node_state (rTracker r) e n = Some DAG_FAILED"
    and "k \<in> set (plan g ! j)"
  shows "k \<notin> set (rLog r)"
proof
  assume "k \<in> set (rLog r)"
  moreover have "n \<in> past (plan g) j"
  proof -
    have "plan g ! i \<in> set (take j (plan g))"
      using assms(3,4) by (auto simp: in_set_conv_nth intro!: exI [of _ i])
    then show ?thesis using assms(5) by (auto simp: past_def)
  qed
  ultimately have "node_state (rTracker r) e n = Some DAG_COMPLETED"
    using run_invD(8) [OF assms(2,4,7)] by blast
  then show False using assms(6) by simp
qed

end

definition graph_levels :: "Graph \<Rightarrow> string list list" where
  "graph_levels g =
     (case TopologicalSort sorted_list_of_set g of Inl _ \<Rightarrow> [] | Inr levels \<Rightarrow> levels)"

lemma graph_levels_Inr:
  assumes "graph_ok g" and "acyclic (deps g)"
  shows "TopologicalSort sorted_list_of_set g = Inr (graph_levels g)"
proof -
  obtain L where "TopologicalSort sorted_list_of_set g = Inr L"
    using TopologicalSort_iff(2) [OF assms(1) fair_order_sorted] assms(2) by blast
  then show ?thesis by (simp add: graph_levels_def)
qed

interpretation kahn: level_planner graph_levels Predecessors
  "\<lambda>g. graph_ok g \<and> acyclic (deps g)"
proof
  fix g assume g: "graph_ok g \<and> acyclic (deps g)"
  note T = TopologicalSort_Inr [OF conjunct1 [OF g] fair_order_sorted]
  have L: "TopologicalSort sorted_list_of_set g = Inr (graph_levels g)"
    using g by (simp add: graph_levels_Inr)
  show "distinct (concat (graph_levels g))" by (rule T(1) [OF L])
  fix i v assume "i < length (graph_levels g)" "v \<in> set (graph_levels g ! i)"
  then show "set (Predecessors g v) \<subseteq> set (concat (take i (graph_levels g)))"
    using T(3) [OF L] unfolding layered_def by blast
qed

subsection \<open>From Execute to the first state\<close>

lemma start_run_inv:
  assumes "set (concat levels) = set ns" and "ns \<noteq> []"
  shows "run_inv levels e (start_run (CreateExecution now e d ns t))"
proof -
  obtain n where n: "n \<in> set ns" using assms(2) by (cases ns) auto
  have st: "node_state (CreateExecution now e d ns t) e m = (if m \<in> set ns then Some DAG_PENDING else None)"
    for m by (rule CreateExecution_state(1))
  have "verdict (set ns) (node_state (CreateExecution now e d ns t) e) = DAG_RUNNING"
    using n by (auto simp: verdict_def st)
  moreover have "future levels 0 = set ns" using assms(1) by (simp add: future_def)
  ultimately show ?thesis
    unfolding run_inv_def assms(1)
    by (auto simp: start_run_def nodes_of_def st CreateExecution_state(2) past_def pending_node_def)
qed

lemma Execute_start:
  assumes "fair_order ord" and "Execute ord e now (Some spec) t = Inr (levels, r0)"
  obtains g where "graph_ok g" and "acyclic (deps g)" and "levels = graph_levels g"
    and "set (concat levels) = spec_ids spec" and "run_inv levels e r0" and "spec_ids spec \<noteq> {}"
    and "\<And>n. n \<in> set (dsNodes spec) \<Longrightarrow> Predecessors g (dnNodeId n) = dnDependsOn n"
proof -
  obtain g where g: "NewGraph ord (Some spec) = Inr g" and L: "TopologicalSort ord g = Inr levels"
    and r0: "r0 = start_run (CreateExecution now e (DAGID g) (Nodes g) t)"
    using assms(2) by (auto simp: Execute_def split: sum.splits)
  have o: "spec_ok spec" "acyclic (deps g)" "graph_ok g" "nodeOrder g = map dnNodeId (dsNodes spec)"
    "\<And>n. n \<in> set (dsNodes spec) \<Longrightarrow> Predecessors g (dnNodeId n) = dnDependsOn n"
    using NewGraph_outcome [OF assms(1), of spec] g by auto
  have "TopologicalSort sorted_list_of_set g = TopologicalSort ord g"
    by (rule TopologicalSort_fair [OF fair_order_sorted assms(1)])
  then have lv: "levels = graph_levels g" using L by (simp add: graph_levels_def)
  have set: "set (concat levels) = set (nodeOrder g)"
    by (rule TopologicalSort_Inr(2) [OF o(3) assms(1) L])
  have ids: "set (nodeOrder g) = spec_ids spec" "nodeOrder g \<noteq> []"
    using o(1,4) by (simp_all add: spec_ids_def spec_ok_def)
  have "run_inv levels e r0"
    unfolding r0 by (rule start_run_inv) (use set ids(2) in \<open>simp_all add: Nodes_def\<close>)
  then show thesis
    using that [OF o(3,2) lv] set ids o(5) by (metis set_empty)
qed

subsection \<open>Every run ends\<close>

definition pc_work :: "node_pc \<Rightarrow> nat" where
  "pc_work p = (case p of Idle \<Rightarrow> 6 | Spawned \<Rightarrow> 5 | MarkedRunning \<Rightarrow> 4 | Submitted \<Rightarrow> 3
     | SubmitOk \<Rightarrow> 2 | SubmitErr _ \<Rightarrow> 2 | FailMarked \<Rightarrow> 1 | Returned \<Rightarrow> 0)"

fun main_work :: "string list list \<Rightarrow> main_pc \<Rightarrow> nat" where
  "main_work levels (NextLevel i) = 2 * (length levels - i) + length (concat levels) + 2"
| "main_work levels (WaitLevel i) = 2 * (length levels - i) + length (concat levels) + 1"
| "main_work levels (SkipNodes ns) = length ns + 1"
| "main_work levels RunDone = 0"

definition work :: "string list list \<Rightarrow> Run \<Rightarrow> nat" where
  "work levels r = (\<Sum>n \<in> set (concat levels). pc_work (rNode r n)) + main_work levels (rMain r)"

lemma sum_pc_update:
  assumes "finite V" and "n \<in> V" and "pc_work p < pc_work (f n)"
  shows "(\<Sum>m \<in> V. pc_work ((f(n := p)) m)) < (\<Sum>m \<in> V. pc_work (f m))"
  by (rule sum_strict_mono_ex1) (use assms in auto)

lemma node_step_work:
  assumes "run_inv levels e r" and "distinct (concat levels)" and "rNode r n \<notin> {Idle, Returned}"
    and "pc_work p < pc_work (rNode r n)" and "rNode r' = (rNode r)(n := p)" and "rMain r' = rMain r"
  shows "work levels r' < work levels r"
  using sum_pc_update [OF List.finite_set active_state(2) [OF assms(1-3)], of p "rNode r"] assms(4-6)
  by (simp add: work_def del: set_concat)

lemma run_step_work:
  assumes "run_step levels e r r'" and inv: "run_inv levels e r" and dist: "distinct (concat levels)"
  shows "work levels r' < work levels r"
  using assms(1)
proof (cases rule: run_step.cases)
  case (spawn_level i)
  have "pending_node e r n" if "n \<in> set (levels ! i)" for n
    using run_invD(3) [OF inv] spawn_level level_split(6) [OF spawn_level(3) dist] that by simp
  then have "pc_work (rNode r' n) \<le> pc_work (rNode r n)" for n
    using spawn_level by (auto simp: pending_node_def pc_work_def)
  then have "(\<Sum>n \<in> set (concat levels). pc_work (rNode r' n)) \<le>
      (\<Sum>n \<in> set (concat levels). pc_work (rNode r n))"
    by (rule sum_mono)
  then show ?thesis using spawn_level by (simp add: work_def del: set_concat)
next
  case (barrier i)
  have i: "i < length levels" using run_invD(3) [OF inv] barrier by simp
  have "length (concat (drop (Suc i) levels)) \<le> length (concat levels)"
    by (metis append_take_drop_id concat_append le_add2 length_append)
  then show ?thesis using barrier i by (auto simp: work_def simp del: set_concat length_concat)
next
  case (mark_running n now)
  then show ?thesis using node_step_work [OF inv dist, of n MarkedRunning r'] by (simp add: pc_work_def)
next
  case (submit n)
  then show ?thesis using node_step_work [OF inv dist, of n Submitted r'] by (simp add: pc_work_def)
next
  case (submit_ok n)
  then show ?thesis using node_step_work [OF inv dist, of n SubmitOk r'] by (simp add: pc_work_def)
next
  case (submit_err n msg)
  then show ?thesis using node_step_work [OF inv dist, of n "SubmitErr msg" r'] by (simp add: pc_work_def)
next
  case (mark_completed n now)
  then show ?thesis using node_step_work [OF inv dist, of n Returned r'] by (simp add: pc_work_def)
next
  case (mark_failed n msg now)
  then show ?thesis using node_step_work [OF inv dist, of n FailMarked r'] by (simp add: pc_work_def)
next
  case (do_cancel n)
  then show ?thesis using node_step_work [OF inv dist, of n Returned r'] by (simp add: pc_work_def)
qed (simp_all add: work_def)

lemma run_step_enabled:
  assumes inv: "run_inv levels e r" and "rMain r \<noteq> RunDone"
  shows "\<exists>r'. run_step levels e r r'"
proof (cases "rMain r")
  case (NextLevel i)
  then have "i \<le> length levels" using run_invD(3) [OF inv] by simp
  then show ?thesis
    using NextLevel spawn_level [of r i levels e] all_levels_done [of r levels e]
    by (cases "i = length levels") auto
next
  case (WaitLevel i)
  show ?thesis
  proof (cases "\<forall>n \<in> set (levels ! i). rNode r n = Returned")
    case True
    then show ?thesis using barrier [OF WaitLevel] by blast
  next
    case False
    then obtain n where "n \<in> set (levels ! i)" "rNode r n \<noteq> Returned" by blast
    moreover have "rNode r n \<noteq> Idle" using calculation run_invD(3) [OF inv] WaitLevel by simp
    ultimately show ?thesis
      by (cases "rNode r n") (blast intro: run_step.intros)+
  qed
next
  case (SkipNodes ns)
  then show ?thesis by (cases ns) (blast intro: run_step.intros)+
qed (use assms(2) in simp)

subsection \<open>Submitters\<close>

text \<open>
  \<open>TaskEnqueuer\<close> is the one store operation a submitter calls. \<open>StoreSubmitter\<close> returns after the
  enqueue. \<open>BlockingSubmitter\<close> enqueues, waits for the completion and cleans up; between its calls
  other goroutines act on the store and the registry, so it is a step relation.
\<close>

definition StoreSubmitter_SubmitTask ::
  "(string \<Rightarrow> rat \<Rightarrow> 's \<Rightarrow> goerror + 's) \<Rightarrow> string \<Rightarrow> string \<Rightarrow> string \<Rightarrow> rat \<Rightarrow> 's \<Rightarrow> goerror + 's" where
  "StoreSubmitter_SubmitTask enq taskID prompt modelTier priority s = enq taskID priority s"

datatype submit_phase = SbEnqueue | SbWait | SbWaiting chan | SbCleanup "goerror option"
  | SbDone "goerror option"

inductive BlockingSubmitter_step ::
  "(string \<Rightarrow> rat \<Rightarrow> 's \<Rightarrow> goerror + 's) \<Rightarrow> string \<Rightarrow> rat \<Rightarrow>
   submit_phase \<times> 's \<times> CompletionRegistry \<Rightarrow> submit_phase \<times> 's \<times> CompletionRegistry \<Rightarrow> bool"
  for enq taskID priority where
  sb_enqueue_err: "enq taskID priority s = Inl e \<Longrightarrow>
     BlockingSubmitter_step enq taskID priority (SbEnqueue, s, reg) (SbDone (Some e), s, reg)"
| sb_enqueue_ok: "enq taskID priority s = Inr s' \<Longrightarrow>
     BlockingSubmitter_step enq taskID priority (SbEnqueue, s, reg) (SbWait, s', reg)"
| sb_wait: "Wait_begin taskID reg = (ch, reg') \<Longrightarrow>
     BlockingSubmitter_step enq taskID priority (SbWait, s, reg) (SbWaiting ch, s, reg')"
| sb_woken: "res \<in> Wait_outcomes ch ctx_err reg \<Longrightarrow>
     BlockingSubmitter_step enq taskID priority (SbWaiting ch, s, reg) (SbCleanup res, s, reg)"
| sb_cleanup:
    "BlockingSubmitter_step enq taskID priority (SbCleanup res, s, reg)
       (SbDone res, s, Cleanup now taskID reg)"

inductive_cases sb_doneE: "BlockingSubmitter_step enq t p (SbDone res, s, reg) cfg"

text \<open>
  Its runs: the list collects what the others did to the registry meanwhile. They do not clean up
  the task, which only its own submitter does; the store may change in any way.
\<close>

inductive submit_reach ::
  "(string \<Rightarrow> rat \<Rightarrow> 's \<Rightarrow> goerror + 's) \<Rightarrow> string \<Rightarrow> rat \<Rightarrow> 's \<Rightarrow> CompletionRegistry \<Rightarrow>
   reg_op list \<Rightarrow> submit_phase \<times> 's \<times> CompletionRegistry \<Rightarrow> bool"
  for enq t p s0 reg0 where
  sr_start: "submit_reach enq t p s0 reg0 [] (SbEnqueue, s0, reg0)"
| sr_own: "submit_reach enq t p s0 reg0 ops cfg \<Longrightarrow> BlockingSubmitter_step enq t p cfg cfg' \<Longrightarrow>
     submit_reach enq t p s0 reg0 ops cfg'"
| sr_env: "submit_reach enq t p s0 reg0 ops (ph, s, reg) \<Longrightarrow> \<forall>now. op \<noteq> RCleanup t now \<Longrightarrow>
     submit_reach enq t p s0 reg0 (ops @ [op]) (ph, s', reg_step reg op)"

definition submit_inv ::
  "string \<Rightarrow> reg_op list \<Rightarrow> submit_phase \<times> 's \<times> CompletionRegistry \<Rightarrow> bool" where
  "submit_inv t ops cfg = (case cfg of (ph, s, reg) \<Rightarrow>
     reg_inv reg \<and>
     (\<forall>ch. waiters reg t = Some ch \<and> ch \<in> closed_chans reg \<longrightarrow> (\<exists>now. RComplete t now \<in> set ops)) \<and>
     (case ph of SbWaiting ch \<Rightarrow> waits_on reg t ch
        | SbCleanup None \<Rightarrow> (\<exists>now. RComplete t now \<in> set ops)
        | SbDone None \<Rightarrow> (\<exists>now. RComplete t now \<in> set ops) | _ \<Rightarrow> True))"

lemma closed_waiter_step:
  assumes "reg_inv reg" and "waiters (reg_step reg op) t = Some ch"
    and "ch \<in> closed_chans (reg_step reg op)"
  shows "(waiters reg t = Some ch \<and> ch \<in> closed_chans reg) \<or> (\<exists>now. op = RComplete t now)"
  using assms reg_invD [OF assms(1)]
  by (cases op) (fastforce simp: registry_defs split: option.splits if_splits)+

lemma submit_env_inv:
  assumes "submit_inv t ops (ph, s, reg)" and "\<forall>now. op \<noteq> RCleanup t now"
  shows "submit_inv t (ops @ [op]) (ph, s', reg_step reg op)"
proof -
  have inv: "reg_inv reg" using assms(1) by (simp add: submit_inv_def)
  have "\<exists>now. RComplete t now \<in> set (ops @ [op])"
    if "waiters (reg_step reg op) t = Some ch" "ch \<in> closed_chans (reg_step reg op)" for ch
    using closed_waiter_step [OF inv that] assms(1) by (auto simp: submit_inv_def)
  moreover have "waits_on (reg_step reg op) t ch" if "waits_on reg t ch" for ch
    by (rule waits_on_step [OF that]) (use assms(2) in simp)
  ultimately show ?thesis
    using assms(1) reg_step_inv [OF inv]
    by (auto simp: submit_inv_def split: submit_phase.splits option.splits)
qed

lemma submit_own_inv:
  assumes "BlockingSubmitter_step enq t p cfg cfg'" and "submit_inv t ops cfg"
  shows "submit_inv t ops cfg'"
  using assms
proof (cases rule: BlockingSubmitter_step.cases)
  case (sb_wait reg ch reg' s)
  have "reg_inv reg" using assms(2) sb_wait by (simp add: submit_inv_def)
  moreover have "reg' = reg_step reg (RWait t)" using sb_wait by simp
  ultimately have "\<exists>now. RComplete t now \<in> set ops"
    if "waiters reg' t = Some c" "c \<in> closed_chans reg'" for c
    using closed_waiter_step [of reg "RWait t" t c] that assms(2) sb_wait(1)
    by (auto simp: submit_inv_def)
  then show ?thesis
    using sb_wait assms(2) Wait_begin_waits [OF sb_wait(3)] Wait_begin_inv [of reg t]
    by (auto simp: submit_inv_def)
next
  case (sb_woken res ch ctx_err reg s)
  then show ?thesis
    using assms(2)
    by (auto simp: submit_inv_def Wait_outcomes_def waits_on_def split: option.splits if_splits)
next
  case (sb_cleanup res s reg now)
  then show ?thesis
    using assms(2) Cleanup_inv [of reg now t]
    by (auto simp: submit_inv_def Cleanup_def split: option.splits)
qed (auto simp: submit_inv_def)

lemma submit_reach_inv:
  assumes "submit_reach enq t p s0 reg0 ops cfg" and "reg_inv reg0" and "waiters reg0 t = None"
  shows "submit_inv t ops cfg"
  using assms
proof (induction)
  case sr_start
  then show ?case by (simp add: submit_inv_def)
qed (auto intro: submit_own_inv submit_env_inv)

subsection \<open>Properties\<close>

text \<open>
  C3. Dependencies are respected in every interleaving: at every moment of the run of an accepted
  graph, whatever the submitters return and whenever the executor is shut down, each node has been
  submitted at most once, and a node that has been submitted has all its dependencies completed.
\<close>

theorem executor_dependency_order:
  assumes "fair_order ord" and "Execute ord e now (Some spec) t = Inr (levels, r0)"
    and "exec_reach levels e r0 r"
  shows "distinct (rLog r) \<and> set (rLog r) \<subseteq> spec_ids spec \<and>
    (\<forall>n \<in> set (dsNodes spec). dnNodeId n \<in> set (rLog r) \<longrightarrow>
       (\<forall>d \<in> set (dnDependsOn n). node_state (rTracker r) e d = Some DAG_COMPLETED))"
proof -
  obtain g where g: "graph_ok g" "acyclic (deps g)" "levels = graph_levels g"
    "set (concat levels) = spec_ids spec" "run_inv levels e r0"
    "\<And>n. n \<in> set (dsNodes spec) \<Longrightarrow> Predecessors g (dnNodeId n) = dnDependsOn n"
    using Execute_start [OF assms(1,2)] by metis
  have inv: "run_inv (graph_levels g) e r"
    by (rule kahn.reach_run_inv) (use g assms(3) in simp_all)
  have "set (rLog r) \<subseteq> spec_ids spec"
    using run_invD(2,7) [OF inv] g(3,4) by blast
  then show ?thesis
    using kahn.submitted_deps_completed [OF _ inv] g(1,2,6) run_invD(6) [OF inv] by auto
qed

definition demo_levels :: "string list list" where
  "demo_levels = graph_levels (projr (NewGraph sorted_list_of_set (Some demo_diamond)))"

lemma demo_execute:
  obtains levels r0 where "Execute sorted_list_of_set ''e'' 1 (Some demo_diamond) NewStatusTracker =
    Inr (levels, r0)"
proof -
  obtain g where "NewGraph sorted_list_of_set (Some demo_diamond) = Inr g"
    and "\<exists>L. TopologicalSort sorted_list_of_set g = Inr L"
    using NewGraph_outcome [OF fair_order_sorted, of demo_diamond] demo_diamond_ok
      demo_diamond_acyclic
    by (cases "NewGraph sorted_list_of_set (Some demo_diamond)") (auto simp: spec_ok_def)
  then show thesis using that by (auto simp: Execute_def)
qed

theorem executor_dependency_order_witness:
  "\<exists>levels r0. Execute sorted_list_of_set ''e'' 1 (Some demo_diamond) NewStatusTracker =
     Inr (levels, r0) \<and> distinct (rLog (Shutdown r0)) \<and>
     set (rLog (Shutdown r0)) \<subseteq> spec_ids demo_diamond"
proof -
  obtain levels r0 where x: "Execute sorted_list_of_set ''e'' 1 (Some demo_diamond) NewStatusTracker =
    Inr (levels, r0)" using demo_execute .
  then show ?thesis
    using executor_dependency_order [OF fair_order_sorted x reach_shutdown [OF reach_start]] by blast
qed



text \<open>
  C5. When \<open>run\<close> has returned, every node is completed or failed, none is left pending or running,
  and the status a client reads lists every node once, in order, with the execution completed if
  all nodes are and failed otherwise.
\<close>

theorem executor_final_status:
  assumes "fair_order ord" and "fair_order ord2"
    and "Execute ord e now (Some spec) t = Inr (levels, r0)"
    and "exec_reach levels e r0 r" and "rMain r = RunDone"
  shows "\<exists>resp. Status ord2 (rTracker r) e = Inr resp \<and>
    map pnNodeId (psNodeStatuses resp) = sorted_list_of_set (spec_ids spec) \<and>
    (\<forall>s \<in> set (psNodeStatuses resp). pnState s = DAG_COMPLETED \<or> pnState s = DAG_FAILED) \<and>
    psState resp = (if \<forall>s \<in> set (psNodeStatuses resp). pnState s = DAG_COMPLETED
                    then DAG_COMPLETED else DAG_FAILED)"
proof -
  obtain g where g: "graph_ok g" "acyclic (deps g)" "levels = graph_levels g"
    "set (concat levels) = spec_ids spec" "run_inv levels e r0" "spec_ids spec \<noteq> {}"
    using Execute_start [OF assms(1,3)] by metis
  have inv: "run_inv levels e r"
    unfolding g(3) by (rule kahn.reach_run_inv) (use g assms(4) in simp_all)
  let ?V = "spec_ids spec" and ?st = "node_state (rTracker r) e"
  have nodes: "nodes_of (rTracker r) e = ?V" using run_invD(1) [OF inv] g(4) by simp
  have final: "?st n = Some DAG_COMPLETED \<or> ?st n = Some DAG_FAILED" if "n \<in> ?V" for n
    using run_invD(3) [OF inv] assms(5) that g(4) by (auto simp: final_node_def simp del: set_concat)
  obtain rec where rec: "rTracker r e = Some rec" "mrState rec = verdict ?V ?st"
    using run_invD(5) [OF inv] g(4) by (auto simp: exec_state_def)
  have fin: "finite (dom (mrNodes rec))"
    using nodes rec(1) by (auto simp: nodes_of_def node_state_def dom_def spec_ids_def)
  let ?snap = "Snapshot ord2 (rTracker r) e"
  note all = Snapshot_all [where t = "rTracker r" and e = e, OF assms(2) rec(1) fin, unfolded nodes]
  have vs: "erState ?snap = (if \<forall>n \<in> ?V. ?st n = Some DAG_COMPLETED then DAG_COMPLETED else DAG_FAILED)"
    using rec final by (auto simp: Snapshot_def recordToSnapshot_def verdict_def)
  have "Status ord2 (rTracker r) e = Inr (ToProtoResponse ?snap)"
    using vs by (simp add: Status_def Let_def)
  moreover have "map nsNodeID (erNodeStatuses ?snap) = sorted_list_of_set ?V"
    using Snapshot_statuses(1) [where t = "rTracker r" and e = e, OF assms(2) rec(1) fin] nodes by simp
  moreover have "\<forall>x \<in> set (erNodeStatuses ?snap). nsState x = DAG_COMPLETED \<or> nsState x = DAG_FAILED"
    using all [of "\<lambda>s. s = DAG_COMPLETED \<or> s = DAG_FAILED"] final by auto
  moreover have "(\<forall>x \<in> set (erNodeStatuses ?snap). nsState x = DAG_COMPLETED) \<longleftrightarrow>
      (\<forall>n \<in> ?V. ?st n = Some DAG_COMPLETED)"
    using all [of "\<lambda>s. s = DAG_COMPLETED"] by simp
  ultimately show ?thesis
    by (simp add: ToProtoResponse_def comp_def vs)
qed

lemma reaches_done:
  assumes "distinct (concat levels)" and "run_inv levels e r" and "exec_reach levels e r0 r"
  shows "\<exists>r'. exec_reach levels e r0 r' \<and> rMain r' = RunDone"
  using assms(2,3)
proof (induction "work levels r" arbitrary: r rule: less_induct)
  case less
  show ?case
  proof (cases "rMain r = RunDone")
    case False
    then obtain r' where r': "run_step levels e r r'"
      using run_step_enabled [OF less.prems(1)] by blast
    show ?thesis
      by (rule less.hyps [OF run_step_work [OF r' less.prems(1) assms(1)]
            run_step_inv [OF r' assms(1) less.prems(1)] reach_step [OF less.prems(2) r']])
  qed (use less.prems in blast)
qed

theorem executor_final_status_witness:
  "\<exists>levels r0 r resp. Execute sorted_list_of_set ''e'' 1 (Some demo_diamond) NewStatusTracker =
     Inr (levels, r0) \<and> exec_reach levels ''e'' r0 r \<and>
     Status sorted_list_of_set (rTracker r) ''e'' = Inr resp \<and>
     map pnNodeId (psNodeStatuses resp) = sorted_list_of_set (spec_ids demo_diamond)"
proof -
  obtain levels r0 where x: "Execute sorted_list_of_set ''e'' 1 (Some demo_diamond) NewStatusTracker =
    Inr (levels, r0)" using demo_execute .
  obtain g where g: "graph_ok g" "acyclic (deps g)" "levels = graph_levels g" "run_inv levels ''e'' r0"
    using Execute_start [OF fair_order_sorted x] by metis
  have "distinct (concat levels)" unfolding g(3) by (rule kahn.plan_distinct) (use g in simp)
  then obtain r where r: "exec_reach levels ''e'' r0 r" "rMain r = RunDone"
    using reaches_done [OF _ g(4) reach_start] by blast
  show ?thesis
    using executor_final_status [OF fair_order_sorted fair_order_sorted x r] x r(1) by blast
qed

text \<open>
  A task submitted through \<open>BlockingSubmitter\<close> under an identifier that no waiter or earlier
  completion is registered for counts as done only if the supervisor completed it: whatever other
  goroutines do to the store and the registry in between (short of cleaning up this task), a
  \<open>SubmitTask\<close> that returns nil was preceded by a \<open>Complete\<close> of that very task since it was called.
\<close>

theorem BlockingSubmitter_nil_completed:
  assumes "waiters (reg_after ttl before) taskID = None"
    and "submit_reach enq taskID priority s0 (reg_after ttl before) ops (SbDone None, s, reg)"
  shows "\<exists>now. RComplete taskID now \<in> set ops"
  using submit_reach_inv [OF assms(2) reg_after_inv assms(1)] by (simp add: submit_inv_def)

theorem BlockingSubmitter_nil_completed_witness:
  "\<exists>s reg. submit_reach EnqueueTask ''t'' 1 NewMockStore (reg_after 60 []) [RComplete ''t'' 7]
     (SbDone None, s, reg) \<and> (\<exists>now. RComplete ''t'' now \<in> set [RComplete ''t'' 7])"
proof -
  let ?reach = "submit_reach EnqueueTask ''t'' 1 NewMockStore (reg_after 60 [])"
  obtain s where s: "EnqueueTask ''t'' 1 NewMockStore = Inr s"
    by (simp add: EnqueueTask_def EnqueueTaskWithMeta_def NewMockStore_def Let_def zeroTaskMeta_def
        TaskMeta_IsZero_def)
  obtain ch r1 where w: "Wait_begin ''t'' (reg_after 60 []) = (ch, r1)" by fastforce
  let ?r2 = "reg_step r1 (RComplete ''t'' 7)"
  have "?reach [] (SbWaiting ch, s, r1)"
    by (rule sr_own [OF sr_own [OF sr_start sb_enqueue_ok [of EnqueueTask, OF s]]
          sb_wait [of "''t''", OF w]])
  then have "?reach ([] @ [RComplete ''t'' 7]) (SbWaiting ch, s, ?r2)" by (rule sr_env) simp
  moreover have "None \<in> Wait_outcomes ch None ?r2"
    using w by (auto simp: reg_after_def NewCompletionRegistry_def WithTombstoneTTL_def
        registry_defs Wait_outcomes_def)
  ultimately have "?reach [RComplete ''t'' 7] (SbDone None, s, Cleanup 8 ''t'' ?r2)"
    using sr_own [OF sr_own [OF _ sb_woken] sb_cleanup] by fastforce
  moreover have "waiters (reg_after 60 []) ''t'' = None"
    by (simp add: reg_after_def NewCompletionRegistry_def WithTombstoneTTL_def)
  ultimately show ?thesis
    using BlockingSubmitter_nil_completed [of 60 "[]" "''t''" EnqueueTask 1 NewMockStore] by blast
qed

end
