(* ===== verification/Terminal.thy ===== *)
theory Terminal
  imports Supervisor Go_Strings
begin

section \<open>internal/terminal: the tmux substrate\<close>

text \<open>
  Every method of \<open>TmuxSubstrate\<close>, over the command \<open>tmux\<close> as a parameter: what a call prints or how it
  fails may depend on the calls made before it. A method returns its result and the calls made,
  each the list of arguments tmux was started with. Widths of \<open>%q\<close> and \<open>%d\<close> in error texts are kept as
  arguments. Whether a character beyond ASCII is printable (\<open>unicode.IsPrint\<close>) is a parameter.
\<close>

subsection \<open>Calling tmux\<close>

text \<open>A failed call: the context's error if the context is done, and what tmux wrote to stderr.\<close>

datatype run_result = RunOk string | RunFailed "goerror option" string

type_synonym tmux = "string list list \<Rightarrow> string list \<Rightarrow> run_result"

definition parseTmuxError :: "string \<Rightarrow> goerror" where
  "parseTmuxError stderr =
     (let s = ToLower stderr
      in if Contains s ''session not found'' \<or> Contains s ''can't find session'' \<or>
            Contains s ''can't find window'' \<or> Contains s ''can't find pane''
         then ErrSessionNotFound
         else if Contains s ''duplicate session'' then ErrSessionExists
         else if Contains s ''create pane failed'' \<or> Contains s ''no room for new pane'' then ErrPaneLimit
         else if Contains s ''no server running'' \<or> Contains s ''no sessions'' \<or>
                 Contains s ''error connecting to'' then ErrNoServer
         else ErrorNew ''tmux: %s'' [TrimSpace stderr])"

text \<open>The result of one call, and the log with it.\<close>

definition run :: "tmux \<Rightarrow> string list \<Rightarrow> string list list \<Rightarrow> (goerror + string) \<times> string list list" where
  "run env args calls =
     ((case env calls args of
         RunOk out \<Rightarrow> Inr out
       | RunFailed (Some ctxErr) stderr \<Rightarrow> Inl ctxErr
       | RunFailed None stderr \<Rightarrow> Inl (parseTmuxError (TrimSpace stderr))),
      calls @ [args])"

subsection \<open>Validation\<close>

definition MaxCommandLen :: nat where
  "MaxCommandLen = 8192"

fun validate_bytes :: "nat \<Rightarrow> string \<Rightarrow> goerror option" where
  "validate_bytes i [] = None"
| "validate_bytes i (b # bs) =
     (if of_char b = (0 :: nat)
      then Some (Errorf ''%w: contains null byte at position %d'' [dec i] ErrInvalidCommand)
      else if of_char b < (32 :: nat) \<and> of_char b \<noteq> (9 :: nat) \<and> of_char b \<noteq> (10 :: nat) \<and> of_char b \<noteq> (13 :: nat)
      then Some (Errorf ''%w: contains control character 0x%02x at position %d'' [[b], dec i] ErrInvalidCommand)
      else validate_bytes (Suc i) bs)"

definition ValidateCommand :: "string \<Rightarrow> goerror option" where
  "ValidateCommand cmd =
     (if length cmd > MaxCommandLen
      then Some (Errorf ''%w: exceeds maximum length %d (got %d)'' [dec MaxCommandLen, dec (length cmd)] ErrInvalidCommand)
      else validate_bytes 0 cmd)"

definition session_char :: "char \<Rightarrow> bool" where
  "session_char c \<longleftrightarrow> is_digit c \<or> (65 \<le> (of_char c :: nat) \<and> of_char c \<le> (90 :: nat)) \<or>
     (97 \<le> (of_char c :: nat) \<and> of_char c \<le> (122 :: nat)) \<or> c = CHR ''_'' \<or> c = CHR ''.'' \<or> c = CHR ''-''"

definition ValidateSessionName :: "string \<Rightarrow> goerror option" where
  "ValidateSessionName name =
     (if name = '''' then Some (ErrorNew ''terminal: session name must not be empty'' [])
      else if \<not> list_all session_char name
      then Some (ErrorNew ''terminal: session name %q contains invalid characters (allowed: a-z, A-Z, 0-9, -, _, .)'' [name])
      else None)"

definition allowedKeyNames :: "string list" where
  "allowedKeyNames = [''Up'', ''Down'', ''Left'', ''Right'', ''Enter'', ''Escape'', ''Tab'', ''BTab'', ''Space'',
     ''PPage'', ''NPage'', ''Home'', ''End'', ''BSpace'', ''DC'', ''IC'', ''F1'', ''F2'', ''F3'', ''F4'', ''F5'', ''F6'',
     ''F7'', ''F8'', ''F9'', ''F10'', ''F11'', ''F12'']"

text \<open>One printable rune: an ASCII one from the space to the tilde, or a longer sequence that is
  printable by the Unicode tables and not the replacement character.\<close>

definition one_printable :: "(string \<Rightarrow> bool) \<Rightarrow> string \<Rightarrow> bool" where
  "one_printable wide body \<longleftrightarrow>
     body \<noteq> '''' \<and>
     (case body of
        [c] \<Rightarrow> byte_in 32 126 c
      | _ \<Rightarrow> rune_len body = length body \<and> body \<noteq> rune_error \<and> wide body)"

definition ValidateKeyName :: "(string \<Rightarrow> bool) \<Rightarrow> string \<Rightarrow> goerror option" where
  "ValidateKeyName wide name =
     (if name \<in> set allowedKeyNames then None
      else
        let body = (if length name > 2 \<and> (take 2 name = ''C-'' \<or> take 2 name = ''M-'')
                    then drop 2 name else name)
        in if one_printable wide body then None
           else Some (Errorf ''%w: key %q is not allowed'' [name] ErrInvalidCommand))"

subsection \<open>Operations\<close>

text \<open>A call whose output is not needed, or wrapped on failure.\<close>

definition run_wrapped ::
  "tmux \<Rightarrow> string \<Rightarrow> string list \<Rightarrow> string list \<Rightarrow> string list list \<Rightarrow> (goerror + string) \<times> string list list" where
  "run_wrapped env fmt fargs args calls =
     (case run env args calls of
        (Inl e, calls') \<Rightarrow> (Inl (Errorf fmt fargs e), calls')
      | (Inr out, calls') \<Rightarrow> (Inr out, calls'))"

definition tmux_SpawnSession ::
  "tmux \<Rightarrow> string \<Rightarrow> string \<Rightarrow> string list list \<Rightarrow> (goerror + Session) \<times> string list list" where
  "tmux_SpawnSession env name cmd calls =
     (case ValidateSessionName name of
        Some err \<Rightarrow> (Inl err, calls)
      | None \<Rightarrow>
        (case ValidateCommand cmd of
           Some err \<Rightarrow> (Inl err, calls)
         | None \<Rightarrow>
             let args = [''new-session'', ''-d'', ''-s'', name, ''-x'', ''200'', ''-y'', ''50''];
                 args = (if cmd \<noteq> '''' then args @ [cmd] else args)
             in (case run_wrapped env ''spawn session %q: %w'' [name] args calls of
                   (Inl err, calls') \<Rightarrow> (Inl err, calls')
                 | (Inr _, calls') \<Rightarrow>
                     (Inr \<lparr>sName = name, sWidth = 200, sHeight = 50, sWindowCount = 1, sAttached = False\<rparr>, calls'))))"

definition tmux_DestroySession ::
  "tmux \<Rightarrow> string \<Rightarrow> string list list \<Rightarrow> goerror option \<times> string list list" where
  "tmux_DestroySession env name calls =
     (case ValidateSessionName name of
        Some err \<Rightarrow> (Some err, calls)
      | None \<Rightarrow>
        (case run_wrapped env ''destroy session %q: %w'' [name] [''kill-session'', ''-t'', name] calls of
           (Inl err, calls') \<Rightarrow> (Some err, calls')
         | (Inr _, calls') \<Rightarrow> (None, calls')))"

definition tmux_SendCommand ::
  "tmux \<Rightarrow> string \<Rightarrow> string \<Rightarrow> string list list \<Rightarrow> goerror option \<times> string list list" where
  "tmux_SendCommand env session cmd calls =
     (case ValidateSessionName session of
        Some err \<Rightarrow> (Some err, calls)
      | None \<Rightarrow>
        (case ValidateCommand cmd of
           Some err \<Rightarrow> (Some err, calls)
         | None \<Rightarrow>
           (case run_wrapped env ''send command to session %q: %w'' [session]
                   [''send-keys'', ''-t'', session, ''-l'', ''--'', cmd] calls of
              (Inl err, calls') \<Rightarrow> (Some err, calls')
            | (Inr _, calls') \<Rightarrow>
              (case run_wrapped env ''send enter to session %q: %w'' [session]
                      [''send-keys'', ''-t'', session, ''Enter''] calls' of
                 (Inl err, calls'') \<Rightarrow> (Some err, calls'')
               | (Inr _, calls'') \<Rightarrow> (None, calls'')))))"

definition tmux_SendKey ::
  "tmux \<Rightarrow> (string \<Rightarrow> bool) \<Rightarrow> string \<Rightarrow> string \<Rightarrow> string list list \<Rightarrow> goerror option \<times> string list list" where
  "tmux_SendKey env wide session key calls =
     (case ValidateSessionName session of
        Some err \<Rightarrow> (Some err, calls)
      | None \<Rightarrow>
        (case ValidateKeyName wide key of
           Some err \<Rightarrow> (Some err, calls)
         | None \<Rightarrow>
           (case run_wrapped env ''send key %q to session %q: %w'' [key, session]
                   [''send-keys'', ''-t'', session, ''--'', key] calls of
              (Inl err, calls') \<Rightarrow> (Some err, calls')
            | (Inr _, calls') \<Rightarrow> (None, calls'))))"

definition tmux_CaptureOutput ::
  "tmux \<Rightarrow> string \<Rightarrow> int \<Rightarrow> string list list \<Rightarrow> (goerror + string) \<times> string list list" where
  "tmux_CaptureOutput env session lines calls =
     (if lines \<le> 0 then (Inl ErrInvalidLines, calls)
      else (case ValidateSessionName session of
              Some err \<Rightarrow> (Inl err, calls)
            | None \<Rightarrow>
              (case run_wrapped env ''capture output from session %q: %w'' [session]
                      [''capture-pane'', ''-t'', session, ''-p'', ''-S'', ''-'' @ dec (nat lines)] calls of
                 (Inl err, calls') \<Rightarrow> (Inl err, calls')
               | (Inr out, calls') \<Rightarrow> (Inr (TrimRight (CHR 0x0A) out), calls'))))"

definition tmux_CaptureScreen ::
  "tmux \<Rightarrow> string \<Rightarrow> string list list \<Rightarrow> (goerror + string) \<times> string list list" where
  "tmux_CaptureScreen env session calls =
     (case ValidateSessionName session of
        Some err \<Rightarrow> (Inl err, calls)
      | None \<Rightarrow>
        (case run_wrapped env ''capture screen from session %q: %w'' [session]
                [''capture-pane'', ''-t'', session, ''-p'', ''-e''] calls of
           (Inl err, calls') \<Rightarrow> (Inl err, calls')
         | (Inr out, calls') \<Rightarrow> (Inr (TrimRight (CHR 0x0A) out), calls')))"

text \<open>The format the code asks tmux for, its fields separated by tabs.\<close>

definition tab :: char where
  "tab = CHR 0x09"

definition newline :: char where
  "newline = CHR 0x0A"

definition list_format :: string where
  "list_format = join_with tab [''#{session_name}'', ''#{session_width}'', ''#{session_height}'',
     ''#{session_windows}'', ''#{session_attached}'']"

definition parseSessionLine :: "string \<Rightarrow> goerror + Session" where
  "parseSessionLine line =
     (let parts = split_n tab 5 line
      in if length parts \<noteq> 5 then Inl (ErrorNew ''expected 5 fields, got %d'' [dec (length parts)])
         else Inr \<lparr>sName = parts ! 0, sWidth = fst (Atoi (parts ! 1)), sHeight = fst (Atoi (parts ! 2)),
                   sWindowCount = fst (Atoi (parts ! 3)), sAttached = (parts ! 4 = ''1'')\<rparr>)"

fun parse_sessions :: "string list \<Rightarrow> goerror + Session list" where
  "parse_sessions [] = Inr []"
| "parse_sessions (line # rest) =
     (if line = '''' then parse_sessions rest
      else (case parseSessionLine line of
              Inl err \<Rightarrow> Inl (Errorf ''list sessions: parse %q: %w'' [line] err)
            | Inr s \<Rightarrow> (case parse_sessions rest of Inl err \<Rightarrow> Inl err | Inr ss \<Rightarrow> Inr (s # ss))))"

definition tmux_ListSessions ::
  "tmux \<Rightarrow> string list list \<Rightarrow> (goerror + Session list) \<times> string list list" where
  "tmux_ListSessions env calls =
     (case run env [''list-sessions'', ''-F'', list_format] calls of
        (Inl err, calls') \<Rightarrow>
          ((if errors_Is err ErrNoServer then Inr [] else Inl (Errorf ''list sessions: %w'' [] err)), calls')
      | (Inr out, calls') \<Rightarrow> (parse_sessions (split_on newline (TrimSpace out)), calls'))"

type_synonym Direction = int

definition Horizontal :: Direction where
  "Horizontal = 0"

definition Vertical :: Direction where
  "Vertical = 1"

record Pane =
  paneID :: string
  paneSessionID :: string
  paneWidth :: int
  paneHeight :: int
  paneActive :: bool

definition pane_format :: string where
  "pane_format = join_with tab [''#{pane_id}'', ''#{session_name}'', ''#{pane_width}'', ''#{pane_height}'',
     ''#{pane_active}'']"

definition parsePaneLine :: "string \<Rightarrow> goerror + Pane" where
  "parsePaneLine line =
     (let parts = split_n tab 5 line
      in if length parts \<noteq> 5 then Inl (ErrorNew ''expected 5 fields, got %d'' [dec (length parts)])
         else (case Atoi (parts ! 2) of
                 (_, Some err) \<Rightarrow> Inl (Errorf ''width: %w'' [] err)
               | (width, None) \<Rightarrow>
                 (case Atoi (parts ! 3) of
                    (_, Some err) \<Rightarrow> Inl (Errorf ''height: %w'' [] err)
                  | (height, None) \<Rightarrow>
                      Inr \<lparr>paneID = parts ! 0, paneSessionID = parts ! 1, paneWidth = width,
                           paneHeight = height, paneActive = (parts ! 4 = ''1'')\<rparr>)))"

definition tmux_SplitPane ::
  "tmux \<Rightarrow> string \<Rightarrow> Direction \<Rightarrow> string list list \<Rightarrow> (goerror + Pane) \<times> string list list" where
  "tmux_SplitPane env session direction calls =
     (case ValidateSessionName session of
        Some err \<Rightarrow> (Inl err, calls)
      | None \<Rightarrow>
          let flag = (if direction = Horizontal then ''-h'' else ''-v'')
          in (case run_wrapped env ''split pane in session %q: %w'' [session]
                     [''split-window'', flag, ''-t'', session, ''-P'', ''-F'', pane_format] calls of
                (Inl err, calls') \<Rightarrow> (Inl err, calls')
              | (Inr out, calls') \<Rightarrow>
                  let line = TrimSpace out
                  in ((case parsePaneLine line of
                         Inl err \<Rightarrow> Inl (Errorf ''split pane: parse %q: %w'' [line] err)
                       | Inr pane \<Rightarrow> Inr pane), calls')))"

subsection \<open>What passes the validation\<close>

definition command_byte :: "char \<Rightarrow> bool" where
  "command_byte b \<longleftrightarrow> 32 \<le> (of_char b :: nat) \<or> of_char b \<in> {9, 10, 13 :: nat}"

lemma validate_bytes_iff: "validate_bytes i s = None \<longleftrightarrow> (\<forall>b \<in> set s. command_byte b)"
  by (induction i s rule: validate_bytes.induct) (auto simp: command_byte_def)

lemma ValidateCommand_None_iff:
  "ValidateCommand cmd = None \<longleftrightarrow> length cmd \<le> MaxCommandLen \<and> (\<forall>b \<in> set cmd. command_byte b)"
  by (auto simp: ValidateCommand_def validate_bytes_iff)

lemma validate_bytes_error: "validate_bytes i s = Some e \<Longrightarrow> errors_Is e ErrInvalidCommand"
  by (induction i s rule: validate_bytes.induct) (auto split: if_splits)

lemma ValidateCommand_error: "ValidateCommand cmd = Some e \<Longrightarrow> errors_Is e ErrInvalidCommand"
  by (auto simp: ValidateCommand_def split: if_splits dest: validate_bytes_error)

text \<open>The first bad byte is the one reported.\<close>

lemma validate_bytes_first:
  assumes "\<forall>b \<in> set s. command_byte b" and "\<not> command_byte c"
  shows "validate_bytes i (s @ c # t) =
    Some (if of_char c = (0 :: nat)
          then Errorf ''%w: contains null byte at position %d'' [dec (i + length s)] ErrInvalidCommand
          else Errorf ''%w: contains control character 0x%02x at position %d'' [[c], dec (i + length s)] ErrInvalidCommand)"
  using assms by (induction s arbitrary: i) (auto simp: command_byte_def)

text \<open>The interrupt character the HTTP handlers send as a command.\<close>

definition etx :: char where
  "etx = CHR 0x03"

lemma ValidateCommand_etx:
  "ValidateCommand [etx] =
     Some (Errorf ''%w: contains control character 0x%02x at position %d'' [[etx], dec 0] ErrInvalidCommand)"
  by (simp add: ValidateCommand_def MaxCommandLen_def etx_def)

lemma tmux_SendCommand_etx:
  "\<exists>e. tmux_SendCommand env session [etx] calls = (Some e, calls)"
  by (auto simp: tmux_SendCommand_def ValidateCommand_etx split: option.split)

lemma ValidateSessionName_iff:
  "ValidateSessionName name = None \<longleftrightarrow> name \<noteq> '''' \<and> (\<forall>c \<in> set name. session_char c)"
  by (simp add: ValidateSessionName_def list_all_iff)

lemma session_char_no_space: "session_char c \<Longrightarrow> \<not> is_space c"
  by (auto simp: session_char_def is_digit_def is_space_def)

subsection \<open>The commands that reach tmux\<close>

datatype tmux_op = OpSpawn string string | OpDestroy string | OpSend string string | OpKey string string
  | OpCapture string int | OpScreen string | OpList | OpSplit string Direction

definition do_op :: "tmux \<Rightarrow> (string \<Rightarrow> bool) \<Rightarrow> tmux_op \<Rightarrow> string list list \<Rightarrow> string list list" where
  "do_op env wide op calls =
     (case op of
        OpSpawn name cmd \<Rightarrow> snd (tmux_SpawnSession env name cmd calls)
      | OpDestroy name \<Rightarrow> snd (tmux_DestroySession env name calls)
      | OpSend session cmd \<Rightarrow> snd (tmux_SendCommand env session cmd calls)
      | OpKey session key \<Rightarrow> snd (tmux_SendKey env wide session key calls)
      | OpCapture session lines \<Rightarrow> snd (tmux_CaptureOutput env session lines calls)
      | OpScreen session \<Rightarrow> snd (tmux_CaptureScreen env session calls)
      | OpList \<Rightarrow> snd (tmux_ListSessions env calls)
      | OpSplit session direction \<Rightarrow> snd (tmux_SplitPane env session direction calls))"

inductive legal_call :: "(string \<Rightarrow> bool) \<Rightarrow> string list \<Rightarrow> bool" for wide where
  legal_list: "legal_call wide [''list-sessions'', ''-F'', list_format]"
| legal_shell: "ValidateSessionName s = None \<Longrightarrow>
     legal_call wide [''new-session'', ''-d'', ''-s'', s, ''-x'', ''200'', ''-y'', ''50'']"
| legal_spawn: "ValidateSessionName s = None \<Longrightarrow> cmd \<noteq> '''' \<Longrightarrow> ValidateCommand cmd = None \<Longrightarrow>
     legal_call wide [''new-session'', ''-d'', ''-s'', s, ''-x'', ''200'', ''-y'', ''50'', cmd]"
| legal_kill: "ValidateSessionName s = None \<Longrightarrow> legal_call wide [''kill-session'', ''-t'', s]"
| legal_type: "ValidateSessionName s = None \<Longrightarrow> ValidateCommand text = None \<Longrightarrow>
     legal_call wide [''send-keys'', ''-t'', s, ''-l'', ''--'', text]"
| legal_enter: "ValidateSessionName s = None \<Longrightarrow> legal_call wide [''send-keys'', ''-t'', s, ''Enter'']"
| legal_key: "ValidateSessionName s = None \<Longrightarrow> ValidateKeyName wide key = None \<Longrightarrow>
     legal_call wide [''send-keys'', ''-t'', s, ''--'', key]"
| legal_capture: "ValidateSessionName s = None \<Longrightarrow> 0 < n \<Longrightarrow>
     legal_call wide [''capture-pane'', ''-t'', s, ''-p'', ''-S'', CHR ''-'' # dec n]"
| legal_screen: "ValidateSessionName s = None \<Longrightarrow> legal_call wide [''capture-pane'', ''-t'', s, ''-p'', ''-e'']"
| legal_split: "ValidateSessionName s = None \<Longrightarrow> flag \<in> {''-h'', ''-v''} \<Longrightarrow>
     legal_call wide [''split-window'', flag, ''-t'', s, ''-P'', ''-F'', pane_format]"

lemma run_calls [simp]: "snd (run env args calls) = calls @ [args]"
  by (simp add: run_def)

lemma run_wrapped_calls [simp]: "snd (run_wrapped env fmt fargs args calls) = calls @ [args]"
  using run_calls [of env args calls]
  by (auto simp: run_wrapped_def split: prod.splits sum.splits simp del: run_calls)

lemma run_wrapped_log: "run_wrapped env fmt fargs args calls = (r, calls') \<Longrightarrow> calls' = calls @ [args]"
  using run_wrapped_calls [of env fmt fargs args calls] by simp

lemmas tmux_op_defs = tmux_SpawnSession_def tmux_DestroySession_def tmux_SendCommand_def tmux_SendKey_def
  tmux_CaptureOutput_def tmux_CaptureScreen_def tmux_SplitPane_def



subsection \<open>Listing sessions\<close>

text \<open>How tmux prints a session by \<open>list_format\<close>; a detached session has no width and height.\<close>

definition show_dim :: "int \<Rightarrow> string" where
  "show_dim n = (if n = 0 then '''' else dec (nat n))"

definition show_session :: "Session \<Rightarrow> string" where
  "show_session s = join_with tab [sName s, show_dim (sWidth s), show_dim (sHeight s),
     dec (nat (sWindowCount s)), (if sAttached s then ''1'' else ''0'')]"

definition printable_session :: "Session \<Rightarrow> bool" where
  "printable_session s \<longleftrightarrow> ValidateSessionName (sName s) = None \<and>
     sWidth s \<in> {0..9223372036854775807} \<and> sHeight s \<in> {0..9223372036854775807} \<and>
     sWindowCount s \<in> {0..9223372036854775807}"

lemma is_space_tab [simp]: "is_space tab" "is_space newline" "tab \<noteq> newline"
  "tab \<noteq> CHR ''0''" "tab \<noteq> CHR ''1''" "newline \<noteq> CHR ''0''" "newline \<noteq> CHR ''1''"
  "newline \<noteq> tab" "CHR ''0'' \<noteq> tab" "CHR ''1'' \<noteq> tab" "CHR ''0'' \<noteq> newline" "CHR ''1'' \<noteq> newline"
  by (simp_all add: tab_def newline_def is_space_def)

lemma dec_no_sep [simp]: "tab \<notin> set (dec n)" "newline \<notin> set (dec n)"
  using dec_no_space [of tab n] dec_no_space [of newline n] by auto

lemma show_dim_no_sep [simp]: "tab \<notin> set (show_dim n)" "newline \<notin> set (show_dim n)"
  by (simp_all add: show_dim_def)

lemma Atoi_show_dim:
  assumes "n \<in> {0..9223372036854775807}"
  shows "fst (Atoi (show_dim n)) = n"
proof (cases "n = 0")
  case True
  then show ?thesis by (simp add: show_dim_def Atoi_def HasPrefix_def Let_def)
next
  case False
  then show ?thesis using assms Atoi_dec [of "nat n"] by (simp add: show_dim_def)
qed

lemma name_no_sep:
  assumes "ValidateSessionName name = None"
  shows "tab \<notin> set name" and "newline \<notin> set name" and "name \<noteq> ''''" and "\<not> is_space (hd name)"
  using assms session_char_no_space [of tab] session_char_no_space [of newline]
    session_char_no_space [of "hd name"]
  by (auto simp: ValidateSessionName_iff)

lemma parse_show_session:
  assumes "printable_session s"
  shows "parseSessionLine (show_session s) = Inr s"
proof -
  let ?parts = "[sName s, show_dim (sWidth s), show_dim (sHeight s), dec (nat (sWindowCount s)),
      (if sAttached s then ''1'' else ''0'')]"
  have "tab \<notin> set (sName s)" using assms name_no_sep(1) by (simp add: printable_session_def)
  moreover have "tab \<notin> set (if sAttached s then ''1'' else ''0'')" by simp
  ultimately have "split_n tab (Suc 4) (show_session s) = ?parts"
    unfolding show_session_def by (intro split_n_join) auto
  then have "split_n tab 5 (show_session s) = ?parts" by simp
  moreover have "Atoi (dec (nat (sWindowCount s))) = (sWindowCount s, None)"
    using assms Atoi_dec [of "nat (sWindowCount s)"] by (simp add: printable_session_def)
  ultimately show ?thesis
    using assms Atoi_show_dim
    by (simp add: parseSessionLine_def Let_def printable_session_def)
qed

lemma show_session_text:
  assumes "printable_session s"
  shows "newline \<notin> set (show_session s)" and "show_session s \<noteq> ''''"
    and "\<not> is_space (hd (show_session s))" and "\<not> is_space (last (show_session s))"
proof -
  have n: "newline \<notin> set (sName s)" "sName s \<noteq> ''''" "\<not> is_space (hd (sName s))"
    using assms name_no_sep by (simp_all add: printable_session_def)
  show "newline \<notin> set (show_session s)"
    using n by (simp add: show_session_def)
  show "show_session s \<noteq> ''''" using n(2) by (simp add: show_session_def)
  show "\<not> is_space (hd (show_session s))" using n(2,3) by (simp add: show_session_def)
  show "\<not> is_space (last (show_session s))" by (simp add: show_session_def is_space_def)
qed

lemma parse_sessions_show:
  "\<forall>s \<in> set ss. printable_session s \<Longrightarrow> parse_sessions (map show_session ss) = Inr ss"
  by (induction ss) (simp_all add: parse_show_session show_session_text)

text \<open>The lines with the newline after each, as tmux writes them.\<close>

lemma lines_join:
  "ls \<noteq> [] \<Longrightarrow> concat (map (\<lambda>l. l @ [c]) ls) = join_with c ls @ [c]"
  by (induction c ls rule: join_with.induct) auto

lemma join_with_ends:
  assumes "ls \<noteq> []" and "\<forall>l \<in> set ls. l \<noteq> '''' \<and> \<not> is_space (hd l) \<and> \<not> is_space (last l)"
  shows "join_with c ls \<noteq> ''''" and "\<not> is_space (hd (join_with c ls))" and "\<not> is_space (last (join_with c ls))"
  using assms by (induction c ls rule: join_with.induct) auto

lemma TrimSpace_newline:
  assumes "s \<noteq> ''''" and "\<not> is_space (hd s)" and "\<not> is_space (last s)"
  shows "TrimSpace (s @ [newline]) = s"
  using assms by (simp add: TrimSpace_def dropWhile_hd hd_rev)



end
