(* ===== verification/Broker.thy ===== *)
theory Broker
  imports State_Store Agent_Machine "HOL-Library.Sublist"
begin

section \<open>internal/httpbridge: the SSE broker and the event stream of a client\<close>

text \<open>
  One poll goroutine reads the store's event log and fans it out to the subscriptions
  (internal/httpbridge/broker.go); each client connection replays the log from its own cursor up to
  the broker's and then follows its subscription (\<open>handleSSE\<close> in sse.go). A Go channel is its buffer
  and a closed flag; a subscription object lives in the broker's heap under its number, so that it
  survives its removal from the fan-out set. Every critical section of \<open>b.mu\<close> is one step, and so is
  each store call outside it; between the steps the other goroutines run.
\<close>

subsection \<open>Broker\<close>

record Subscription =
  subCh :: "StreamEvent list"
  subCap :: nat
  subClosed :: bool
  subDropped :: nat

text \<open>Where the poll goroutine is: at its ticker, with a cursor, with events read, returned.\<close>

datatype poll_state = PollTicker | PollCursor string | PollEvents "StreamEvent list" | PollReturned

record Broker =
  brInterval :: duration
  brBatch :: int
  brBufSize :: nat
  brSubs :: "nat set"
  brCursor :: string
  brClosed :: bool
  brCancelled :: bool
  brPoll :: poll_state
  brHeap :: "nat \<rightharpoonup> Subscription"
  brNext :: nat

definition brokerDefaultBufSize :: nat where "brokerDefaultBufSize = 256"

definition ssePollInterval :: duration where "ssePollInterval = 200 * Millisecond"

definition sseBatchSize :: int where "sseBatchSize = 50"

definition NewBroker :: "duration \<Rightarrow> int \<Rightarrow> int \<Rightarrow> Broker" where
  "NewBroker interval batch bufSize =
     \<lparr>brInterval = interval, brBatch = batch,
      brBufSize = (if bufSize \<le> 0 then brokerDefaultBufSize else nat bufSize),
      brSubs = {}, brCursor = ''0'', brClosed = False, brCancelled = False, brPoll = PollTicker,
      brHeap = Map.empty, brNext = 0\<rparr>"

text \<open>The non-blocking send of the fan-out, to one subscription and to all of them.\<close>

definition deliver :: "StreamEvent \<Rightarrow> Subscription \<Rightarrow> Subscription" where
  "deliver se sub =
     (if length (subCh sub) < subCap sub then sub\<lparr>subCh := subCh sub @ [se]\<rparr>
      else sub\<lparr>subDropped := Suc (subDropped sub)\<rparr>)"

definition fan_one :: "StreamEvent \<Rightarrow> Broker \<Rightarrow> Broker" where
  "fan_one se b = b\<lparr>brCursor := seID se,
     brHeap := (\<lambda>i. if i \<in> brSubs b then map_option (deliver se) (brHeap b i) else brHeap b i)\<rparr>"

definition fan_out :: "StreamEvent list \<Rightarrow> Broker \<Rightarrow> Broker" where
  "fan_out evs b = foldl (\<lambda>b se. fan_one se b) b evs"

definition snapshotCursor :: "Broker \<Rightarrow> string" where
  "snapshotCursor b = brCursor b"

text \<open>
  The steps of \<open>pollLoop\<close>: the tick (which looks at the context again), the read outside the lock,
  the fan-out inside it.
\<close>

definition poll_tick :: "Broker \<Rightarrow> Broker" where
  "poll_tick b = (if brCancelled b then b\<lparr>brPoll := PollReturned\<rparr>
     else b\<lparr>brPoll := PollCursor (snapshotCursor b)\<rparr>)"

definition poll_read :: "MockStore \<Rightarrow> string \<Rightarrow> Broker \<Rightarrow> Broker" where
  "poll_read m cursor b =
     (case ReadEvents m cursor (brBatch b) of
        Inl _ \<Rightarrow> b\<lparr>brPoll := PollTicker\<rparr>
      | Inr evs \<Rightarrow> if length evs = 0 then b\<lparr>brPoll := PollTicker\<rparr> else b\<lparr>brPoll := PollEvents evs\<rparr>)"

definition poll_deliver :: "StreamEvent list \<Rightarrow> Broker \<Rightarrow> Broker" where
  "poll_deliver evs b = (fan_out evs b)\<lparr>brPoll := PollTicker\<rparr>"

definition Subscribe :: "Broker \<Rightarrow> (nat \<times> string) \<times> Broker" where
  "Subscribe b =
     (let i = brNext b;
          sub = \<lparr>subCh = [], subCap = brBufSize b, subClosed = False, subDropped = 0\<rparr>
      in if brClosed b
         then ((i, brCursor b), b\<lparr>brHeap := (brHeap b)(i \<mapsto> sub\<lparr>subClosed := True\<rparr>), brNext := Suc i\<rparr>)
         else ((i, brCursor b), b\<lparr>brSubs := insert i (brSubs b), brHeap := (brHeap b)(i \<mapsto> sub),
                brNext := Suc i\<rparr>))"

definition close_sub :: "Subscription \<Rightarrow> Subscription" where
  "close_sub sub = sub\<lparr>subClosed := True\<rparr>"

definition Unsubscribe :: "nat \<Rightarrow> Broker \<Rightarrow> Broker" where
  "Unsubscribe i b =
     (if i \<in> brSubs b
      then b\<lparr>brSubs := brSubs b - {i}, brHeap := (brHeap b)(i := map_option close_sub (brHeap b i))\<rparr>
      else b)"

text \<open>\<open>Close\<close> up to its wait for the poll goroutine.\<close>

definition Close :: "Broker \<Rightarrow> Broker" where
  "Close b = b\<lparr>brCancelled := True, brClosed := True, brSubs := {},
     brHeap := (\<lambda>i. if i \<in> brSubs b then map_option close_sub (brHeap b i) else brHeap b i)\<rparr>"

text \<open>A receive from a subscription's channel: an event, nothing yet, or closed and drained.\<close>

datatype received = Received StreamEvent Subscription | WouldBlock | ChannelClosed

definition recv_sub :: "Subscription \<Rightarrow> received" where
  "recv_sub sub =
     (case subCh sub of
        se # rest \<Rightarrow> Received se (sub\<lparr>subCh := rest\<rparr>)
      | [] \<Rightarrow> if subClosed sub then ChannelClosed else WouldBlock)"

subsection \<open>handleSSE\<close>

datatype sse_phase = Backfill | Live | Returned

record SSEConn =
  cnSince :: string
  cnCut :: string
  cnFoundCut :: bool
  cnCursor :: string
  cnLastBackfilled :: string
  cnGating :: bool
  cnGateID :: string
  cnPhase :: sse_phase
  cnOut :: "StreamEvent list"

text \<open>The end of the backfill arms the gate of the live phase.\<close>

definition arm_gate :: "SSEConn \<Rightarrow> SSEConn" where
  "arm_gate c = c\<lparr>cnGating := (\<not> cnFoundCut c \<and> cnSince c \<noteq> ''0'' \<and> cnLastBackfilled c \<noteq> cnSince c),
     cnGateID := cnLastBackfilled c, cnPhase := Live\<rparr>"

definition handleSSE_begin :: "string \<Rightarrow> string \<Rightarrow> SSEConn" where
  "handleSSE_begin query cutID =
     (let since = (if query \<noteq> '''' then query else ''0'');
          foundCut = (since = cutID);
          c = \<lparr>cnSince = since, cnCut = cutID, cnFoundCut = foundCut, cnCursor = since,
               cnLastBackfilled = since, cnGating = False, cnGateID = since, cnPhase = Backfill, cnOut = []\<rparr>
      in if \<not> foundCut \<and> cutID \<noteq> '''' \<and> (cutID \<noteq> ''0'' \<or> since \<noteq> ''0'') then c else arm_gate c)"

text \<open>The inner loop of the backfill over one batch, then one turn of its outer loop.\<close>

fun backfill_batch :: "StreamEvent list \<Rightarrow> SSEConn \<Rightarrow> SSEConn" where
  "backfill_batch [] c = c"
| "backfill_batch (se # evs) c =
     (let c' = c\<lparr>cnOut := cnOut c @ [se], cnCursor := seID se, cnLastBackfilled := seID se\<rparr>
      in if seID se = cnCut c then c'\<lparr>cnFoundCut := True\<rparr> else backfill_batch evs c')"

definition backfill_turn :: "MockStore \<Rightarrow> SSEConn \<Rightarrow> SSEConn" where
  "backfill_turn m c =
     (case ReadEvents m (cnCursor c) sseBatchSize of
        Inl _ \<Rightarrow> arm_gate c
      | Inr evs \<Rightarrow>
          if length evs = 0 then arm_gate c
          else let c' = backfill_batch evs c in if cnFoundCut c' then arm_gate c' else c')"

definition live_event :: "StreamEvent \<Rightarrow> SSEConn \<Rightarrow> SSEConn" where
  "live_event se c =
     (if cnGating c then (if seID se = cnGateID c then c\<lparr>cnGating := False\<rparr> else c)
      else c\<lparr>cnOut := cnOut c @ [se]\<rparr>)"

subsection \<open>Event payloads\<close>

datatype SSEPayload =
    SSEAgentRegistered string string string string string int int string
  | SSEAgentStateChanged string string string string int string
  | SSEAgentOutput string string int string
  | SSEAgentDeregistered string string
  | SSEFloorCreated string int string
  | SSEFloorRemoved string string

text \<open>
  The arguments are the struct's fields in order: id, name, provider, state, task, heartbeat,
  registration, cursor; agent, name, state, task, timestamp, cursor; agent, payload, timestamp,
  cursor; agent, cursor; name, agent count, cursor; name, cursor.
\<close>

definition isAgentSession :: "string \<Rightarrow> bool" where
  "isAgentSession session \<longleftrightarrow> take 6 session = ''agent-''"

definition mapStoreEvent ::
  "Event \<Rightarrow> string \<Rightarrow> (string \<Rightarrow> string) option \<Rightarrow> (string \<Rightarrow> string) option \<Rightarrow> (string \<times> SSEPayload) option" where
  "mapStoreEvent e cursor nameFn providerFn =
     (let name = (case nameFn of None \<Rightarrow> '''' | Some f \<Rightarrow> f (eAgentID e));
          provider = (case providerFn of None \<Rightarrow> '''' | Some f \<Rightarrow> f (eAgentID e));
          changed = (\<lambda>st task. Some (''agent.state_changed'',
            SSEAgentStateChanged (eAgentID e) name st task (eTimestamp e) cursor))
      in if eType e = ''agent_registered'' then
           Some (''agent.registered'', SSEAgentRegistered (eAgentID e) name provider ''idle'' ''''
             (eTimestamp e) (eTimestamp e) cursor)
         else if eType e = EventTaskAssigned then changed ''assigned'' (eTaskID e)
         else if eType e = EventWorkStarted then changed ''working'' ''''
         else if eType e = EventOutputReady then changed ''reporting'' ''''
         else if eType e = EventOutputDelivered then changed ''idle'' ''''
         else if eType e = EventAgentFailed then changed ''crashed'' ''''
         else if eType e = ''agent_deregistered'' then
           Some (''agent.deregistered'', SSEAgentDeregistered (eAgentID e) cursor)
         else if eType e = ''task_cancelled'' then changed ''idle'' ''''
         else if eType e = ''output_chunk'' then
           Some (''agent.output'', SSEAgentOutput (eAgentID e) (ePayload e) (eTimestamp e) cursor)
         else if eType e = ''floor_created'' then
           (if isAgentSession (ePayload e) then None
            else Some (''floor.created'', SSEFloorCreated (ePayload e) 0 cursor))
         else if eType e = ''floor_removed'' then
           (if isAgentSession (ePayload e) then None
            else Some (''floor.removed'', SSEFloorRemoved (ePayload e) cursor))
         else None)"

text \<open>What a client reads: the mapped events among those written, in order.\<close>

definition writeSSEEvent ::
  "(string \<Rightarrow> string) \<Rightarrow> (string \<Rightarrow> string) \<Rightarrow> StreamEvent \<Rightarrow> (string \<times> SSEPayload) list" where
  "writeSSEEvent nameFn providerFn se =
     (case mapStoreEvent (seEvent se) (seID se) (Some nameFn) (Some providerFn) of None \<Rightarrow> [] | Some x \<Rightarrow> [x])"

subsection \<open>The interleavings\<close>

record sse_sys =
  ysStore :: MockStore
  ysBroker :: Broker
  ysConn :: "nat \<rightharpoonup> SSEConn"

text \<open>The cursors a store has given out: the start and the identifiers it retains.\<close>

definition valid_cursor :: "MockStore \<Rightarrow> string \<Rightarrow> bool" where
  "valid_cursor m c \<longleftrightarrow> c = ''0'' \<or> c \<in> seID ` set (streamEvents m)"

text \<open>
  Publishers, the poll goroutine, \<open>Close\<close> and the connections, one step each. A connection has the
  number of its subscription. Clients resume with cursors they were given (\<open>valid_cursor\<close>) and
  fewer than \<open>2^63\<close> events are published, so the identifiers' sequence numbers stay in int64.
\<close>

inductive sse_step :: "sse_sys \<Rightarrow> sse_sys \<Rightarrow> bool" where
  sse_publish: "PublishEvent now e (ysStore s) = Inr m' \<Longrightarrow> streamSeq m' < 2 ^ 63 \<Longrightarrow>
    sse_step s (s\<lparr>ysStore := m'\<rparr>)"
| sse_tick: "brPoll (ysBroker s) = PollTicker \<Longrightarrow>
    sse_step s (s\<lparr>ysBroker := poll_tick (ysBroker s)\<rparr>)"
| sse_read: "brPoll (ysBroker s) = PollCursor c \<Longrightarrow>
    sse_step s (s\<lparr>ysBroker := poll_read (ysStore s) c (ysBroker s)\<rparr>)"
| sse_deliver: "brPoll (ysBroker s) = PollEvents evs \<Longrightarrow>
    sse_step s (s\<lparr>ysBroker := poll_deliver evs (ysBroker s)\<rparr>)"
| sse_close: "sse_step s (s\<lparr>ysBroker := Close (ysBroker s)\<rparr>)"
| sse_connect: "Subscribe (ysBroker s) = ((i, c), b') \<Longrightarrow> valid_cursor (ysStore s) q \<or> q = '''' \<Longrightarrow>
    sse_step s (s\<lparr>ysBroker := b', ysConn := (ysConn s)(i \<mapsto> handleSSE_begin q c)\<rparr>)"
| sse_backfill: "ysConn s i = Some c \<Longrightarrow> cnPhase c = Backfill \<Longrightarrow>
    sse_step s (s\<lparr>ysConn := (ysConn s)(i \<mapsto> backfill_turn (ysStore s) c)\<rparr>)"
| sse_receive: "ysConn s i = Some c \<Longrightarrow> cnPhase c = Live \<Longrightarrow> brHeap (ysBroker s) i = Some sub \<Longrightarrow>
    recv_sub sub = Received se sub' \<Longrightarrow>
    sse_step s (s\<lparr>ysBroker := (ysBroker s)\<lparr>brHeap := (brHeap (ysBroker s))(i \<mapsto> sub')\<rparr>,
                  ysConn := (ysConn s)(i \<mapsto> live_event se c)\<rparr>)"
| sse_shut: "ysConn s i = Some c \<Longrightarrow> cnPhase c = Live \<Longrightarrow> brHeap (ysBroker s) i = Some sub \<Longrightarrow>
    recv_sub sub = ChannelClosed \<Longrightarrow>
    sse_step s (s\<lparr>ysBroker := Unsubscribe i (ysBroker s), ysConn := (ysConn s)(i \<mapsto> c\<lparr>cnPhase := Returned\<rparr>)\<rparr>)"
| sse_disconnect: "ysConn s i = Some c \<Longrightarrow> cnPhase c = Live \<Longrightarrow>
    sse_step s (s\<lparr>ysBroker := Unsubscribe i (ysBroker s), ysConn := (ysConn s)(i \<mapsto> c\<lparr>cnPhase := Returned\<rparr>)\<rparr>)"

definition sse_init :: "MockStore \<Rightarrow> duration \<Rightarrow> sse_sys" where
  "sse_init m interval =
     \<lparr>ysStore = m, ysBroker = NewBroker interval sseBatchSize (int brokerDefaultBufSize), ysConn = Map.empty\<rparr>"

definition sse_reachable :: "MockStore \<Rightarrow> sse_sys \<Rightarrow> bool" where
  "sse_reachable m s \<longleftrightarrow> (\<exists>interval. sse_step\<^sup>*\<^sup>* (sse_init m interval) s)"

subsection \<open>Slices of the log\<close>

text \<open>\<open>slice L p q\<close>: the entries with positions from \<open>p\<close> up to \<open>q\<close>.\<close>

definition slice :: "'a list \<Rightarrow> nat \<Rightarrow> nat \<Rightarrow> 'a list" where
  "slice L p q = take (q - p) (drop p L)"

lemma slice_refl [simp]: "slice L p p = []"
  by (simp add: slice_def)

lemma slice_length: "q \<le> length L \<Longrightarrow> length (slice L p q) = q - p"
  by (simp add: slice_def)

lemma slice_append: "p \<le> q \<Longrightarrow> q \<le> r \<Longrightarrow> slice L p q @ slice L q r = slice L p r"
proof -
  assume "p \<le> q" "q \<le> r"
  then have "r - p = (q - p) + (r - q)" and "drop q L = drop (q - p) (drop p L)" by simp_all
  then show ?thesis by (simp add: slice_def take_add)
qed

lemma slice_Cons: "p < q \<Longrightarrow> q \<le> length L \<Longrightarrow> slice L p q = L ! p # slice L (Suc p) q"
  by (simp add: slice_def Cons_nth_drop_Suc [symmetric] take_Cons' Suc_diff_Suc [symmetric])

lemma slice_one: "p < length L \<Longrightarrow> slice L p (Suc p) = [L ! p]"
  by (simp add: slice_Cons)

lemma slice_eq_Cons:
  assumes "slice L p q = x # xs" and "q \<le> length L"
  shows "p < q \<and> x = L ! p \<and> xs = slice L (Suc p) q"
proof -
  have "p < q" using assms(1) by (cases "p < q") (simp_all add: slice_def)
  then show ?thesis using slice_Cons [OF _ assms(2)] assms(1) by simp
qed

lemma slice_grow: "q \<le> length L \<Longrightarrow> slice (L @ M) p q = slice L p q"
  by (simp add: slice_def)

lemma slice_nth: "p + i < q \<Longrightarrow> q \<le> length L \<Longrightarrow> slice L p q ! i = L ! (p + i)"
  by (simp add: slice_def)

subsection \<open>Cursors\<close>

abbreviation store_ok :: "MockStore \<Rightarrow> bool" where
  "store_ok m \<equiv> stream_inv m \<and> streamSeq m < 2 ^ 63"

lemma PublishEvent_log:
  assumes "PublishEvent now e m = Inr m'" and "stream_inv m"
  shows "stream_inv m' \<and> (\<exists>se. streamEvents m' = streamEvents m @ [se]) \<and> stream_base m' = stream_base m"
  using assms by (auto simp: PublishEvent_def Let_def stream_inv_def stream_base_def Suc_diff_le)

lemma cursor_pos_le: "store_ok m \<Longrightarrow> valid_cursor m c \<Longrightarrow> cursor_pos m c \<le> length (streamEvents m)"
  by (auto simp: valid_cursor_def in_set_conv_nth cursor_pos_id) (simp_all add: cursor_pos_def)

lemma cursor_pos_start [simp]: "cursor_pos m ''0'' = 0"
  by (simp add: cursor_pos_def)

lemma valid_cursorE:
  assumes "valid_cursor m c"
  obtains "c = ''0''" | i where "i < length (streamEvents m)" "c = seID (streamEvents m ! i)"
  using assms by (auto simp: valid_cursor_def in_set_conv_nth)

lemma cursor_pos_inject:
  assumes "store_ok m" and "valid_cursor m c" and "valid_cursor m d" and "cursor_pos m c = cursor_pos m d"
  shows "c = d"
  using assms by (elim valid_cursorE) (simp_all add: cursor_pos_id)

lemma publish_cursor:
  assumes "store_ok m" and "PublishEvent now e m = Inr m'" and "streamSeq m' < 2 ^ 63" and "valid_cursor m c"
  shows "valid_cursor m' c \<and> cursor_pos m' c = cursor_pos m c"
proof -
  obtain se where log: "streamEvents m' = streamEvents m @ [se]" and ok: "store_ok m'"
    using PublishEvent_log [OF assms(2)] assms(1,3) by blast
  from assms(4) show ?thesis
  proof (rule valid_cursorE)
    fix i assume i: "i < length (streamEvents m)" and c: "c = seID (streamEvents m ! i)"
    then have c': "c = seID (streamEvents m' ! i)" and i': "i < length (streamEvents m')"
      by (simp_all add: log nth_append)
    have "cursor_pos m c = Suc i" using assms(1) i c by (simp add: cursor_pos_id)
    moreover have "cursor_pos m' c = Suc i" using ok i' c' by (simp add: cursor_pos_id)
    moreover have "valid_cursor m' c" using i' c' by (simp add: valid_cursor_def)
    ultimately show ?thesis by simp
  qed (simp add: valid_cursor_def)
qed

text \<open>A read at a valid cursor is the next slice, and its last identifier is the cursor after it.\<close>

lemma read_slice:
  assumes "store_ok m" and "valid_cursor m c" and "ReadEvents m c n = Inr evs"
  shows "evs = slice (streamEvents m) (cursor_pos m c) (cursor_pos m c + length evs)"
    and "cursor_pos m c + length evs \<le> length (streamEvents m)"
proof -
  have evs: "evs = take (nat n) (drop (cursor_pos m c) (streamEvents m))"
    using assms by (simp add: ReadEvents_window)
  then have "length evs = min (nat n) (length (streamEvents m) - cursor_pos m c)" by simp
  then show "evs = slice (streamEvents m) (cursor_pos m c) (cursor_pos m c + length evs)"
    by (metis add_diff_cancel_left' evs length_drop min.commute slice_def take_all_iff take_take nle_le min_def)
  show "cursor_pos m c + length evs \<le> length (streamEvents m)"
    using cursor_pos_le [OF assms(1,2)] by (simp add: evs)
qed

lemma read_empty:
  assumes "store_ok m" and "valid_cursor m c" and "0 < n" and "ReadEvents m c n = Inr []"
  shows "cursor_pos m c = length (streamEvents m)"
  using mock_log.read_empty_iff [of m n c] cursor_pos_le [OF assms(1,2)] assms by simp

lemma slice_cursor:
  assumes "store_ok m" and "i < length evs" and "evs = slice (streamEvents m) p q" and "q \<le> length (streamEvents m)"
  shows "valid_cursor m (seID (evs ! i)) \<and> cursor_pos m (seID (evs ! i)) = Suc (p + i)"
proof -
  have "i < q - p" using assms(2-4) by (simp add: slice_length)
  then have "evs ! i = streamEvents m ! (p + i)" and "p + i < length (streamEvents m)"
    using assms(3,4) by (simp_all add: slice_nth)
  then show ?thesis using assms(1) by (simp add: cursor_pos_id valid_cursor_def)
qed

subsection \<open>The fan-out\<close>

lemma fan_one_sel [simp]:
  "brSubs (fan_one se b) = brSubs b" "brCursor (fan_one se b) = seID se"
  "brClosed (fan_one se b) = brClosed b" "brNext (fan_one se b) = brNext b"
  "brHeap (fan_one se b) i = (if i \<in> brSubs b then map_option (deliver se) (brHeap b i) else brHeap b i)"
  by (simp_all add: fan_one_def)

lemma fan_out_sel [simp]:
  "brSubs (fan_out evs b) = brSubs b" "brClosed (fan_out evs b) = brClosed b"
  "brNext (fan_out evs b) = brNext b"
  "brCursor (fan_out evs b) = (if evs = [] then brCursor b else seID (last evs))"
  by (induction evs arbitrary: b) (simp_all add: fan_out_def)

lemma fan_out_heap:
  "brHeap (fan_out evs b) i =
     (if i \<in> brSubs b then map_option (fold deliver evs) (brHeap b i) else brHeap b i)"
  by (induction evs arbitrary: b) (simp_all add: fan_out_def option.map_comp comp_def option.map_id0)

lemma deliver_sel [simp]: "subClosed (deliver se sub) = subClosed sub" "subCap (deliver se sub) = subCap sub"
  by (simp_all add: deliver_def)

lemma fold_deliver_closed [simp]: "subClosed (fold deliver evs sub) = subClosed sub"
  by (induction evs arbitrary: sub) simp_all

lemma deliver_dropped: "subDropped sub \<le> subDropped (deliver se sub)"
  by (simp add: deliver_def)

lemma fold_deliver_dropped: "subDropped sub \<le> subDropped (fold deliver evs sub)"
  by (induction evs arbitrary: sub) (simp_all, meson deliver_dropped le_trans)

text \<open>Without a drop, every event of the fan-out is in the buffer, in order.\<close>

lemma fold_deliver_ch:
  "subDropped (fold deliver evs sub) = 0 \<Longrightarrow> subDropped sub = 0 \<and> subCh (fold deliver evs sub) = subCh sub @ evs"
proof (induction evs arbitrary: sub)
  case (Cons se evs)
  then have IH: "subDropped (deliver se sub) = 0 \<and> subCh (fold deliver evs (deliver se sub)) = subCh (deliver se sub) @ evs"
    by simp
  then have "subDropped sub = 0 \<and> subCh (deliver se sub) = subCh sub @ [se]"
    by (auto simp: deliver_def split: if_splits)
  then show ?case using IH by simp
qed simp

subsection \<open>The invariant of a connection\<close>

text \<open>
  \<open>n\<close> is the position up to which the connection has consumed its subscription. The backfill has
  written the slice from the client's cursor to its own; in the live phase the output is the slice
  up to \<open>n\<close>, or up to the gate while the gate is closed. \<open>unguarded\<close> is the one case without a
  promise: the broker's position was not found and the backfill had nothing to write.
\<close>

definition unguarded :: "SSEConn \<Rightarrow> bool" where
  "unguarded c \<longleftrightarrow> \<not> cnFoundCut c \<and> cnLastBackfilled c = cnSince c"

definition backfill_inv :: "MockStore \<Rightarrow> nat \<Rightarrow> SSEConn \<Rightarrow> bool" where
  "backfill_inv m n c \<longleftrightarrow>
     \<not> cnFoundCut c \<and> \<not> cnGating c \<and> cnSince c \<noteq> cnCut c \<and>
     valid_cursor m (cnCut c) \<and> n = cursor_pos m (cnCut c) \<and>
     valid_cursor m (cnCursor c) \<and> cnLastBackfilled c = cnCursor c \<and>
     cursor_pos m (cnSince c) \<le> cursor_pos m (cnCursor c) \<and>
     cnOut c = slice (streamEvents m) (cursor_pos m (cnSince c)) (cursor_pos m (cnCursor c)) \<and>
     (cursor_pos m (cnSince c) < n \<longrightarrow> cursor_pos m (cnCursor c) < n)"

definition live_inv :: "MockStore \<Rightarrow> nat \<Rightarrow> SSEConn \<Rightarrow> bool" where
  "live_inv m n c \<longleftrightarrow>
     (if cnGating c
      then \<not> cnFoundCut c \<and> cnLastBackfilled c \<noteq> cnSince c \<and>
        valid_cursor m (cnGateID c) \<and> n < cursor_pos m (cnGateID c) \<and>
        cursor_pos m (cnSince c) \<le> cursor_pos m (cnGateID c) \<and>
        cnOut c = slice (streamEvents m) (cursor_pos m (cnSince c)) (cursor_pos m (cnGateID c))
      else unguarded c \<or>
        cursor_pos m (cnSince c) \<le> n \<and> cnOut c = slice (streamEvents m) (cursor_pos m (cnSince c)) n)"

definition conn_inv :: "MockStore \<Rightarrow> nat \<Rightarrow> SSEConn \<Rightarrow> bool" where
  "conn_inv m n c \<longleftrightarrow> valid_cursor m (cnSince c) \<and>
     (if cnPhase c = Backfill then backfill_inv m n c else live_inv m n c)"

lemma slice_less_pos: "slice L p q = slice L p (min q (length L))"
  by (simp add: slice_def min_def)

lemma conn_inv_publish:
  assumes "store_ok m" and pub: "PublishEvent now e m = Inr m'" and "streamSeq m' < 2 ^ 63"
    and n: "n \<le> length (streamEvents m)" and inv: "conn_inv m n c"
  shows "conn_inv m' n c"
proof -
  obtain se where log: "streamEvents m' = streamEvents m @ [se]" using PublishEvent_log [OF pub] assms(1) by blast
  note keep = publish_cursor [OF assms(1-3)]
  have grow: "slice (streamEvents m') p q = slice (streamEvents m) p q" if "q \<le> length (streamEvents m)" for p q
    using that by (simp add: log slice_grow)
  note le = cursor_pos_le [OF assms(1)]
  show ?thesis
    using inv unfolding conn_inv_def backfill_inv_def live_inv_def
    by (auto simp: keep grow le n)
qed

lemma arm_gate_sel [simp]:
  "cnSince (arm_gate c) = cnSince c" "cnPhase (arm_gate c) = Live" "cnOut (arm_gate c) = cnOut c"
  "cnFoundCut (arm_gate c) = cnFoundCut c" "cnLastBackfilled (arm_gate c) = cnLastBackfilled c"
  "cnGateID (arm_gate c) = cnLastBackfilled c"
  "cnGating (arm_gate c) \<longleftrightarrow> \<not> cnFoundCut c \<and> cnSince c \<noteq> ''0'' \<and> cnLastBackfilled c \<noteq> cnSince c"
  by (simp_all add: arm_gate_def)

lemma conn_inv_begin:
  assumes "store_ok m" and "valid_cursor m q \<or> q = ''''" and "valid_cursor m cutID"
  shows "conn_inv m (cursor_pos m cutID) (handleSSE_begin q cutID)"
proof -
  have "valid_cursor m ''0''" by (simp add: valid_cursor_def)
  moreover have "cursor_pos m q \<noteq> cursor_pos m cutID" if "q \<noteq> cutID" "valid_cursor m q" for q
    using cursor_pos_inject [OF assms(1)] that assms(3) by blast
  ultimately show ?thesis using assms
    by (auto simp: conn_inv_def handleSSE_begin_def backfill_inv_def live_inv_def unguarded_def Let_def)
qed

text \<open>The backfill loop: a batch is written up to the broker's position if it holds it.\<close>

lemma backfill_batch_frame [simp]:
  "cnSince (backfill_batch evs c) = cnSince c" "cnCut (backfill_batch evs c) = cnCut c"
  "cnPhase (backfill_batch evs c) = cnPhase c" "cnGating (backfill_batch evs c) = cnGating c"
  by (induction evs arbitrary: c) (simp_all add: Let_def)

lemma backfill_batch_slice:
  assumes ok: "store_ok m" and "cnFoundCut c = False"
    and "evs = slice (streamEvents m) p (p + length evs)" and "p + length evs \<le> length (streamEvents m)"
    and "cnOut c = slice (streamEvents m) a p" and "a \<le> p" and "valid_cursor m (cnCut c)"
    and "valid_cursor m (cnCursor c)" and "cursor_pos m (cnCursor c) = p" and "cnLastBackfilled c = cnCursor c"
    and "p < cursor_pos m (cnCut c) \<or> a > cursor_pos m (cnCut c)"
  shows "let c' = backfill_batch evs c; q = cursor_pos m (cnCursor c')
    in cnOut c' = slice (streamEvents m) a q \<and> p \<le> q \<and> valid_cursor m (cnCursor c') \<and>
       cnLastBackfilled c' = cnCursor c' \<and> (cnFoundCut c' \<longleftrightarrow> q = cursor_pos m (cnCut c)) \<and>
       (q \<le> cursor_pos m (cnCut c) \<or> a > cursor_pos m (cnCut c))"
  using assms(2-)
proof (induction evs arbitrary: c p)
  case Nil
  then show ?case by auto
next
  case (Cons se evs)
  let ?L = "streamEvents m"
  let ?c = "c\<lparr>cnOut := cnOut c @ [se], cnCursor := seID se, cnLastBackfilled := seID se\<rparr>"
  have p: "p < length ?L" using Cons.prems(3) by simp
  have se: "se = ?L ! p" and evs: "evs = slice ?L (Suc p) (Suc p + length evs)"
    using slice_eq_Cons [OF Cons.prems(2) [symmetric] Cons.prems(3)] by simp_all
  have pos: "cursor_pos m (seID se) = Suc p" and valid: "valid_cursor m (seID se)"
    using ok p by (simp_all add: se cursor_pos_id valid_cursor_def)
  have out: "cnOut c @ [se] = slice ?L a (Suc p)"
  proof -
    have "slice ?L p (Suc p) = [se]" using p by (simp add: se slice_one)
    then show ?thesis using slice_append [of a p "Suc p" ?L] Cons.prems(4,5) by simp
  qed
  have cut: "seID se = cnCut c \<longleftrightarrow> Suc p = cursor_pos m (cnCut c)"
    using cursor_pos_inject [OF ok valid Cons.prems(6)] pos by auto
  show ?case
  proof (cases "seID se = cnCut c")
    case True
    then show ?thesis using out pos valid cut Cons.prems(5,6) by (auto simp: Let_def)
  next
    case False
    then have "Suc p < cursor_pos m (cnCut ?c) \<or> a > cursor_pos m (cnCut ?c)" using cut Cons.prems(10) by auto
    then have "let c' = backfill_batch evs ?c; q = cursor_pos m (cnCursor c')
      in cnOut c' = slice ?L a q \<and> Suc p \<le> q \<and> valid_cursor m (cnCursor c') \<and>
         cnLastBackfilled c' = cnCursor c' \<and> (cnFoundCut c' \<longleftrightarrow> q = cursor_pos m (cnCut ?c)) \<and>
         (q \<le> cursor_pos m (cnCut ?c) \<or> a > cursor_pos m (cnCut ?c))"
      using Cons.prems(1,5,6) Cons.prems(3) [unfolded list.size] out pos valid
      by (intro Cons.IH) (use evs in simp_all)
    then show ?thesis using False by (auto simp: Let_def)
  qed
qed

lemma conn_inv_arm:
  assumes ok: "store_ok m" and inv: "backfill_inv m n c" and "valid_cursor m (cnSince c)"
    and at_end: "cursor_pos m (cnCursor c) = length (streamEvents m)"
  shows "conn_inv m n (arm_gate c)"
proof -
  have n: "n \<le> length (streamEvents m)" using inv cursor_pos_le [OF ok] by (simp add: backfill_inv_def)
  have "cursor_pos m (cnSince c) \<noteq> n"
    using inv cursor_pos_inject [OF ok assms(3)] by (auto simp: backfill_inv_def)
  moreover have "\<not> cursor_pos m (cnSince c) < n" using inv n at_end by (auto simp: backfill_inv_def)
  ultimately have ahead: "n < cursor_pos m (cnSince c)" by simp
  then have "cnSince c \<noteq> ''0''" by (cases "cnSince c = ''0''") simp_all
  then show ?thesis
    using inv ahead assms(3) by (auto simp: conn_inv_def live_inv_def unguarded_def backfill_inv_def)
qed

lemma conn_inv_backfill:
  assumes ok: "store_ok m" and inv: "conn_inv m n c" and phase: "cnPhase c = Backfill"
  shows "conn_inv m n (backfill_turn m c)"
proof -
  have bi: "backfill_inv m n c" and since: "valid_cursor m (cnSince c)"
    using inv phase by (simp_all add: conn_inv_def)
  obtain evs where evs: "ReadEvents m (cnCursor c) sseBatchSize = Inr evs"
    using ok ReadEvents_window by blast
  have cursor: "valid_cursor m (cnCursor c)" using bi by (simp add: backfill_inv_def)
  show ?thesis
  proof (cases "evs = []")
    case True
    then have "cursor_pos m (cnCursor c) = length (streamEvents m)"
      using read_empty [OF ok cursor _ evs [unfolded True]] by (simp add: sseBatchSize_def)
    then show ?thesis using conn_inv_arm [OF ok bi since] evs True by (simp add: backfill_turn_def)
  next
    case False
    let ?c = "backfill_batch evs c"
    let ?q = "cursor_pos m (cnCursor ?c)"
    have "cursor_pos m (cnSince c) \<noteq> n"
      using bi cursor_pos_inject [OF ok since] by (auto simp: backfill_inv_def)
    then have side: "cursor_pos m (cnCursor c) < cursor_pos m (cnCut c) \<or> cursor_pos m (cnSince c) > cursor_pos m (cnCut c)"
      using bi by (auto simp: backfill_inv_def)
    note slice = read_slice [OF ok cursor evs]
    have batch: "cnOut ?c = slice (streamEvents m) (cursor_pos m (cnSince c)) ?q"
      "cursor_pos m (cnCursor c) \<le> ?q" "valid_cursor m (cnCursor ?c)" "cnLastBackfilled ?c = cnCursor ?c"
      "cnFoundCut ?c \<longleftrightarrow> ?q = cursor_pos m (cnCut c)"
      "?q \<le> cursor_pos m (cnCut c) \<or> cursor_pos m (cnSince c) > cursor_pos m (cnCut c)"
      using backfill_batch_slice [OF ok _ slice, of c "cursor_pos m (cnSince c)"] bi side
      by (simp_all add: backfill_inv_def Let_def)
    have n: "n = cursor_pos m (cnCut c)" using bi by (simp add: backfill_inv_def)
    have le: "cursor_pos m (cnSince c) \<le> ?q" using bi batch(2) by (simp add: backfill_inv_def)
    show ?thesis
    proof (cases "cnFoundCut ?c")
      case True
      then show ?thesis using evs False batch n le since bi
        by (simp add: backfill_turn_def conn_inv_def live_inv_def unguarded_def)
    next
      case unfound: False
      then have "backfill_inv m n ?c" using batch n le bi by (auto simp: backfill_inv_def)
      then show ?thesis using evs False unfound since phase
        by (simp add: backfill_turn_def conn_inv_def)
    qed
  qed
qed

lemma conn_inv_receive:
  assumes ok: "store_ok m" and inv: "conn_inv m n c" and phase: "cnPhase c = Live"
    and se: "se = streamEvents m ! n" and n: "n < length (streamEvents m)"
  shows "conn_inv m (Suc n) (live_event se c)"
proof -
  have pos: "cursor_pos m (seID se) = Suc n" "valid_cursor m (seID se)"
    using ok n by (simp_all add: se cursor_pos_id valid_cursor_def)
  have one: "slice (streamEvents m) n (Suc n) = [se]" using n by (simp add: se slice_one)
  show ?thesis
  proof (cases "cnGating c")
    case True
    then have gate: "valid_cursor m (cnGateID c)" and less: "n < cursor_pos m (cnGateID c)"
      using inv phase by (simp_all add: conn_inv_def live_inv_def)
    have "seID se = cnGateID c \<longleftrightarrow> Suc n = cursor_pos m (cnGateID c)"
      using cursor_pos_inject [OF ok pos(2) gate] pos(1) by auto
    then show ?thesis using True inv phase less
      by (auto simp: conn_inv_def live_inv_def live_event_def)
  next
    case False
    then show ?thesis using inv phase one slice_append [of "cursor_pos m (cnSince c)" n "Suc n" "streamEvents m"]
      by (auto simp: conn_inv_def live_inv_def live_event_def unguarded_def)
  qed
qed

subsection \<open>The invariant of the system\<close>

text \<open>
  Channel safety: the fan-out set is exactly the open subscriptions, and a closed broker has none.
\<close>

definition chan_inv :: "Broker \<Rightarrow> bool" where
  "chan_inv b \<longleftrightarrow>
     (\<forall>i. i \<in> brSubs b \<longleftrightarrow> (\<exists>sub. brHeap b i = Some sub \<and> \<not> subClosed sub)) \<and>
     (\<forall>i. brHeap b i \<noteq> None \<longrightarrow> i < brNext b) \<and> (brClosed b \<longrightarrow> brSubs b = {})"

definition poll_inv :: "MockStore \<Rightarrow> Broker \<Rightarrow> bool" where
  "poll_inv m b \<longleftrightarrow> valid_cursor m (brCursor b) \<and>
     (case brPoll b of
        PollCursor c \<Rightarrow> c = brCursor b
      | PollEvents evs \<Rightarrow> evs \<noteq> [] \<and>
          cursor_pos m (brCursor b) + length evs \<le> length (streamEvents m) \<and>
          evs = slice (streamEvents m) (cursor_pos m (brCursor b)) (cursor_pos m (brCursor b) + length evs)
      | _ \<Rightarrow> True)"

text \<open>A subscription without a drop buffers the slice from where its reader is, \<open>n\<close>, to the broker.\<close>

definition sub_inv :: "MockStore \<Rightarrow> Broker \<Rightarrow> nat \<Rightarrow> nat \<Rightarrow> Subscription \<Rightarrow> bool" where
  "sub_inv m b i n sub \<longleftrightarrow> (\<exists>e. n \<le> e \<and> e \<le> cursor_pos m (brCursor b) \<and>
     subCh sub = slice (streamEvents m) n e \<and> (i \<in> brSubs b \<longrightarrow> e = cursor_pos m (brCursor b)))"

definition conns_inv :: "sse_sys \<Rightarrow> bool" where
  "conns_inv s \<longleftrightarrow> (\<forall>i c. ysConn s i = Some c \<longrightarrow>
     (\<exists>sub. brHeap (ysBroker s) i = Some sub \<and>
        (subDropped sub = 0 \<longrightarrow> (\<exists>n. sub_inv (ysStore s) (ysBroker s) i n sub \<and> conn_inv (ysStore s) n c))))"

definition sse_inv :: "sse_sys \<Rightarrow> bool" where
  "sse_inv s \<longleftrightarrow> store_ok (ysStore s) \<and> chan_inv (ysBroker s) \<and>
     poll_inv (ysStore s) (ysBroker s) \<and> conns_inv s"

lemmas sse_inv_parts = sse_inv_def conns_inv_def

lemma conns_invI:
  "(\<And>i c. ysConn s i = Some c \<Longrightarrow> \<exists>sub. brHeap (ysBroker s) i = Some sub \<and>
      (subDropped sub = 0 \<longrightarrow> (\<exists>n. sub_inv (ysStore s) (ysBroker s) i n sub \<and> conn_inv (ysStore s) n c)))
   \<Longrightarrow> conns_inv s"
  by (simp add: conns_inv_def)

lemma conns_invD:
  "conns_inv s \<Longrightarrow> ysConn s i = Some c \<Longrightarrow> \<exists>sub. brHeap (ysBroker s) i = Some sub \<and>
     (subDropped sub = 0 \<longrightarrow> (\<exists>n. sub_inv (ysStore s) (ysBroker s) i n sub \<and> conn_inv (ysStore s) n c))"
  by (simp add: conns_inv_def)

lemma chan_inv_New: "chan_inv (NewBroker interval batch bufSize)"
  by (simp add: chan_inv_def NewBroker_def)

lemma chan_inv_fan_out: "chan_inv b \<Longrightarrow> chan_inv (fan_out evs b)"
  by (auto simp: chan_inv_def fan_out_heap)

lemma chan_inv_poll [simp]: "chan_inv (b\<lparr>brPoll := p\<rparr>) = chan_inv b"
  by (simp add: chan_inv_def)

lemma chan_inv_Close: "chan_inv b \<Longrightarrow> chan_inv (Close b)"
  by (auto simp: chan_inv_def Close_def close_sub_def)

lemma chan_inv_Unsubscribe: "chan_inv b \<Longrightarrow> chan_inv (Unsubscribe i b)"
  by (auto simp: chan_inv_def Unsubscribe_def close_sub_def)

lemma chan_inv_Subscribe: "chan_inv b \<Longrightarrow> Subscribe b = (r, b') \<Longrightarrow> chan_inv b'"
  by (auto simp: chan_inv_def Subscribe_def Let_def less_Suc_eq split: if_splits)

lemma chan_inv_recv:
  "chan_inv b \<Longrightarrow> brHeap b i = Some sub \<Longrightarrow> recv_sub sub = Received se sub' \<Longrightarrow>
     chan_inv (b\<lparr>brHeap := (brHeap b)(i \<mapsto> sub')\<rparr>)"
  by (auto simp: chan_inv_def recv_sub_def split: list.splits if_splits)

lemma store_frame_sub_inv [simp]: "sub_inv m (b\<lparr>brPoll := p\<rparr>) i n sub = sub_inv m b i n sub"
  by (simp add: sub_inv_def)

text \<open>The steps, one lemma each.\<close>

lemma sse_inv_publish:
  assumes inv: "sse_inv s" and pub: "PublishEvent now e (ysStore s) = Inr m'" and small: "streamSeq m' < 2 ^ 63"
  shows "sse_inv (s\<lparr>ysStore := m'\<rparr>)"
proof -
  let ?m = "ysStore s" and ?b = "ysBroker s"
  have ok: "store_ok ?m" and chan: "chan_inv ?b" and poll: "poll_inv ?m ?b" and conns: "conns_inv s"
    using inv by (simp_all add: sse_inv_def)
  obtain se where log: "streamEvents m' = streamEvents ?m @ [se]" and ok': "store_ok m'"
    using PublishEvent_log [OF pub] ok small by blast
  note keep = publish_cursor [OF ok pub small]
  have cursor: "valid_cursor ?m (brCursor ?b)" using poll by (simp add: poll_inv_def)
  note bpos = cursor_pos_le [OF ok cursor]
  have "poll_inv m' ?b" using poll keep [OF cursor]
    by (auto simp: poll_inv_def log slice_grow split: poll_state.splits)
  moreover have "conns_inv (s\<lparr>ysStore := m'\<rparr>)"
  proof (rule conns_invI)
    fix i c assume "ysConn (s\<lparr>ysStore := m'\<rparr>) i = Some c"
    then have "ysConn s i = Some c" by simp
    obtain sub where sub: "brHeap ?b i = Some sub"
      and R: "subDropped sub = 0 \<longrightarrow> (\<exists>n. sub_inv ?m ?b i n sub \<and> conn_inv ?m n c)"
      using conns_invD [OF conns \<open>ysConn s i = Some c\<close>] by (elim exE conjE) (rule that)
    have "\<exists>n. sub_inv m' ?b i n sub \<and> conn_inv m' n c" if zero: "subDropped sub = 0"
    proof -
      obtain n where n: "sub_inv ?m ?b i n sub" "conn_inv ?m n c" using R zero by blast
      have "n \<le> length (streamEvents ?m)" using n(1) bpos by (auto simp: sub_inv_def)
      then have "conn_inv m' n c" using conn_inv_publish [OF ok pub small _ n(2)] by simp
      moreover have "sub_inv m' ?b i n sub"
        using n(1) bpos keep [OF cursor] by (fastforce simp: sub_inv_def log slice_grow)
      ultimately show ?thesis by blast
    qed
    then show "\<exists>sub. brHeap (ysBroker (s\<lparr>ysStore := m'\<rparr>)) i = Some sub \<and>
        (subDropped sub = 0 \<longrightarrow> (\<exists>n. sub_inv (ysStore (s\<lparr>ysStore := m'\<rparr>)) (ysBroker (s\<lparr>ysStore := m'\<rparr>)) i n sub \<and>
           conn_inv (ysStore (s\<lparr>ysStore := m'\<rparr>)) n c))"
      using sub by auto
  qed
  ultimately show ?thesis using ok' chan by (simp add: sse_inv_def)
qed

text \<open>A step of the broker that keeps the cursor and every reader's buffer keeps the connections.\<close>

lemma conns_inv_broker:
  assumes "conns_inv s"
    and "\<And>i sub n. brHeap (ysBroker s) i = Some sub \<Longrightarrow> \<exists>sub'. brHeap b' i = Some sub' \<and>
      subDropped sub \<le> subDropped sub' \<and>
      (subDropped sub' = 0 \<longrightarrow> sub_inv (ysStore s) (ysBroker s) i n sub \<longrightarrow> sub_inv (ysStore s) b' i n sub')"
  shows "conns_inv (s\<lparr>ysBroker := b'\<rparr>)"
proof (rule conns_invI)
  fix i c assume "ysConn (s\<lparr>ysBroker := b'\<rparr>) i = Some c"
  then have "ysConn s i = Some c" by simp
  obtain sub where sub: "brHeap (ysBroker s) i = Some sub"
    and R: "subDropped sub = 0 \<longrightarrow> (\<exists>n. sub_inv (ysStore s) (ysBroker s) i n sub \<and> conn_inv (ysStore s) n c)"
    using conns_invD [OF assms(1) \<open>ysConn s i = Some c\<close>] by (elim exE conjE) (rule that)
  obtain sub' where sub': "brHeap b' i = Some sub'" "subDropped sub \<le> subDropped sub'"
    using assms(2) [OF sub] by blast
  have "\<exists>n. sub_inv (ysStore s) b' i n sub' \<and> conn_inv (ysStore s) n c" if zero: "subDropped sub' = 0"
    using R assms(2) [OF sub] sub' zero by fastforce
  then show "\<exists>sub. brHeap (ysBroker (s\<lparr>ysBroker := b'\<rparr>)) i = Some sub \<and>
      (subDropped sub = 0 \<longrightarrow> (\<exists>n. sub_inv (ysStore (s\<lparr>ysBroker := b'\<rparr>)) (ysBroker (s\<lparr>ysBroker := b'\<rparr>)) i n sub \<and>
         conn_inv (ysStore (s\<lparr>ysBroker := b'\<rparr>)) n c))"
    using sub' by auto
qed

lemma conns_inv_poll: "conns_inv s \<Longrightarrow> conns_inv (s\<lparr>ysBroker := (ysBroker s)\<lparr>brPoll := p\<rparr>\<rparr>)"
  by (rule conns_inv_broker) simp_all

lemma sse_inv_poll:
  assumes "sse_inv s" and "poll_inv (ysStore s) ((ysBroker s)\<lparr>brPoll := p\<rparr>)"
  shows "sse_inv (s\<lparr>ysBroker := (ysBroker s)\<lparr>brPoll := p\<rparr>\<rparr>)"
  using assms conns_inv_poll by (simp add: sse_inv_def)

lemma sse_inv_tick: "sse_inv s \<Longrightarrow> sse_inv (s\<lparr>ysBroker := poll_tick (ysBroker s)\<rparr>)"
  unfolding poll_tick_def snapshotCursor_def
  by (cases "brCancelled (ysBroker s)"; simp; rule sse_inv_poll) (simp_all add: sse_inv_def poll_inv_def)

lemma sse_inv_read:
  assumes inv: "sse_inv s" and at: "brPoll (ysBroker s) = PollCursor c"
  shows "sse_inv (s\<lparr>ysBroker := poll_read (ysStore s) c (ysBroker s)\<rparr>)"
proof -
  have ok: "store_ok (ysStore s)" and poll: "poll_inv (ysStore s) (ysBroker s)" using inv by (simp_all add: sse_inv_def)
  have c: "c = brCursor (ysBroker s)" and valid: "valid_cursor (ysStore s) c" using poll at by (simp_all add: poll_inv_def)
  obtain evs where evs: "ReadEvents (ysStore s) c (brBatch (ysBroker s)) = Inr evs"
    using ok ReadEvents_window by blast
  note slice = read_slice [OF ok valid evs]
  show ?thesis
    unfolding poll_read_def evs sum.case
    using slice poll c by (auto intro!: sse_inv_poll [OF inv] simp: poll_inv_def)
qed

lemma sse_inv_deliver:
  assumes inv: "sse_inv s" and at: "brPoll (ysBroker s) = PollEvents evs"
  shows "sse_inv (s\<lparr>ysBroker := poll_deliver evs (ysBroker s)\<rparr>)"
proof -
  let ?m = "ysStore s" and ?b = "ysBroker s"
  let ?p = "cursor_pos ?m (brCursor ?b)" and ?q = "cursor_pos ?m (brCursor ?b) + length evs"
  have ok: "store_ok ?m" and chan: "chan_inv ?b" and poll: "poll_inv ?m ?b" and conns: "conns_inv s"
    using inv by (simp_all add: sse_inv_def)
  have nonempty: "evs \<noteq> []" and slice: "evs = slice (streamEvents ?m) ?p ?q"
    and le: "?q \<le> length (streamEvents ?m)" using poll at by (simp_all add: poll_inv_def)
  have "length evs - 1 < length evs" using nonempty by simp
  from slice_cursor [OF ok this slice le]
  have cursor: "valid_cursor ?m (seID (last evs))" "cursor_pos ?m (seID (last evs)) = ?q"
    using nonempty by (simp_all add: last_conv_nth)
  have "poll_inv ?m (poll_deliver evs ?b)"
    using cursor nonempty by (simp add: poll_inv_def poll_deliver_def)
  moreover have "chan_inv (poll_deliver evs ?b)" using chan by (simp add: poll_deliver_def chan_inv_fan_out)
  moreover have "conns_inv (s\<lparr>ysBroker := poll_deliver evs ?b\<rparr>)"
  proof (rule conns_inv_broker [OF conns])
    fix i sub n assume sub: "brHeap ?b i = Some sub"
    show "\<exists>sub'. brHeap (poll_deliver evs ?b) i = Some sub' \<and> subDropped sub \<le> subDropped sub' \<and>
        (subDropped sub' = 0 \<longrightarrow> sub_inv ?m ?b i n sub \<longrightarrow> sub_inv ?m (poll_deliver evs ?b) i n sub')"
    proof (cases "i \<in> brSubs ?b")
      case True
      have "sub_inv ?m (poll_deliver evs ?b) i n (fold deliver evs sub)"
        if zero: "subDropped (fold deliver evs sub) = 0" and old: "sub_inv ?m ?b i n sub"
      proof -
        have "n \<le> ?p" and "subCh sub = slice (streamEvents ?m) n ?p" using old True by (auto simp: sub_inv_def)
        moreover have "subCh (fold deliver evs sub) = subCh sub @ evs" using fold_deliver_ch [OF zero] by simp
        ultimately have "subCh (fold deliver evs sub) = slice (streamEvents ?m) n ?q"
          using slice slice_append [of n ?p ?q "streamEvents ?m"] by simp
        then show ?thesis using \<open>n \<le> ?p\<close> cursor nonempty
          by (auto simp: sub_inv_def poll_deliver_def intro: exI [of _ ?q])
      qed
      then show ?thesis using True sub fold_deliver_dropped by (simp add: poll_deliver_def fan_out_heap)
    next
      case False
      have "sub_inv ?m (poll_deliver evs ?b) i n sub" if "sub_inv ?m ?b i n sub"
        using that False cursor nonempty by (auto simp: sub_inv_def poll_deliver_def)
      then show ?thesis using False sub by (simp add: poll_deliver_def fan_out_heap)
    qed
  qed
  ultimately show ?thesis using ok by (simp add: sse_inv_def)
qed

lemma sub_inv_closed:
  "sub_inv m b i n sub \<Longrightarrow> brCursor b' = brCursor b \<Longrightarrow> brSubs b' \<subseteq> brSubs b \<Longrightarrow> sub_inv m b' i n (close_sub sub)"
  "sub_inv m b i n sub \<Longrightarrow> brCursor b' = brCursor b \<Longrightarrow> brSubs b' \<subseteq> brSubs b \<Longrightarrow> sub_inv m b' i n sub"
  by (auto simp: sub_inv_def close_sub_def)

lemma close_sub_dropped [simp]: "subDropped (close_sub sub) = subDropped sub"
  by (simp add: close_sub_def)

lemma sse_inv_Close: "sse_inv s \<Longrightarrow> sse_inv (s\<lparr>ysBroker := Close (ysBroker s)\<rparr>)"
proof -
  assume inv: "sse_inv s"
  have "conns_inv (s\<lparr>ysBroker := Close (ysBroker s)\<rparr>)"
    using inv by (intro conns_inv_broker) (auto simp: sse_inv_def Close_def intro: sub_inv_closed)
  moreover have "poll_inv (ysStore s) (Close (ysBroker s))"
    using inv by (simp add: sse_inv_def poll_inv_def Close_def split: poll_state.splits)
  ultimately show ?thesis using inv chan_inv_Close by (simp add: sse_inv_def)
qed

lemma Unsubscribe_sel [simp]:
  "brCursor (Unsubscribe i b) = brCursor b" "brPoll (Unsubscribe i b) = brPoll b"
  "brSubs (Unsubscribe i b) = brSubs b - {i}"
  by (auto simp: Unsubscribe_def)

lemma sse_inv_Unsubscribe: "sse_inv s \<Longrightarrow> sse_inv (s\<lparr>ysBroker := Unsubscribe i (ysBroker s)\<rparr>)"
proof -
  assume inv: "sse_inv s"
  have "conns_inv (s\<lparr>ysBroker := Unsubscribe i (ysBroker s)\<rparr>)"
  proof (rule conns_inv_broker)
    fix j sub n assume sub: "brHeap (ysBroker s) j = Some sub"
    let ?sub = "if j = i \<and> i \<in> brSubs (ysBroker s) then close_sub sub else sub"
    have "brHeap (Unsubscribe i (ysBroker s)) j = Some ?sub" using sub by (auto simp: Unsubscribe_def)
    moreover have "sub_inv (ysStore s) (ysBroker s) j n sub \<longrightarrow>
        sub_inv (ysStore s) (Unsubscribe i (ysBroker s)) j n ?sub"
      by (auto intro: sub_inv_closed)
    ultimately show "\<exists>sub'. brHeap (Unsubscribe i (ysBroker s)) j = Some sub' \<and> subDropped sub \<le> subDropped sub' \<and>
        (subDropped sub' = 0 \<longrightarrow> sub_inv (ysStore s) (ysBroker s) j n sub \<longrightarrow>
           sub_inv (ysStore s) (Unsubscribe i (ysBroker s)) j n sub')"
      by (intro exI [of _ ?sub]) simp
  qed (use inv in \<open>simp add: sse_inv_def\<close>)
  moreover have "poll_inv (ysStore s) (Unsubscribe i (ysBroker s))"
    using inv by (simp add: sse_inv_def poll_inv_def split: poll_state.splits)
  ultimately show ?thesis using inv chan_inv_Unsubscribe by (simp add: sse_inv_def)
qed

text \<open>A step of one connection that keeps its part of the invariant.\<close>

lemma sse_inv_conn:
  assumes "sse_inv s" and "brHeap (ysBroker s) i = Some sub"
    and "subDropped sub = 0 \<Longrightarrow> \<exists>n. sub_inv (ysStore s) (ysBroker s) i n sub \<and> conn_inv (ysStore s) n c"
  shows "sse_inv (s\<lparr>ysConn := (ysConn s)(i \<mapsto> c)\<rparr>)"
  using assms by (auto simp: sse_inv_def conns_inv_def)

lemma sse_inv_backfill:
  assumes inv: "sse_inv s" and c: "ysConn s i = Some c" "cnPhase c = Backfill"
  shows "sse_inv (s\<lparr>ysConn := (ysConn s)(i \<mapsto> backfill_turn (ysStore s) c)\<rparr>)"
proof -
  have ok: "store_ok (ysStore s)" and conns: "conns_inv s" using inv by (simp_all add: sse_inv_def)
  obtain sub where sub: "brHeap (ysBroker s) i = Some sub"
    and R: "subDropped sub = 0 \<longrightarrow> (\<exists>n. sub_inv (ysStore s) (ysBroker s) i n sub \<and> conn_inv (ysStore s) n c)"
    using conns_invD [OF conns c(1)] by (elim exE conjE) (rule that)
  show ?thesis
    by (rule sse_inv_conn [OF inv sub]) (use R conn_inv_backfill [OF ok _ c(2)] in blast)
qed

lemma sse_inv_returned:
  assumes inv: "sse_inv s" and c: "ysConn s i = Some c" "cnPhase c = Live"
  shows "sse_inv (s\<lparr>ysBroker := Unsubscribe i (ysBroker s), ysConn := (ysConn s)(i \<mapsto> c\<lparr>cnPhase := Returned\<rparr>)\<rparr>)"
proof -
  let ?s = "s\<lparr>ysBroker := Unsubscribe i (ysBroker s)\<rparr>"
  have inv': "sse_inv ?s" by (rule sse_inv_Unsubscribe [OF inv])
  then have conns: "conns_inv ?s" by (simp add: sse_inv_def)
  have "ysConn ?s i = Some c" using c by simp
  obtain sub where sub: "brHeap (ysBroker ?s) i = Some sub"
    and R: "subDropped sub = 0 \<longrightarrow> (\<exists>n. sub_inv (ysStore ?s) (ysBroker ?s) i n sub \<and> conn_inv (ysStore ?s) n c)"
    using conns_invD [OF conns \<open>ysConn ?s i = Some c\<close>] by (elim exE conjE) (rule that)
  have "conn_inv m n c \<Longrightarrow> conn_inv m n (c\<lparr>cnPhase := Returned\<rparr>)" for m n
    using c(2) by (auto simp: conn_inv_def live_inv_def unguarded_def)
  then have "sse_inv (?s\<lparr>ysConn := (ysConn ?s)(i \<mapsto> c\<lparr>cnPhase := Returned\<rparr>)\<rparr>)"
    using R by (intro sse_inv_conn [OF inv' sub]) blast
  then show ?thesis by simp
qed

lemma sse_inv_receive:
  assumes inv: "sse_inv s" and c: "ysConn s i = Some c" "cnPhase c = Live"
    and sub: "brHeap (ysBroker s) i = Some sub" and recv: "recv_sub sub = Received se sub'"
  shows "sse_inv (s\<lparr>ysBroker := (ysBroker s)\<lparr>brHeap := (brHeap (ysBroker s))(i \<mapsto> sub')\<rparr>,
                    ysConn := (ysConn s)(i \<mapsto> live_event se c)\<rparr>)"
proof -
  let ?m = "ysStore s" and ?b = "ysBroker s"
  let ?b' = "?b\<lparr>brHeap := (brHeap ?b)(i \<mapsto> sub')\<rparr>"
  have ok: "store_ok ?m" and chan: "chan_inv ?b" and poll: "poll_inv ?m ?b" and conns: "conns_inv s"
    using inv by (simp_all add: sse_inv_def)
  have ch: "subCh sub = se # subCh sub'" and dropped: "subDropped sub' = subDropped sub"
    using recv by (auto simp: recv_sub_def split: list.splits if_splits)
  have bpos: "cursor_pos ?m (brCursor ?b) \<le> length (streamEvents ?m)"
    using poll cursor_pos_le [OF ok] by (simp add: poll_inv_def)
  have R: "subDropped sub = 0 \<longrightarrow> (\<exists>n. sub_inv ?m ?b i n sub \<and> conn_inv ?m n c)"
    using conns_invD [OF conns c(1)] sub by auto
  have "conns_inv (s\<lparr>ysBroker := ?b', ysConn := (ysConn s)(i \<mapsto> live_event se c)\<rparr>)"
  proof (rule conns_invI)
    fix j d assume d: "ysConn (s\<lparr>ysBroker := ?b', ysConn := (ysConn s)(i \<mapsto> live_event se c)\<rparr>) j = Some d"
    have same: "sub_inv ?m ?b' j n x = sub_inv ?m ?b j n x" for n x by (simp add: sub_inv_def)
    show "\<exists>sub. brHeap (ysBroker (s\<lparr>ysBroker := ?b', ysConn := (ysConn s)(i \<mapsto> live_event se c)\<rparr>)) j = Some sub \<and>
        (subDropped sub = 0 \<longrightarrow> (\<exists>n. sub_inv (ysStore (s\<lparr>ysBroker := ?b', ysConn := (ysConn s)(i \<mapsto> live_event se c)\<rparr>))
            (ysBroker (s\<lparr>ysBroker := ?b', ysConn := (ysConn s)(i \<mapsto> live_event se c)\<rparr>)) j n sub \<and>
          conn_inv (ysStore (s\<lparr>ysBroker := ?b', ysConn := (ysConn s)(i \<mapsto> live_event se c)\<rparr>)) n d))"
    proof (cases "j = i")
      case True
      have "\<exists>n. sub_inv ?m ?b i n sub' \<and> conn_inv ?m n (live_event se c)" if "subDropped sub' = 0"
      proof -
        obtain n e where n: "conn_inv ?m n c" "n \<le> e" "e \<le> cursor_pos ?m (brCursor ?b)"
          "subCh sub = slice (streamEvents ?m) n e" "i \<in> brSubs ?b \<longrightarrow> e = cursor_pos ?m (brCursor ?b)"
          using R \<open>subDropped sub' = 0\<close> unfolding dropped sub_inv_def by auto
        have e: "e \<le> length (streamEvents ?m)" using n(3) bpos by simp
        have at: "n < e \<and> se = streamEvents ?m ! n \<and> subCh sub' = slice (streamEvents ?m) (Suc n) e"
          using slice_eq_Cons [OF n(4) [symmetric, unfolded ch] e] .
        then have "conn_inv ?m (Suc n) (live_event se c)"
          using e conn_inv_receive [OF ok n(1) c(2)] by simp
        moreover have "sub_inv ?m ?b i (Suc n) sub'"
          unfolding sub_inv_def using at n by (intro exI [of _ e]) simp
        ultimately show ?thesis by blast
      qed
      then show ?thesis using True d same by simp
    next
      case False
      then have "ysConn s j = Some d" using d by simp
      from conns_invD [OF conns this] show ?thesis using False same by simp
    qed
  qed
  moreover have "poll_inv ?m ?b'" using poll by (simp add: poll_inv_def split: poll_state.splits)
  ultimately show ?thesis using ok chan_inv_recv [OF chan sub recv] by (simp add: sse_inv_def)
qed

lemma sse_inv_connect:
  assumes inv: "sse_inv s" and sub: "Subscribe (ysBroker s) = ((i, c), b')"
    and q: "valid_cursor (ysStore s) q \<or> q = ''''"
  shows "sse_inv (s\<lparr>ysBroker := b', ysConn := (ysConn s)(i \<mapsto> handleSSE_begin q c)\<rparr>)"
proof -
  let ?m = "ysStore s" and ?b = "ysBroker s"
  have ok: "store_ok ?m" and chan: "chan_inv ?b" and poll: "poll_inv ?m ?b" and conns: "conns_inv s"
    using inv by (simp_all add: sse_inv_def)
  have new: "i = brNext ?b" "c = brCursor ?b" "brCursor b' = brCursor ?b" "brPoll b' = brPoll ?b"
    "brHeap b' j = (if j = i then Some \<lparr>subCh = [], subCap = brBufSize ?b, subClosed = brClosed ?b, subDropped = 0\<rparr>
       else brHeap ?b j)"
    "j \<noteq> i \<Longrightarrow> j \<in> brSubs b' \<longleftrightarrow> j \<in> brSubs ?b" for j
    using sub by (auto simp: Subscribe_def Let_def split: if_splits)
  have "conns_inv (s\<lparr>ysBroker := b', ysConn := (ysConn s)(i \<mapsto> handleSSE_begin q c)\<rparr>)"
  proof (rule conns_invI)
    fix j d assume d: "ysConn (s\<lparr>ysBroker := b', ysConn := (ysConn s)(i \<mapsto> handleSSE_begin q c)\<rparr>) j = Some d"
    show "\<exists>sub. brHeap (ysBroker (s\<lparr>ysBroker := b', ysConn := (ysConn s)(i \<mapsto> handleSSE_begin q c)\<rparr>)) j = Some sub \<and>
        (subDropped sub = 0 \<longrightarrow> (\<exists>n. sub_inv (ysStore (s\<lparr>ysBroker := b', ysConn := (ysConn s)(i \<mapsto> handleSSE_begin q c)\<rparr>))
            (ysBroker (s\<lparr>ysBroker := b', ysConn := (ysConn s)(i \<mapsto> handleSSE_begin q c)\<rparr>)) j n sub \<and>
          conn_inv (ysStore (s\<lparr>ysBroker := b', ysConn := (ysConn s)(i \<mapsto> handleSSE_begin q c)\<rparr>)) n d))"
    proof (cases "j = i")
      case True
      have "valid_cursor ?m c" using poll new by (simp add: poll_inv_def)
      then have "conn_inv ?m (cursor_pos ?m c) (handleSSE_begin q c)" by (rule conn_inv_begin [OF ok q])
      moreover have "sub_inv ?m b' i (cursor_pos ?m c) \<lparr>subCh = [], subCap = brBufSize ?b, subClosed = brClosed ?b, subDropped = 0\<rparr>"
        using new by (auto simp: sub_inv_def)
      ultimately show ?thesis using True d new by auto
    next
      case False
      then have "ysConn s j = Some d" using d by simp
      from conns_invD [OF conns this] show ?thesis using False new by (simp add: sub_inv_def)
    qed
  qed
  moreover have "poll_inv ?m b'" using poll new by (simp add: poll_inv_def split: poll_state.splits)
  ultimately show ?thesis using ok chan_inv_Subscribe [OF chan sub] by (simp add: sse_inv_def)
qed

lemma sse_step_inv: "sse_step s s' \<Longrightarrow> sse_inv s \<Longrightarrow> sse_inv s'"
  by (induction rule: sse_step.induct)
     (blast intro: sse_inv_publish sse_inv_tick sse_inv_read sse_inv_deliver sse_inv_Close sse_inv_connect
       sse_inv_backfill sse_inv_receive sse_inv_returned)+

lemma sse_init_inv: "store_ok m \<Longrightarrow> sse_inv (sse_init m interval)"
  by (simp add: sse_inv_def sse_init_def chan_inv_New poll_inv_def conns_inv_def valid_cursor_def)
     (simp add: NewBroker_def)

lemma sse_reachable_inv:
  assumes "store_ok m" and "sse_reachable m s"
  shows "sse_inv s"
proof -
  obtain interval where "sse_step\<^sup>*\<^sup>* (sse_init m interval) s" using assms(2) by (auto simp: sse_reachable_def)
  then show ?thesis by (induction rule: rtranclp_induct) (auto intro: sse_init_inv [OF assms(1)] sse_step_inv)
qed

subsection \<open>Properties of the event stream\<close>

lemma prefix_slice: "prefix (slice L p q) (drop p L)"
  by (simp add: slice_def take_is_prefix)


text \<open>
  Channel safety: the poll goroutine sends only on open channels, no channel is closed twice (the
  fan-out set is exactly the set of open subscriptions), and once the broker is closed every channel
  is closed, so that no client waits on it forever.
\<close>

theorem broker_channel_safety:
  assumes "store_ok m" and "sse_reachable m s"
  shows "brSubs (ysBroker s) = {i. \<exists>sub. brHeap (ysBroker s) i = Some sub \<and> \<not> subClosed sub} \<and>
    (brClosed (ysBroker s) \<longrightarrow> (\<forall>sub \<in> ran (brHeap (ysBroker s)). subClosed sub))"
  using sse_reachable_inv [OF assms] by (auto simp: sse_inv_def chan_inv_def ran_def)

subsection \<open>Runs\<close>

definition sample_event :: "string \<Rightarrow> Event" where
  "sample_event ty = \<lparr>eType = ty, eAgentID = ''a1'', eTaskID = ''t1'', eTimestamp = 7, ePayload = ''''\<rparr>"

definition one_event_store :: MockStore where
  "one_event_store = state_after NewMockStore (PublishEvent 0 (sample_event ''agent_registered'') NewMockStore)"

lemma one_event_store_sel:
  "streamEvents one_event_store = [\<lparr>seID = ''mock-1'', seEvent = sample_event ''agent_registered''\<rparr>]"
  "streamSeq one_event_store = 1"
  by (simp_all add: one_event_store_def PublishEvent_def NewMockStore_def sample_event_def Let_def
      mock_id_def dec.simps digit_char_def)

lemma one_event_store_ok: "store_ok one_event_store"
  by (simp add: stream_inv_def stream_base_def one_event_store_sel mock_id_def dec.simps digit_char_def)

lemma sse_reachable_init: "sse_reachable m (sse_init m 0)"
  by (auto simp: sse_reachable_def)

lemma sse_reachable_step: "sse_reachable m s \<Longrightarrow> sse_step s s' \<Longrightarrow> sse_reachable m s'"
  by (auto simp: sse_reachable_def intro: rtranclp.rtrancl_into_rtrancl)

text \<open>The broker polls once, before or after the client connects with a cursor.\<close>

definition poll_round :: "sse_sys \<Rightarrow> sse_sys" where
  "poll_round s =
     (let b = poll_read (ysStore s) (brCursor (ysBroker s)) (poll_tick (ysBroker s))
      in s\<lparr>ysBroker := (case brPoll b of PollEvents evs \<Rightarrow> poll_deliver evs b | _ \<Rightarrow> b)\<rparr>)"

lemma poll_round_reachable:
  assumes "sse_reachable m s" and "brPoll (ysBroker s) = PollTicker" and "\<not> brCancelled (ysBroker s)"
  shows "sse_reachable m (poll_round s)"
proof -
  let ?s1 = "s\<lparr>ysBroker := poll_tick (ysBroker s)\<rparr>"
  let ?b2 = "poll_read (ysStore s) (brCursor (ysBroker s)) (poll_tick (ysBroker s))"
  let ?s2 = "?s1\<lparr>ysBroker := ?b2\<rparr>"
  have r1: "sse_reachable m ?s1" by (rule sse_reachable_step [OF assms(1) sse_tick [OF assms(2)]])
  have p1: "brPoll (ysBroker ?s1) = PollCursor (brCursor (ysBroker s))"
    using assms(3) by (simp add: poll_tick_def snapshotCursor_def)
  have r2: "sse_reachable m ?s2" using sse_reachable_step [OF r1 sse_read [OF p1]] by simp
  show ?thesis
  proof (cases "brPoll ?b2")
    case (PollEvents evs)
    then have "brPoll (ysBroker ?s2) = PollEvents evs" by simp
    from sse_reachable_step [OF r2 sse_deliver [OF this]] show ?thesis
      using PollEvents by (simp add: poll_round_def Let_def)
  qed (use r2 in \<open>simp_all add: poll_round_def Let_def\<close>)
qed

lemma fold_deliver_room:
  "length (subCh sub) + length evs \<le> subCap sub \<Longrightarrow> fold deliver evs sub = sub\<lparr>subCh := subCh sub @ evs\<rparr>"
  by (induction evs arbitrary: sub) (simp_all add: deliver_def)

text \<open>One client of a fresh broker, after its connection, one poll and one receive.\<close>

lemma first_poll:
  assumes "sse_reachable m s" and ok: "store_ok (ysStore s)" and log: "streamEvents (ysStore s) \<noteq> []"
    and conn: "ysConn s 0 = Some c" "cnPhase c = Live"
    and b: "ysBroker s = (NewBroker 0 sseBatchSize (int brokerDefaultBufSize))\<lparr>brSubs := {0}, brHeap := [0 \<mapsto>
        \<lparr>subCh = [], subCap = brokerDefaultBufSize, subClosed = False, subDropped = 0\<rparr>], brNext := 1\<rparr>"
  shows "\<exists>s'. sse_reachable m s' \<and> ysStore s' = ysStore s \<and>
    ysConn s' 0 = Some (live_event (hd (streamEvents (ysStore s))) c) \<and>
    (\<exists>sub. brHeap (ysBroker s') 0 = Some sub \<and> subDropped sub = 0)"
proof -
  let ?L = "streamEvents (ysStore s)"
  let ?evs = "take 50 ?L"
  have evs: "?evs = hd ?L # tl ?evs" using log by (cases ?L) simp_all
  let ?s1 = "poll_round s"
  have read: "ReadEvents (ysStore s) ''0'' 50 = Inr ?evs"
    using ok by (simp add: ReadEvents_window)
  have "sse_reachable m ?s1"
    by (rule poll_round_reachable [OF assms(1)]) (simp_all add: b NewBroker_def)
  let ?sub = "\<lparr>subCh = ?evs, subCap = brokerDefaultBufSize, subClosed = False, subDropped = 0\<rparr>"
  have "fold deliver ?evs \<lparr>subCh = [], subCap = brokerDefaultBufSize, subClosed = False, subDropped = 0\<rparr> = ?sub"
    by (subst fold_deliver_room) (simp_all add: brokerDefaultBufSize_def)
  then have heap: "brHeap (ysBroker ?s1) 0 = Some ?sub" and conn1: "ysConn ?s1 0 = Some c" and st: "ysStore ?s1 = ysStore s"
    using read log conn(1)
    by (simp_all add: poll_round_def Let_def b NewBroker_def poll_tick_def poll_read_def snapshotCursor_def
        sseBatchSize_def poll_deliver_def fan_out_heap)
  have recv: "recv_sub ?sub = Received (hd ?L) (?sub\<lparr>subCh := tl ?evs\<rparr>)"
    by (subst evs) (simp add: recv_sub_def)
  show ?thesis
    using sse_reachable_step [OF \<open>sse_reachable m ?s1\<close> sse_receive [OF conn1 conn(2) heap recv]] st by force
qed

lemma fresh_connect:
  assumes "valid_cursor m q \<or> q = ''''"
  shows "sse_reachable m (sse_init m 0
    \<lparr>ysBroker := (NewBroker 0 sseBatchSize (int brokerDefaultBufSize))\<lparr>brSubs := {0}, brHeap := [0 \<mapsto>
        \<lparr>subCh = [], subCap = brokerDefaultBufSize, subClosed = False, subDropped = 0\<rparr>], brNext := 1\<rparr>,
     ysConn := [0 \<mapsto> handleSSE_begin q ''0'']\<rparr>)"
proof -
  have "Subscribe (ysBroker (sse_init m 0)) = ((0, ''0''), (NewBroker 0 sseBatchSize (int brokerDefaultBufSize))
      \<lparr>brSubs := {0}, brHeap := [0 \<mapsto>
        \<lparr>subCh = [], subCap = brokerDefaultBufSize, subClosed = False, subDropped = 0\<rparr>], brNext := 1\<rparr>)"
    by (simp add: Subscribe_def Let_def sse_init_def NewBroker_def brokerDefaultBufSize_def)
  from sse_reachable_step [OF sse_reachable_init sse_connect [OF this, of q]] assms
  show ?thesis by (simp add: sse_init_def)
qed


lemma broker_channel_safety_witness:
  "brSubs (ysBroker (sse_init one_event_store 0)) =
     {i. \<exists>sub. brHeap (ysBroker (sse_init one_event_store 0)) i = Some sub \<and> \<not> subClosed sub}"
  using broker_channel_safety [OF one_event_store_ok sse_reachable_init] by blast

text \<open>
  The case \<open>unguarded\<close> is real: after a restart (a fresh broker over a store that kept its log), a
  client that resumes with the last event's cursor, having seen the whole log, can be sent the
  log's first event again.
\<close>

theorem resume_after_restart_duplicates:
  assumes "store_ok m" and "streamEvents m \<noteq> []"
  shows "\<exists>s c. sse_reachable m s \<and> ysStore s = m \<and> ysConn s 0 = Some c \<and>
    cnSince c = seID (last (streamEvents m)) \<and>
    cursor_pos m (cnSince c) = length (streamEvents m) \<and> cnOut c = [hd (streamEvents m)]"
proof -
  let ?L = "streamEvents m" and ?q = "seID (last (streamEvents m))"
  let ?c = "handleSSE_begin ?q ''0''" and ?k = "length (streamEvents m) - 1"
  have k: "?k < length ?L" and last: "last ?L = ?L ! ?k" using assms(2) by (simp_all add: last_conv_nth)
  have pos: "cursor_pos m ?q = length ?L" using cursor_pos_id [of m ?k] assms k last by simp
  have valid: "valid_cursor m ?q" using assms(2) by (simp add: valid_cursor_def)
  have q: "?q \<noteq> ''0''" "?q \<noteq> ''''"
    using stream_id_nth [of m ?k] assms k by (simp_all add: last) (simp add: mock_id_def)
  have c: "?c = \<lparr>cnSince = ?q, cnCut = ''0'', cnFoundCut = False, cnCursor = ?q,
      cnLastBackfilled = ?q, cnGating = False, cnGateID = ?q, cnPhase = Backfill, cnOut = []\<rparr>"
    using q by (simp add: handleSSE_begin_def Let_def)
  let ?s1 = "sse_init m 0
    \<lparr>ysBroker := (NewBroker 0 sseBatchSize (int brokerDefaultBufSize))\<lparr>brSubs := {0}, brHeap := [0 \<mapsto>
        \<lparr>subCh = [], subCap = brokerDefaultBufSize, subClosed = False, subDropped = 0\<rparr>], brNext := 1\<rparr>,
     ysConn := [0 \<mapsto> ?c]\<rparr>"
  have r1: "sse_reachable m ?s1" by (rule fresh_connect) (simp add: valid)
  let ?d = "backfill_turn m ?c"
  have d: "?d = arm_gate ?c"
    using assms(1) pos by (simp add: backfill_turn_def ReadEvents_window c)
  have "sse_step ?s1 (?s1\<lparr>ysConn := (ysConn ?s1)(0 \<mapsto> backfill_turn (ysStore ?s1) ?c)\<rparr>)"
    by (rule sse_backfill) (simp_all add: c)
  from sse_reachable_step [OF r1 this] have r2: "sse_reachable m (?s1\<lparr>ysConn := [0 \<mapsto> ?d]\<rparr>)"
    by (simp add: sse_init_def)
  obtain s where s: "sse_reachable m s" "ysStore s = m" "ysConn s 0 = Some (live_event (hd ?L) ?d)"
    using first_poll [OF r2, of ?d] assms d by (auto simp: sse_init_def)
  have "cnOut (live_event (hd ?L) ?d) = [hd ?L]" and "cnSince (live_event (hd ?L) ?d) = ?q"
    unfolding d by (simp_all add: c live_event_def)
  then show ?thesis using s pos by (intro exI [of _ s] exI [of _ "live_event (hd ?L) ?d"]) simp
qed

lemma resume_after_restart_duplicates_witness:
  "\<exists>s c. sse_reachable one_event_store s \<and> ysConn s 0 = Some c \<and> cnOut c = streamEvents one_event_store \<and>
     cursor_pos one_event_store (cnSince c) = 1"
  using resume_after_restart_duplicates [OF one_event_store_ok] by (auto simp: one_event_store_sel)

end
