(* ===== verification/Bridge.thy ===== *)
theory Bridge
  imports Supervisor_Tasks Dag_Executor Terminal Broker
begin

section \<open>internal/httpbridge: the HTTP API\<close>

text \<open>
  The handlers of \<open>Bridge\<close> (bridge.go, handlers.go) over the supervisor and its store, the DAG engine
  and the tmux substrate. A handler takes the parts of the request it reads (the decoded body, None
  if it cannot be decoded) and returns the status, the body and the bridge. The bridge's own tables
  (names, providers, floors) live next to the components; the supervisor's record holds the store and
  the completion registry all of them share, as \<open>main\<close> wires them. An agent spawner is a parameter
  that may change the supervisor (it registers the agent) and answers with an identifier or an error.
\<close>

subsection \<open>Responses\<close>

text \<open>An error text is fixed, or that of a Go error.\<close>

datatype ErrText = Text string | ErrorOf goerror

record AgentJSON =
  ajID :: string
  ajName :: string
  ajProvider :: string
  ajState :: string
  ajCurrentTaskID :: string
  ajLastHeartbeat :: int
  ajRegisteredAt :: int
  ajFloor :: int

record ProviderJSON =
  pjKind :: string
  pjDisplay :: string
  pjAccent :: string

record FloorJSON =
  fjName :: string
  fjAgentCount :: int

record SpawnAgentResponse =
  spAgentID :: string
  spKind :: string
  spName :: string
  spTier :: string
  spFloor :: int
  spWorkdir :: string

datatype Body = NoBody | ErrorResponse ErrText string | AgentsBody "AgentJSON list" "string list"
  | OutputBody string | FloorsBody "FloorJSON list" | ProvidersBody "ProviderJSON list"
  | TaskBody string | DagBody string | CancelledBody string string
  | RequeuedBody string string string string | DespawnedBody string | SpawnedBody SpawnAgentResponse

type_synonym response = "int \<times> Body"

definition writeError :: "goerror \<Rightarrow> response" where
  "writeError err =
     (if errors_Is err ErrAgentNotFound then (404, ErrorResponse (Text ''agent not found'') ''not_found'')
      else if errors_Is err ErrQueueEmpty then (404, ErrorResponse (Text ''queue empty'') ''not_found'')
      else if errors_Is err ErrSupervisorStopped then (503, ErrorResponse (Text ''supervisor stopped'') ''unavailable'')
      else if errors_Is err ErrInvalidAgentID then (400, ErrorResponse (ErrorOf err) ''invalid_argument'')
      else if errors_Is err ErrSessionNotFound then (404, ErrorResponse (Text ''session not found'') ''not_found'')
      else if errors_Is err ErrInvalidCommand then (400, ErrorResponse (Text ''invalid command'') ''invalid_argument'')
      else if as_InvalidTransition err \<noteq> None then (409, ErrorResponse (ErrorOf err) ''failed_precondition'')
      else if errors_Is err ErrEmptyDAG \<or> errors_Is err ErrCycleDetected \<or> errors_Is err ErrNodeNotFound \<or>
              errors_Is err ErrDuplicateNode \<or> errors_Is err ErrMissingTaskSpec
      then (400, ErrorResponse (ErrorOf err) ''invalid_argument'')
      else (500, ErrorResponse (Text ''internal error'') ''internal''))"

subsection \<open>State\<close>

type_synonym AgentSpawner =
  "string \<Rightarrow> string \<Rightarrow> string \<Rightarrow> string \<Rightarrow> Supervisor \<Rightarrow> (goerror + string) \<times> Supervisor"

text \<open>
  \<open>brSupervised\<close>, \<open>brRegistry\<close> and \<open>brRestart\<close> say whether \<open>WithSupervisor\<close>, \<open>WithCompletionRegistry\<close>
  and \<open>WithRestartFunc\<close> were given;
  \<open>brTmux\<close> is the substrate (with the table of printable runes), \<open>brCalls\<close> what was asked of tmux.
\<close>

record Bridge =
  brSv :: Supervisor
  brDag :: "StatusTracker option"
  brTmux :: "(tmux \<times> (string \<Rightarrow> bool)) option"
  brCalls :: "string list list"
  apiKey :: string
  brRegistry :: bool
  brSpawner :: "AgentSpawner option"
  brSupervised :: bool
  brNames :: "string \<rightharpoonup> string"
  brProviders :: "string \<rightharpoonup> string"
  brFloors :: "string \<rightharpoonup> int"
  brRestart :: bool
  brokerInterval :: duration
  reservationCounter :: int
  spawnCounter :: int

definition NewBridge :: "Supervisor \<Rightarrow> StatusTracker option \<Rightarrow> (Bridge \<Rightarrow> Bridge) list \<Rightarrow> Bridge" where
  "NewBridge sv dag opts =
     foldl (\<lambda>b opt. opt b)
       \<lparr>brSv = sv, brDag = dag, brTmux = None, brCalls = [], apiKey = '''', brRegistry = False,
        brSpawner = None, brSupervised = False, brNames = Map.empty, brProviders = Map.empty,
        brFloors = Map.empty, brRestart = False, brokerInterval = 0,
        reservationCounter = 0, spawnCounter = 0\<rparr> opts"

text \<open>The broker \<open>NewBridge\<close> launches: its poll goroutine runs from here on.\<close>

definition NewBridge_broker :: "Bridge \<Rightarrow> Broker" where
  "NewBridge_broker b =
     NewBroker (if brokerInterval b \<le> 0 then ssePollInterval else brokerInterval b) sseBatchSize
       (int brokerDefaultBufSize)"

definition WithAPIKey :: "string \<Rightarrow> Bridge \<Rightarrow> Bridge" where
  "WithAPIKey key b = b\<lparr>apiKey := key\<rparr>"

definition WithBridgeSubstrate :: "tmux \<Rightarrow> (string \<Rightarrow> bool) \<Rightarrow> Bridge \<Rightarrow> Bridge" where
  "WithBridgeSubstrate env wide b = b\<lparr>brTmux := Some (env, wide)\<rparr>"

definition WithBridgeRegistry :: "Bridge \<Rightarrow> Bridge" where
  "WithBridgeRegistry b = b\<lparr>brRegistry := True\<rparr>"

definition WithAgentSpawner :: "AgentSpawner \<Rightarrow> Bridge \<Rightarrow> Bridge" where
  "WithAgentSpawner s b = b\<lparr>brSpawner := Some s\<rparr>"

definition WithSupervisor :: "Bridge \<Rightarrow> Bridge" where
  "WithSupervisor b = b\<lparr>brSupervised := True\<rparr>"

definition WithRestartFunc :: "Bridge \<Rightarrow> Bridge" where
  "WithRestartFunc b = b\<lparr>brRestart := True\<rparr>"

definition WithBrokerInterval :: "duration \<Rightarrow> Bridge \<Rightarrow> Bridge" where
  "WithBrokerInterval d b = b\<lparr>brokerInterval := d\<rparr>"

abbreviation brStore :: "Bridge \<Rightarrow> MockStore" where
  "brStore b \<equiv> store (brSv b)"

definition set_store :: "MockStore \<Rightarrow> Bridge \<Rightarrow> Bridge" where
  "set_store m b = b\<lparr>brSv := (brSv b)\<lparr>store := m\<rparr>\<rparr>"

subsection \<open>Names, providers and floors\<close>

definition setAgentName :: "string \<Rightarrow> string \<Rightarrow> Bridge \<Rightarrow> Bridge" where
  "setAgentName agentID name b =
     (if agentID = '''' \<or> name = '''' then b else b\<lparr>brNames := (brNames b)(agentID \<mapsto> name)\<rparr>)"

definition agentName :: "Bridge \<Rightarrow> string \<Rightarrow> string" where
  "agentName b agentID = (case brNames b agentID of None \<Rightarrow> '''' | Some n \<Rightarrow> n)"

definition setAgentProvider :: "string \<Rightarrow> string \<Rightarrow> Bridge \<Rightarrow> Bridge" where
  "setAgentProvider agentID provider b =
     (if agentID = '''' \<or> provider = '''' then b else b\<lparr>brProviders := (brProviders b)(agentID \<mapsto> provider)\<rparr>)"

definition agentProvider :: "Bridge \<Rightarrow> string \<Rightarrow> string" where
  "agentProvider b agentID = (case brProviders b agentID of None \<Rightarrow> '''' | Some p \<Rightarrow> p)"

definition floorCapacity :: int where
  "floorCapacity = 4"

definition groundFloor :: int where
  "groundFloor = 0"

definition setAgentFloor :: "string \<Rightarrow> int \<Rightarrow> Bridge \<Rightarrow> Bridge" where
  "setAgentFloor agentID flr b =
     (if agentID = '''' then b else b\<lparr>brFloors := (brFloors b)(agentID \<mapsto> flr)\<rparr>)"

definition agentFloor :: "Bridge \<Rightarrow> string \<Rightarrow> int" where
  "agentFloor b agentID = (case brFloors b agentID of None \<Rightarrow> 0 | Some f \<Rightarrow> f)"

text \<open>Counting ranges over the map, in any order.\<close>

definition floorAgentCount :: "string map_order \<Rightarrow> Bridge \<Rightarrow> int \<Rightarrow> int" where
  "floorAgentCount ord b flr =
     foldl (\<lambda>count k. if brFloors b k = Some flr then count + 1 else count) 0 (ord (dom (brFloors b)))"

definition reservationPrefix :: string where
  "reservationPrefix = CHR 0x00 # ''reservation:''"

definition reserveFloorSlot :: "string map_order \<Rightarrow> int \<Rightarrow> Bridge \<Rightarrow> string option \<times> Bridge" where
  "reserveFloorSlot ord flr b =
     (if floorAgentCount ord b flr \<ge> floorCapacity then (None, b)
      else
        let n = reservationCounter b + 1;
            token = reservationPrefix @ dec (nat n)
        in (Some token, b\<lparr>reservationCounter := n, brFloors := (brFloors b)(token \<mapsto> flr)\<rparr>))"

definition commitFloorReservation :: "string \<Rightarrow> string \<Rightarrow> int \<Rightarrow> Bridge \<Rightarrow> Bridge" where
  "commitFloorReservation token agentID flr b =
     (if agentID = '''' then b\<lparr>brFloors := (brFloors b)(token := None)\<rparr>
      else b\<lparr>brFloors := ((brFloors b)(token := None))(agentID \<mapsto> flr)\<rparr>)"

definition releaseFloorReservation :: "string \<Rightarrow> Bridge \<Rightarrow> Bridge" where
  "releaseFloorReservation token b = b\<lparr>brFloors := (brFloors b)(token := None)\<rparr>"

definition highest_floor :: "string map_order \<Rightarrow> Bridge \<Rightarrow> int" where
  "highest_floor ord b =
     foldl (\<lambda>highest k. case brFloors b k of None \<Rightarrow> highest | Some f \<Rightarrow> if f > highest then f else highest)
       groundFloor (ord (dom (brFloors b)))"

definition reserveNextAvailableFloor :: "string map_order \<Rightarrow> Bridge \<Rightarrow> int \<times> string \<times> Bridge" where
  "reserveNextAvailableFloor ord b =
     (let highest = highest_floor ord b;
          flr = (case find (\<lambda>f. floorAgentCount ord b f < floorCapacity) [1..highest] of
                   None \<Rightarrow> highest + 1 | Some f \<Rightarrow> f);
          n = reservationCounter b + 1;
          token = reservationPrefix @ dec (nat n)
      in (flr, token, b\<lparr>reservationCounter := n, brFloors := (brFloors b)(token \<mapsto> flr)\<rparr>))"

subsection \<open>Reading\<close>

definition handleListAgents :: "string map_order \<Rightarrow> Bridge \<Rightarrow> response" where
  "handleListAgents ord b =
     (case ListAgents ord (brStore b) of
        Inl err \<Rightarrow> writeError err
      | Inr ids \<Rightarrow>
          let (ags, warnings) =
            foldl (\<lambda>(ags, warnings) i.
              case GetAgentFields (brStore b) i of
                Inl _ \<Rightarrow> (ags, warnings @ [''failed to load agent '' @ i])
              | Inr flds \<Rightarrow>
                  (ags @ [\<lparr>ajID = i, ajName = agentName b i, ajProvider = agentProvider b i,
                           ajState = fState flds, ajCurrentTaskID = fCurrentTaskID flds,
                           ajLastHeartbeat = fLastHeartbeat flds, ajRegisteredAt = fRegisteredAt flds,
                           ajFloor = agentFloor b i\<rparr>], warnings)) ([], []) ids
          in (200, AgentsBody ags warnings))"

definition not_implemented :: "string \<Rightarrow> response" where
  "not_implemented what = (501, ErrorResponse (Text what) ''not_implemented'')"

definition bad_request :: "string \<Rightarrow> response" where
  "bad_request what = (400, ErrorResponse (Text what) ''invalid_argument'')"

definition output_lines :: "string \<Rightarrow> int" where
  "output_lines linesParam =
     (if linesParam = '''' then 50
      else
        let n = (case Atoi linesParam of (n, None) \<Rightarrow> if n > 0 then n else 50 | (n, Some _) \<Rightarrow> 50)
        in if n > 1000 then 1000 else n)"

definition handleAgentOutput :: "string \<Rightarrow> string \<Rightarrow> string \<Rightarrow> Bridge \<Rightarrow> response \<times> Bridge" where
  "handleAgentOutput agentID linesParam screenParam b =
     (case brTmux b of
        None \<Rightarrow> (not_implemented ''terminal substrate not available'', b)
      | Some (env, wide) \<Rightarrow>
          let session = ''agent-'' @ agentID;
              (res, calls) =
                (if screenParam = ''1'' \<or> screenParam = ''true''
                 then tmux_CaptureScreen env session (brCalls b)
                 else tmux_CaptureOutput env session (output_lines linesParam) (brCalls b))
          in ((case res of Inl err \<Rightarrow> writeError err | Inr out \<Rightarrow> (200, OutputBody out)), b\<lparr>brCalls := calls\<rparr>))"

definition handleListFloors :: "Bridge \<Rightarrow> response \<times> Bridge" where
  "handleListFloors b =
     (case brTmux b of
        None \<Rightarrow> ((200, FloorsBody []), b)
      | Some (env, wide) \<Rightarrow>
          let (res, calls) = tmux_ListSessions env (brCalls b)
          in ((case res of
                 Inl err \<Rightarrow> writeError err
               | Inr sessions \<Rightarrow>
                   (200, FloorsBody (map (\<lambda>s. \<lparr>fjName = sName s, fjAgentCount = sWindowCount s\<rparr>)
                      (filter (\<lambda>s. \<not> isAgentSession (sName s)) sessions)))), b\<lparr>brCalls := calls\<rparr>))"

definition providerRoster :: "ProviderJSON list" where
  "providerRoster =
     [\<lparr>pjKind = ''sim'', pjDisplay = ''Simulacrum'', pjAccent = ''#8892b0''\<rparr>,
      \<lparr>pjKind = ''claude'', pjDisplay = ''Claude'', pjAccent = ''#cc785c''\<rparr>,
      \<lparr>pjKind = ''codex'', pjDisplay = ''Codex'', pjAccent = ''#10a37f''\<rparr>,
      \<lparr>pjKind = ''opencode'', pjDisplay = ''OpenCode'', pjAccent = ''#4f8cff''\<rparr>,
      \<lparr>pjKind = ''pi'', pjDisplay = ''Pi'', pjAccent = ''#b967ff''\<rparr>]"

definition handleListProviders :: response where
  "handleListProviders = (200, ProvidersBody providerRoster)"

subsection \<open>Submitting\<close>

record SubmitTaskRequest =
  sqTaskID :: string
  sqPriority :: rat
  sqDescription :: string
  sqProject :: string
  sqFloorName :: string

text \<open>\<open>uuid\<close> is what \<open>uuid.New\<close> returns, should it be asked.\<close>

definition handleSubmitTask :: "string \<Rightarrow> SubmitTaskRequest option \<Rightarrow> Bridge \<Rightarrow> response \<times> Bridge" where
  "handleSubmitTask uuid body b =
     (case body of
        None \<Rightarrow> (bad_request ''invalid request body'', b)
      | Some req \<Rightarrow>
          let taskID = TrimSpace (sqTaskID req);
              description = TrimSpace (sqDescription req)
          in if taskID = '''' \<and> description = '''' then (bad_request ''description is required'', b)
             else
               let taskID = (if taskID = '''' then uuid else taskID);
                   meta = \<lparr>mDescription = description, mProject = TrimSpace (sqProject req),
                           mFloor = TrimSpace (sqFloorName req), mTier = '''', mProvider = ''''\<rparr>
               in (case EnqueueTaskWithMeta taskID (sqPriority req) meta (brStore b) of
                     Inl err \<Rightarrow> (writeError err, b)
                   | Inr m \<Rightarrow> ((201, TaskBody taskID), set_store m b)))"

record DAGNodeJSON =
  njNodeID :: string
  njTaskID :: string
  njPriority :: rat
  njDescription :: string

record SubmitDAGRequest =
  drNodes :: "DAGNodeJSON list"
  drEdges :: "(string \<times> string) list"

text \<open>The specification built from a request; \<open>uuids\<close> are the identifiers made up for nodes without one.\<close>

definition dag_node :: "string \<Rightarrow> DAGNodeJSON \<Rightarrow> DAGNode" where
  "dag_node uuid n =
     (let taskID = TrimSpace (njTaskID n);
          taskID = (if taskID = '''' then uuid else taskID)
      in \<lparr>dnNodeId = njNodeID n,
          dnTask = Some \<lparr>tsTaskId = taskID, tsPrompt = njDescription n, tsModelTier = '''',
                         tsPriority = njPriority n, tsMetadata = Map.empty\<rparr>,
          dnDependsOn = []\<rparr>)"

definition dag_spec :: "(nat \<Rightarrow> string) \<Rightarrow> SubmitDAGRequest \<Rightarrow> DAGSpec" where
  "dag_spec uuids req =
     \<lparr>dsDagId = '''',
      dsNodes = map (\<lambda>(i, n). dag_node (uuids i) n) (enumerate 0 (drNodes req)),
      dsEdges = map (\<lambda>(from, to). \<lparr>deFromNode = from, deToNode = to\<rparr>) (drEdges req)\<rparr>"

text \<open>The run of an accepted graph starts with the levels; it continues as in the executor.\<close>

definition handleSubmitDAG ::
  "string map_order \<Rightarrow> (nat \<Rightarrow> string) \<Rightarrow> string \<Rightarrow> gtime \<Rightarrow> SubmitDAGRequest option \<Rightarrow> Bridge \<Rightarrow>
   response \<times> (string list list \<times> Run) option \<times> Bridge" where
  "handleSubmitDAG ord uuids execID now body b =
     (case brDag b of
        None \<Rightarrow> (not_implemented ''DAG engine not available'', None, b)
      | Some tracker \<Rightarrow>
        (case body of
           None \<Rightarrow> (bad_request ''invalid request body'', None, b)
         | Some req \<Rightarrow>
           (case Execute ord execID now (Some (dag_spec uuids req)) tracker of
              Inl err \<Rightarrow> (writeError err, None, b)
            | Inr (levels, started) \<Rightarrow>
                ((201, DagBody execID), Some (levels, started), b\<lparr>brDag := Some (rTracker started)\<rparr>))))"

subsection \<open>Driving an agent\<close>

record SendInputRequest =
  siKeys :: string
  siInput :: string
  siKey :: string

definition input_Text :: "SendInputRequest \<Rightarrow> string" where
  "input_Text r = (if siInput r \<noteq> '''' then siInput r else siKeys r)"

definition handleSendInput :: "string \<Rightarrow> SendInputRequest option \<Rightarrow> Bridge \<Rightarrow> response \<times> Bridge" where
  "handleSendInput agentID body b =
     (case brTmux b of
        None \<Rightarrow> (not_implemented ''terminal substrate not available'', b)
      | Some (env, wide) \<Rightarrow>
        (case body of
           None \<Rightarrow> (bad_request ''invalid request body'', b)
         | Some req \<Rightarrow>
             let text = input_Text req
             in if siKey req \<noteq> '''' \<and> text \<noteq> '''' then (bad_request ''key and input are mutually exclusive'', b)
                else if siKey req \<noteq> '''' then
                  (case ValidateKeyName wide (siKey req) of
                     Some err \<Rightarrow> ((400, ErrorResponse (ErrorOf err) ''invalid_argument''), b)
                   | None \<Rightarrow>
                       let (res, calls) = tmux_SendKey env wide (''agent-'' @ agentID) (siKey req) (brCalls b)
                       in ((case res of Some err \<Rightarrow> writeError err | None \<Rightarrow> (204, NoBody)), b\<lparr>brCalls := calls\<rparr>))
                else if text = '''' then (bad_request ''input or key is required'', b)
                else
                  let (res, calls) = tmux_SendCommand env (''agent-'' @ agentID) text (brCalls b)
                  in ((case res of Some err \<Rightarrow> writeError err | None \<Rightarrow> (204, NoBody)), b\<lparr>brCalls := calls\<rparr>)))"

text \<open>The best-effort interrupt: its error is logged only.\<close>

definition interrupt :: "string \<Rightarrow> Bridge \<Rightarrow> Bridge" where
  "interrupt agentID b =
     (case brTmux b of
        None \<Rightarrow> b
      | Some (env, wide) \<Rightarrow> b\<lparr>brCalls := snd (tmux_SendCommand env (''agent-'' @ agentID) [etx] (brCalls b))\<rparr>)"

definition settleToIdle :: "string \<Rightarrow> string \<Rightarrow> Bridge \<Rightarrow> response option \<times> Bridge" where
  "settleToIdle agentID prevState b =
     (case CompareAndSetAgentState agentID prevState AgentStateIdle (brStore b) of
        Inr m \<Rightarrow> (None, set_store m b)
      | Inl err \<Rightarrow>
          if as_StateConflict err = None then (Some (writeError err), b)
          else if GetAgentState (brStore b) agentID = Inr AgentStateIdle then (None, b)
          else (Some (409, ErrorResponse (Text ''agent state changed concurrently; retry'') ''aborted''), b))"

definition bridge_publish :: "gtime \<Rightarrow> string \<Rightarrow> string \<Rightarrow> string \<Rightarrow> Bridge \<Rightarrow> Bridge" where
  "bridge_publish now ty agentID taskID b =
     b\<lparr>brSv := publish now \<lparr>eType = ty, eAgentID = agentID, eTaskID = taskID, eTimestamp = 0, ePayload = ''''\<rparr> (brSv b)\<rparr>"

definition signal_done :: "gtime \<Rightarrow> string \<Rightarrow> Bridge \<Rightarrow> Bridge" where
  "signal_done now taskID b =
     (if brRegistry b
      then b\<lparr>brSv := (brSv b)\<lparr>completionRegistry := map_option (Complete now taskID) (completionRegistry (brSv b))\<rparr>\<rparr>
      else b)"

definition no_active_task :: response where
  "no_active_task = (409, ErrorResponse (Text ''agent has no active task'') ''failed_precondition'')"

definition handleCancelAgent :: "gtime \<Rightarrow> string \<Rightarrow> Bridge \<Rightarrow> response \<times> Bridge" where
  "handleCancelAgent now agentID b =
     (case GetAgentFields (brStore b) agentID of
        Inl err \<Rightarrow> (writeError err, b)
      | Inr flds \<Rightarrow>
          if fCurrentTaskID flds = '''' then (no_active_task, b)
          else
            let taskID = fCurrentTaskID flds;
                b1 = interrupt agentID b
            in (case ClearCurrentTask agentID (brStore b1) of
                  Inl err \<Rightarrow> (writeError err, b1)
                | Inr m \<Rightarrow>
                    let (aborted, b2) = (if fState flds \<noteq> AgentStateIdle
                                         then settleToIdle agentID (fState flds) (set_store m b1)
                                         else (None, set_store m b1))
                    in (case aborted of
                          Some resp \<Rightarrow> (resp, b2)
                        | None \<Rightarrow>
                            ((200, CancelledBody agentID taskID),
                             signal_done now taskID (bridge_publish now ''task_cancelled'' agentID taskID b2)))))"

record ReassignAgentRequest =
  raTier :: string
  raProvider :: string

definition handleReassignAgent ::
  "gtime \<Rightarrow> string \<Rightarrow> ReassignAgentRequest option \<Rightarrow> Bridge \<Rightarrow> response \<times> Bridge" where
  "handleReassignAgent now agentID body b =
     (case GetAgentFields (brStore b) agentID of
        Inl err \<Rightarrow> (writeError err, b)
      | Inr flds \<Rightarrow>
          if fCurrentTaskID flds = '''' then (no_active_task, b)
          else (case body of
             None \<Rightarrow> (bad_request ''invalid request body'', b)
           | Some req \<Rightarrow>
               let tier = TrimSpace (raTier req); provider = TrimSpace (raProvider req)
               in if tier = '''' \<and> provider = '''' then (bad_request ''tier or provider is required'', b)
                  else
                    let taskID = fCurrentTaskID flds
                    in (case GetTaskMeta (brStore b) taskID of
                          Inl err \<Rightarrow> (writeError err, b)
                        | Inr existing \<Rightarrow>
                            let b1 = interrupt agentID b;
                                meta = existing\<lparr>mTier := tier, mProvider := provider\<rparr>
                            in (case EnqueueTaskWithMeta taskID (fCurrentTaskPriority flds) meta (brStore b1) of
                                  Inl err \<Rightarrow> (writeError err, b1)
                                | Inr m1 \<Rightarrow>
                                    let b2 = set_store m1 b1
                                    in (case ClearCurrentTask agentID (brStore b2) of
                                          Inl err \<Rightarrow> (writeError err, b2)
                                        | Inr m2 \<Rightarrow>
                                            let (aborted, b3) =
                                              (if fState flds \<noteq> AgentStateIdle
                                               then settleToIdle agentID (fState flds) (set_store m2 b2)
                                               else (None, set_store m2 b2))
                                            in (case aborted of
                                                  Some resp \<Rightarrow> (resp, b3)
                                                | None \<Rightarrow>
                                                    ((200, RequeuedBody agentID taskID tier provider),
                                                     bridge_publish now ''task_cancelled'' agentID taskID b3)))))))"

text \<open>The two steps of \<open>handleDespawnAgent\<close> that only log their errors.\<close>

definition drop_task :: "gtime \<Rightarrow> string \<Rightarrow> string \<Rightarrow> Bridge \<Rightarrow> Bridge" where
  "drop_task now agentID taskID b =
     (let b1 = interrupt agentID b;
          b2 = set_store (state_after (brStore b1) (ClearCurrentTask agentID (brStore b1))) b1
      in signal_done now taskID b2)"

definition remove_everywhere :: "gtime \<Rightarrow> string \<Rightarrow> Bridge \<Rightarrow> Bridge" where
  "remove_everywhere now agentID b =
     (let b1 = (if brSupervised b then b\<lparr>brSv := RemoveAgent now agentID (brSv b)\<rparr> else b);
          b2 = set_store (state_after (brStore b1) (DeleteAgent agentID (brStore b1))) b1
      in b2\<lparr>brNames := (brNames b2)(agentID := None), brProviders := (brProviders b2)(agentID := None),
            brFloors := (brFloors b2)(agentID := None)\<rparr>)"

definition handleDespawnAgent :: "gtime \<Rightarrow> string \<Rightarrow> Bridge \<Rightarrow> response \<times> Bridge" where
  "handleDespawnAgent now agentID b =
     (case GetAgentFields (brStore b) agentID of
        Inl err \<Rightarrow> (writeError err, b)
      | Inr flds \<Rightarrow>
          let b1 = (if fCurrentTaskID flds \<noteq> '''' then drop_task now agentID (fCurrentTaskID flds) b else b);
              b2 = remove_everywhere now agentID b1
          in ((200, DespawnedBody agentID), bridge_publish now ''agent_deregistered'' agentID '''' b2))"

definition restartDelay :: duration where
  "restartDelay = 200 * Millisecond"

text \<open>The response is sent before the restart, which is scheduled after the delay if one was wired.\<close>

definition handleRestartAdmin :: "Bridge \<Rightarrow> response \<times> duration option" where
  "handleRestartAdmin b = ((202, NoBody), if brRestart b then Some restartDelay else None)"

subsection \<open>Spawning\<close>

record SpawnAgentRequest =
  srKind :: string
  srName :: string
  srTier :: string
  srFloor :: "int option"
  srWorkdir :: string

definition spawnNames :: "string list" where
  "spawnNames = [''Emberwick'', ''Thornquill'', ''Moonshard'', ''Grimtome'', ''Silverbough'',
     ''Ashveil'', ''Runeholt'', ''Duskmantle'', ''Brightforge'', ''Stormvellum'']"

text \<open>A request with its defaults filled in, and the slot reserved for it.\<close>

record SpawnPlan =
  plKind :: string
  plName :: string
  plTier :: string
  plWorkdir :: string
  plFloor :: int
  plToken :: string

definition spawn_defaults :: "int \<Rightarrow> SpawnAgentRequest \<Rightarrow> SpawnAgentRequest" where
  "spawn_defaults n req =
     (let req1 = (if srKind req = '''' then req\<lparr>srKind := ''sim''\<rparr> else req);
          req2 = (if srName req1 = '''' then req1\<lparr>srName := spawnNames ! nat ((n - 1) mod int (length spawnNames))\<rparr>
                  else req1)
      in if srTier req2 \<in> {''haiku'', ''sonnet'', ''opus''} then req2
         else req2\<lparr>srTier := [''haiku'', ''sonnet'', ''opus''] ! nat (n mod 3)\<rparr>)"

text \<open>Everything before the call of the spawner; \<open>is_dir\<close> is what \<open>os.Stat\<close> finds.\<close>

definition spawn_prepare ::
  "string map_order \<Rightarrow> (string \<Rightarrow> bool) \<Rightarrow> SpawnAgentRequest \<Rightarrow> Bridge \<Rightarrow> (response + SpawnPlan) \<times> Bridge" where
  "spawn_prepare ord is_dir req0 b0 =
     (let n = spawnCounter b0 + 1;
          b = b0\<lparr>spawnCounter := n\<rparr>
      in if srKind req0 \<notin> {'''', ''sim'', ''claude'', ''codex'', ''opencode'', ''pi''}
         then (Inl (bad_request ''kind must be one of: sim, claude, codex, opencode, pi''), b)
         else
           let req = spawn_defaults n req0
           in if srWorkdir req \<noteq> '''' \<and> \<not> HasPrefix (srWorkdir req) ''/''
              then (Inl (bad_request ''workdir must be an absolute path''), b)
              else if srWorkdir req \<noteq> '''' \<and> \<not> is_dir (srWorkdir req)
              then (Inl (bad_request ''workdir does not exist or is not a directory''), b)
              else (case srFloor req of
                 Some flr \<Rightarrow>
                   if flr \<le> groundFloor
                   then (Inl (bad_request ''floor 0 is reserved for the archmage and never accepts a spawn''), b)
                   else (case reserveFloorSlot ord flr b of
                           (None, b') \<Rightarrow> (Inl (409, ErrorResponse (Text ''floor is full'') ''floor_full''), b')
                         | (Some token, b') \<Rightarrow>
                             (Inr \<lparr>plKind = srKind req, plName = srName req, plTier = srTier req,
                                   plWorkdir = srWorkdir req, plFloor = flr, plToken = token\<rparr>, b'))
               | None \<Rightarrow>
                   let (flr, token, b') = reserveNextAvailableFloor ord b
                   in (Inr \<lparr>plKind = srKind req, plName = srName req, plTier = srTier req,
                            plWorkdir = srWorkdir req, plFloor = flr, plToken = token\<rparr>, b')))"

text \<open>Everything after it.\<close>

definition spawn_finish :: "SpawnPlan \<Rightarrow> goerror + string \<Rightarrow> Bridge \<Rightarrow> response \<times> Bridge" where
  "spawn_finish p res b =
     (case res of
        Inl err \<Rightarrow> ((502, ErrorResponse (ErrorOf err) ''spawn_failed''), releaseFloorReservation (plToken p) b)
      | Inr agentID \<Rightarrow>
          let b1 = setAgentName agentID (plName p) b;
              b2 = setAgentProvider agentID (plKind p) b1;
              b3 = commitFloorReservation (plToken p) agentID (plFloor p) b2
          in ((200, SpawnedBody \<lparr>spAgentID = agentID, spKind = plKind p, spName = plName p, spTier = plTier p,
                 spFloor = plFloor p, spWorkdir = plWorkdir p\<rparr>), b3))"

definition handleSpawnAgent ::
  "string map_order \<Rightarrow> (string \<Rightarrow> bool) \<Rightarrow> SpawnAgentRequest \<Rightarrow> Bridge \<Rightarrow> response \<times> Bridge" where
  "handleSpawnAgent ord is_dir req b =
     (case brSpawner b of
        None \<Rightarrow> (not_implemented ''agent spawner not available'', b)
      | Some spawner \<Rightarrow>
          (case spawn_prepare ord is_dir req b of
             (Inl resp, b1) \<Rightarrow> (resp, b1)
           | (Inr p, b1) \<Rightarrow>
               let (res, sv) = spawner (plKind p) (plName p) (plTier p) (plWorkdir p) (brSv b1)
               in spawn_finish p res (b1\<lparr>brSv := sv\<rparr>)))"

subsection \<open>What the pieces change\<close>

lemma set_store_simps [simp]:
  "brStore (set_store m b) = m" "brFloors (set_store m b) = brFloors b"
  "brNames (set_store m b) = brNames b" "brProviders (set_store m b) = brProviders b"
  "reservationCounter (set_store m b) = reservationCounter b" "brCalls (set_store m b) = brCalls b"
  "brRegistry (set_store m b) = brRegistry b" "brSupervised (set_store m b) = brSupervised b"
  "completionRegistry (brSv (set_store m b)) = completionRegistry (brSv b)"
  by (simp_all add: set_store_def)

lemma interrupt_id [simp]: "interrupt agentID b = b"
proof -
  have "snd (tmux_SendCommand env session [etx] calls) = calls" for env session calls
    using tmux_SendCommand_etx [of env session calls] by auto
  then show ?thesis by (simp add: interrupt_def split: option.split)
qed

lemma bridge_publish_simps [simp]:
  "agents (brStore (bridge_publish now ty a t b)) = agents (brStore b)"
  "queue (brStore (bridge_publish now ty a t b)) = queue (brStore b)"
  "taskMeta (brStore (bridge_publish now ty a t b)) = taskMeta (brStore b)"
  "completionRegistry (brSv (bridge_publish now ty a t b)) = completionRegistry (brSv b)"
  "brFloors (bridge_publish now ty a t b) = brFloors b" "brNames (bridge_publish now ty a t b) = brNames b"
  "brProviders (bridge_publish now ty a t b) = brProviders b"
  "reservationCounter (bridge_publish now ty a t b) = reservationCounter b"
  "brCalls (bridge_publish now ty a t b) = brCalls b" "brRegistry (bridge_publish now ty a t b) = brRegistry b"
  by (simp_all add: bridge_publish_def publish_def)

lemma signal_done_simps [simp]:
  "brStore (signal_done now t b) = brStore b" "brFloors (signal_done now t b) = brFloors b"
  "brNames (signal_done now t b) = brNames b" "brProviders (signal_done now t b) = brProviders b"
  "reservationCounter (signal_done now t b) = reservationCounter b" "brCalls (signal_done now t b) = brCalls b"
  "completionRegistry (brSv (signal_done now t b)) =
     (if brRegistry b then map_option (Complete now t) (completionRegistry (brSv b))
      else completionRegistry (brSv b))"
  by (simp_all add: signal_done_def)

lemma CompareAndSet_healthy:
  assumes "healthy m" and "agents m a = Some r" and "fState r = st"
  shows "CompareAndSetAgentState a st st' m = Inr (m\<lparr>agents := (agents m)(a \<mapsto> r\<lparr>fState := st'\<rparr>)\<rparr>)"
  using assms by (simp add: CompareAndSetAgentState_def healthy_def)

lemma detach_order [simp]:
  "r\<lparr>fCurrentTaskID := t, fCurrentTaskPriority := p, fState := st\<rparr> =
   r\<lparr>fState := st, fCurrentTaskID := t, fCurrentTaskPriority := p\<rparr>"
  by (cases r) simp

text \<open>Settling an agent whose state is the one read before.\<close>

lemma settled_to_idle:
  assumes "healthy m" and "agents m a = Some r" and "fState r = st"
  shows "(if st \<noteq> AgentStateIdle then settleToIdle a st (set_store m b) else (None, set_store m b)) =
    (None, set_store (m\<lparr>agents := (agents m)(a \<mapsto> r\<lparr>fState := AgentStateIdle\<rparr>)\<rparr>) b)"
proof (cases "st = AgentStateIdle")
  case True
  then have "(agents m)(a \<mapsto> r\<lparr>fState := AgentStateIdle\<rparr>) = agents m"
    using assms(2,3) by (cases r) (auto simp: fun_eq_iff)
  then show ?thesis using True by simp
next
  case False
  then show ?thesis using CompareAndSet_healthy [OF assms] by (simp add: settleToIdle_def set_store_def)
qed

subsection \<open>Cancelling and reassigning\<close>

lemma handleCancelAgent_active:
  assumes "healthy (brStore b)" and "agents (brStore b) a = Some r" and "fCurrentTaskID r \<noteq> ''''"
  shows "handleCancelAgent now a b = ((200, CancelledBody a (fCurrentTaskID r)),
    signal_done now (fCurrentTaskID r) (bridge_publish now ''task_cancelled'' a (fCurrentTaskID r)
      (set_store ((brStore b)\<lparr>agents := (agents (brStore b))(a \<mapsto> r\<lparr>fState := AgentStateIdle,
         fCurrentTaskID := '''', fCurrentTaskPriority := 0\<rparr>)\<rparr>) b)))"
proof -
  let ?r1 = "r\<lparr>fCurrentTaskID := '''', fCurrentTaskPriority := 0\<rparr>"
  let ?m = "(brStore b)\<lparr>agents := (agents (brStore b))(a \<mapsto> ?r1)\<rparr>"
  have clear: "ClearCurrentTask a (brStore b) = Inr ?m" using assms by (simp add: healthy_ops)
  have settle: "(if fState r \<noteq> AgentStateIdle then settleToIdle a (fState r) (set_store ?m b)
      else (None, set_store ?m b)) =
      (None, set_store (?m\<lparr>agents := (agents ?m)(a \<mapsto> ?r1\<lparr>fState := AgentStateIdle\<rparr>)\<rparr>) b)"
    by (rule settled_to_idle) (use assms(1) in simp_all)
  show ?thesis
    using assms(2,3) by (simp add: handleCancelAgent_def healthy_ops(1) [OF assms(1)] clear settle Let_def)
qed


definition demo_bridge :: "Supervisor \<Rightarrow> Bridge" where
  "demo_bridge sv = NewBridge sv (Some NewStatusTracker)
     [WithBridgeSubstrate (\<lambda>_ _. RunOk '''') (\<lambda>_. False), WithBridgeRegistry, WithSupervisor]"

lemma demo_bridge_simps [simp]:
  "brSv (demo_bridge sv) = sv" "brFloors (demo_bridge sv) = Map.empty" "brCalls (demo_bridge sv) = []"
  "reservationCounter (demo_bridge sv) = 0" "brDag (demo_bridge sv) = Some NewStatusTracker"
  "brRegistry (demo_bridge sv)" "brSupervised (demo_bridge sv)" "brNames (demo_bridge sv) = Map.empty"
  by (simp_all add: demo_bridge_def NewBridge_def WithBridgeSubstrate_def WithBridgeRegistry_def WithSupervisor_def)


lemma handleReassignAgent_active:
  assumes "healthy (brStore b)" and "agents (brStore b) a = Some r" and "fCurrentTaskID r \<noteq> ''''"
    and "TrimSpace (raTier req) \<noteq> '''' \<or> TrimSpace (raProvider req) \<noteq> ''''"
    and "GetTaskMeta (brStore b) (fCurrentTaskID r) = Inr meta"
  shows "handleReassignAgent now a (Some req) b =
    ((200, RequeuedBody a (fCurrentTaskID r) (TrimSpace (raTier req)) (TrimSpace (raProvider req))),
     bridge_publish now ''task_cancelled'' a (fCurrentTaskID r)
      (set_store ((brStore b)\<lparr>
         queue := requeue r (queue (brStore b)),
         taskMeta := (taskMeta (brStore b))(fCurrentTaskID r \<mapsto>
           meta\<lparr>mTier := TrimSpace (raTier req), mProvider := TrimSpace (raProvider req)\<rparr>),
         agents := (agents (brStore b))(a \<mapsto> r\<lparr>fState := AgentStateIdle, fCurrentTaskID := '''', fCurrentTaskPriority := 0\<rparr>)\<rparr>) b))"
proof -
  let ?meta = "meta\<lparr>mTier := TrimSpace (raTier req), mProvider := TrimSpace (raProvider req)\<rparr>"
  let ?r1 = "r\<lparr>fCurrentTaskID := '''', fCurrentTaskPriority := 0\<rparr>"
  let ?m1 = "(brStore b)\<lparr>queue := requeue r (queue (brStore b)),
      taskMeta := (taskMeta (brStore b))(fCurrentTaskID r \<mapsto> ?meta)\<rparr>"
  let ?m = "?m1\<lparr>agents := (agents (brStore b))(a \<mapsto> ?r1)\<rparr>"
  have "\<not> TaskMeta_IsZero ?meta" using assms(4) by (auto simp: TaskMeta_IsZero_def)
  then have enq: "EnqueueTaskWithMeta (fCurrentTaskID r) (fCurrentTaskPriority r) ?meta (brStore b) = Inr ?m1"
    using assms(1,3) by (simp add: EnqueueTaskWithMeta_def healthy_def requeue_def Let_def)
  have h: "healthy ?m1" using assms(1) by simp
  have clear: "ClearCurrentTask a ?m1 = Inr ?m" using assms(2) by (simp add: healthy_ops(4) [OF h])
  have settle: "(if fState r \<noteq> AgentStateIdle then settleToIdle a (fState r) (set_store ?m b')
      else (None, set_store ?m b')) =
      (None, set_store (?m\<lparr>agents := (agents ?m)(a \<mapsto> ?r1\<lparr>fState := AgentStateIdle\<rparr>)\<rparr>) b')" for b'
    by (rule settled_to_idle) (use assms(1) in simp_all)
  have blank: "\<not> (TrimSpace (raTier req) = '''' \<and> TrimSpace (raProvider req) = '''')" using assms(4) by blast
  have "handleReassignAgent now a (Some req) b =
    ((200, RequeuedBody a (fCurrentTaskID r) (TrimSpace (raTier req)) (TrimSpace (raProvider req))),
     bridge_publish now ''task_cancelled'' a (fCurrentTaskID r)
      (set_store (?m\<lparr>agents := (agents ?m)(a \<mapsto> ?r1\<lparr>fState := AgentStateIdle\<rparr>)\<rparr>) (set_store ?m1 b)))"
    unfolding handleReassignAgent_def Let_def interrupt_id healthy_ops(1) [OF assms(1)] assms(2,5)
      option.case sum.case if_not_P [OF assms(3)] if_not_P [OF blank] enq set_store_simps clear settle prod.case ..
  then show ?thesis by (simp add: set_store_def)
qed

text \<open>
  C28. Reassigning: 404 for an unknown agent, 409 for one without a task, 400 for a request with neither
  tier nor provider, each without any change. Otherwise the task goes back to the queue once, with
  its priority, its description, project and floor kept and the hint recorded; the agent is idle
  without a task, and nothing is signalled: no copy of the task is lost or completed.
\<close>

theorem handleReassignAgent_exact:
  assumes "healthy (brStore b)" and "handleReassignAgent now a (Some req) b = (resp, b')"
    and "tier = TrimSpace (raTier req)" and "provider = TrimSpace (raProvider req)"
  shows "(case agents (brStore b) a of
      None \<Rightarrow> fst resp = 404 \<and> b' = b
    | Some r \<Rightarrow>
        if fCurrentTaskID r = '''' then fst resp = 409 \<and> b' = b
        else if tier = '''' \<and> provider = '''' then fst resp = 400 \<and> b' = b
        else resp = (200, RequeuedBody a (fCurrentTaskID r) tier provider) \<and>
          agents (brStore b') = (agents (brStore b))(a \<mapsto> r\<lparr>fState := AgentStateIdle, fCurrentTaskID := '''',
            fCurrentTaskPriority := 0\<rparr>) \<and>
          queue_items (brStore b') =
            add_mset (fCurrentTaskID r, fCurrentTaskPriority r) (queue_items (brStore b)) \<and>
          GetTaskMeta (brStore b') (fCurrentTaskID r) =
            map_sum id (\<lambda>m. m\<lparr>mTier := tier, mProvider := provider\<rparr>) (GetTaskMeta (brStore b) (fCurrentTaskID r)) \<and>
          completionRegistry (brSv b') = completionRegistry (brSv b))"
proof (cases "agents (brStore b) a")
  case None
  then show ?thesis
    using assms by (auto simp: handleReassignAgent_def healthy_ops writeError_def)
next
  case (Some r)
  show ?thesis
  proof (cases "fCurrentTaskID r = '''' \<or> tier = '''' \<and> provider = ''''")
    case True
    then show ?thesis
      using assms Some by (auto simp: handleReassignAgent_def healthy_ops no_active_task_def bad_request_def)
  next
    case False
    obtain meta where m: "GetTaskMeta (brStore b) (fCurrentTaskID r) = Inr meta" by (simp add: GetTaskMeta_def)
    have "TrimSpace (raTier req) \<noteq> '''' \<or> TrimSpace (raProvider req) \<noteq> ''''" using False assms(3,4) by auto
    note active = handleReassignAgent_active [OF assms(1) Some _ this m, of now]
    show ?thesis
      using assms(2-4) Some False m
      by (auto simp: active queue_items_def requeue_def GetTaskMeta_def)
  qed
qed

lemma handleReassignAgent_exact_witness:
  "queue_items (brStore (snd (handleReassignAgent 5 ''a1'' (Some \<lparr>raTier = ''opus'', raProvider = ''''\<rparr>)
     (demo_bridge demo_busy)))) = {#(''t1'', 2), (''t9'', 4)#}"
proof -
  let ?req = "\<lparr>raTier = ''opus'', raProvider = ''''\<rparr>"
  obtain resp b' where r: "handleReassignAgent 5 ''a1'' (Some ?req) (demo_bridge demo_busy) = (resp, b')" by fastforce
  have "healthy (brStore (demo_bridge demo_busy))" using demo_busy_facts by simp
  from handleReassignAgent_exact [OF this r refl refl] show ?thesis
    using demo_busy_facts(3) r
    by (simp add: demo_agent_def TrimSpace_def is_space_def queue_items_def demo_busy_def demo_supervisor_def
        NewSupervisor_def)
qed

text \<open>
  C39. A crash leaves the task on the record of the crashed agent although the task is back in the queue.
  Until the agent works again, cancelling it therefore answers 200 and signals the task as
  completed while it is still queued, and reassigning it queues the task a second time.
\<close>

theorem crashed_agent_keeps_task:
  assumes "healthy (brStore b)" and "a \<in> agentMu (brSv b)" and "agents (brStore b) a = Some r"
    and "fState r \<in> agent_states" and "fState r \<noteq> StateIdle" and "fCurrentTaskID r \<noteq> ''''"
    and "brRegistry b" and "completionRegistry (brSv b) = Some reg"
    and "b1 = b\<lparr>brSv := crashAgent now a (brSv b)\<rparr>"
    and "TrimSpace (raTier req) \<noteq> ''''"
  shows "fst (fst (handleCancelAgent later a b1)) = 200 \<and>
    fCurrentTaskID r \<in> qTaskID ` set (queue (brStore (snd (handleCancelAgent later a b1)))) \<and>
    completionRegistry (brSv (snd (handleCancelAgent later a b1))) =
      map_option (Complete later (fCurrentTaskID r)) (completionRegistry (brSv b1)) \<and>
    fst (fst (handleReassignAgent later a (Some req) b1)) = 200 \<and>
    queue_items (brStore (snd (handleReassignAgent later a (Some req) b1))) =
      queue_items (brStore b) + {#(fCurrentTaskID r, fCurrentTaskPriority r), (fCurrentTaskID r, fCurrentTaskPriority r)#}"
proof -
  note crash = crashAgent_working [OF assms(1-5), of now]
  have h: "healthy (brStore b1)" and q: "queue (brStore b1) = requeue r (queue (brStore b))"
    and a: "agents (brStore b1) a = Some (r\<lparr>fState := StateIdle\<rparr>)"
    and reg: "brRegistry b1" using crash assms(7,9) by simp_all
  have t: "fCurrentTaskID (r\<lparr>fState := StateIdle\<rparr>) \<noteq> ''''" using assms(6) by simp
  obtain meta where m: "GetTaskMeta (brStore b1) (fCurrentTaskID (r\<lparr>fState := StateIdle\<rparr>)) = Inr meta"
    by (simp add: GetTaskMeta_def)
  have "TrimSpace (raTier req) \<noteq> '''' \<or> TrimSpace (raProvider req) \<noteq> ''''" using assms(10) by simp
  note reassign = handleReassignAgent_active [OF h a t this m, of later]
  note cancel = handleCancelAgent_active [OF h a t, of later]
  have "fst (fst (handleCancelAgent later a b1)) = 200 \<and>
      fCurrentTaskID r \<in> qTaskID ` set (queue (brStore (snd (handleCancelAgent later a b1)))) \<and>
      completionRegistry (brSv (snd (handleCancelAgent later a b1))) =
        map_option (Complete later (fCurrentTaskID r)) (completionRegistry (brSv b1))"
    using assms(6) reg unfolding cancel by (auto simp: q requeue_def)
  moreover have "fst (fst (handleReassignAgent later a (Some req) b1)) = 200 \<and>
      queue_items (brStore (snd (handleReassignAgent later a (Some req) b1))) =
      queue_items (brStore b) + {#(fCurrentTaskID r, fCurrentTaskPriority r), (fCurrentTaskID r, fCurrentTaskPriority r)#}"
    using assms(6) unfolding reassign by (simp add: q requeue_def queue_items_def)
  ultimately show ?thesis by simp
qed

lemma crashed_agent_keeps_task_witness:
  "(let b = (demo_bridge (demo_busy\<lparr>completionRegistry := Some (NewCompletionRegistry [])\<rparr>));
        b1 = b\<lparr>brSv := crashAgent 5 ''a1'' (brSv b)\<rparr>
    in queue_items (brStore (snd (handleReassignAgent 6 ''a1'' (Some \<lparr>raTier = ''opus'', raProvider = ''''\<rparr>) b1))) =
       {#(''t1'', 2), (''t1'', 2), (''t9'', 4)#})"
proof -
  let ?b = "demo_bridge (demo_busy\<lparr>completionRegistry := Some (NewCompletionRegistry [])\<rparr>)"
  have ok: "healthy (brStore ?b)" "''a1'' \<in> agentMu (brSv ?b)"
    "agents (brStore ?b) ''a1'' = Some (demo_agent StateWorking)"
    "fState (demo_agent StateWorking) \<in> agent_states" "fState (demo_agent StateWorking) \<noteq> StateIdle"
    "fCurrentTaskID (demo_agent StateWorking) \<noteq> ''''" "brRegistry ?b"
    "completionRegistry (brSv ?b) = Some (NewCompletionRegistry [])"
    using demo_busy_facts by (simp_all add: demo_agent_def)
  show ?thesis
    using crashed_agent_keeps_task [OF ok refl, of "\<lparr>raTier = ''opus'', raProvider = ''''\<rparr>" 6 5]
    by (simp add: demo_agent_def TrimSpace_def is_space_def queue_items_def demo_busy_def demo_supervisor_def
        NewSupervisor_def Let_def)
qed

subsection \<open>Submitting over HTTP\<close>

text \<open>
  A task submitted over HTTP is queued exactly if its identifier or its description is not blank:
  then the answer is 201 with the identifier, made up if the request has none, and the queue has
  that one task more, with the priority of the request and its metadata trimmed. A blank or
  undecodable request gets 400 and changes nothing.
\<close>

theorem handleSubmitTask_exact:
  assumes "healthy (brStore b)" and "handleSubmitTask uuid (Some req) b = (resp, b')"
    and "t = (if \<forall>c \<in> set (sqTaskID req). is_space c then uuid else TrimSpace (sqTaskID req))"
  shows "(if (\<forall>c \<in> set (sqTaskID req). is_space c) \<and> (\<forall>c \<in> set (sqDescription req). is_space c)
     then fst resp = 400 \<and> b' = b
     else resp = (201, TaskBody t) \<and>
       queue_items (brStore b') = add_mset (t, sqPriority req) (queue_items (brStore b)) \<and>
       agents (brStore b') = agents (brStore b) \<and>
       (\<not> (\<forall>c \<in> set (sqDescription req). is_space c) \<longrightarrow>
          GetTaskMeta (brStore b') t = Inr \<lparr>mDescription = TrimSpace (sqDescription req),
            mProject = TrimSpace (sqProject req), mFloor = TrimSpace (sqFloorName req), mTier = '''', mProvider = ''''\<rparr>))"
proof -
  have enq: "\<exists>m. EnqueueTaskWithMeta t p meta (brStore b) = Inr m \<and>
      queue_items m = add_mset (t, p) (queue_items (brStore b)) \<and> agents m = agents (brStore b) \<and>
      (mDescription meta \<noteq> '''' \<longrightarrow> GetTaskMeta m t = Inr meta)" for t p meta
    using assms(1)
    by (auto simp: EnqueueTaskWithMeta_def healthy_def queue_items_def GetTaskMeta_def Let_def TaskMeta_IsZero_def)
  show ?thesis
    using assms(2,3) enq [of t "sqPriority req" "\<lparr>mDescription = TrimSpace (sqDescription req),
      mProject = TrimSpace (sqProject req), mFloor = TrimSpace (sqFloorName req), mTier = '''', mProvider = ''''\<rparr>"]
    by (auto simp: handleSubmitTask_def TrimSpace_Nil_iff [symmetric] bad_request_def Let_def split: if_splits)
qed

lemma handleSubmitTask_exact_witness:
  "fst (handleSubmitTask ''u1'' (Some \<lparr>sqTaskID = '' '', sqPriority = 1, sqDescription = ''fix it '', sqProject = '''',
     sqFloorName = ''''\<rparr>) (demo_bridge demo_busy)) = (201, TaskBody ''u1'')"
proof -
  let ?req = "\<lparr>sqTaskID = '' '', sqPriority = 1, sqDescription = ''fix it '', sqProject = '''', sqFloorName = ''''\<rparr>"
  obtain resp b' where r: "handleSubmitTask ''u1'' (Some ?req) (demo_bridge demo_busy) = (resp, b')" by fastforce
  have "healthy (brStore (demo_bridge demo_busy))" using demo_busy_facts by simp
  from handleSubmitTask_exact [OF this r refl] show ?thesis
    using r by (simp add: is_space_def)
qed

subsection \<open>Floors and reservations\<close>

definition at_floor :: "(string \<rightharpoonup> int) \<Rightarrow> int \<Rightarrow> string set" where
  "at_floor m f = {k. m k = Some f}"

lemma finite_at_floor: "finite (dom m) \<Longrightarrow> finite (at_floor m f)"
  by (rule finite_subset [of _ "dom m"]) (auto simp: at_floor_def)

lemma foldl_count: "foldl (\<lambda>c k. if P k then c + 1 else c) (n :: int) ks = n + int (length (filter P ks))"
  by (induction ks arbitrary: n) auto

lemma floorAgentCount_card:
  assumes "fair_order ord" and "finite (dom (brFloors b))"
  shows "floorAgentCount ord b f = int (card (at_floor (brFloors b) f))"
proof -
  have "{k \<in> dom (brFloors b). brFloors b k = Some f} = at_floor (brFloors b) f" by (auto simp: at_floor_def)
  then show ?thesis
    unfolding floorAgentCount_def foldl_count length_filter_fair_order [OF assms] by simp
qed

lemma highest_foldl:
  "h \<le> foldl (\<lambda>h k. case m k of None \<Rightarrow> h | Some f \<Rightarrow> if f > h then f else h) h ks \<and>
   (\<forall>k \<in> set ks. \<forall>f. m k = Some f \<longrightarrow>
      f \<le> foldl (\<lambda>h k. case m k of None \<Rightarrow> h | Some f \<Rightarrow> if f > h then f else h) (h :: int) ks)"
proof (induction ks arbitrary: h)
  case (Cons k ks)
  let ?h = "case m k of None \<Rightarrow> h | Some f \<Rightarrow> if f > h then f else h"
  have "h \<le> ?h" "\<forall>f. m k = Some f \<longrightarrow> f \<le> ?h" by (auto split: option.split)
  then show ?case using Cons.IH [of ?h] by fastforce
qed simp

lemma highest_floor_bounds:
  assumes "fair_order ord" and "finite (dom (brFloors b))"
  shows "0 \<le> highest_floor ord b" and "brFloors b k = Some f \<Longrightarrow> f \<le> highest_floor ord b"
  using highest_foldl [of groundFloor "brFloors b" "ord (dom (brFloors b))"] assms
  by (auto simp: highest_floor_def groundFloor_def)

lemma find_upto:
  "find P [i..j] = Some x \<Longrightarrow> i \<le> x \<and> x \<le> j \<and> P x \<and> (\<forall>y. i \<le> y \<and> y < x \<longrightarrow> \<not> P y)"
proof (induction i j rule: upto.induct)
  case (1 i j)
  show ?case
  proof (cases "i \<le> j \<and> \<not> P i")
    case True
    then have "find P [i + 1..j] = Some x" using "1.prems" by (simp add: upto.simps [of i j])
    then have "i + 1 \<le> x \<and> x \<le> j \<and> P x \<and> (\<forall>y. i + 1 \<le> y \<and> y < x \<longrightarrow> \<not> P y)" using "1.IH" True by blast
    then show ?thesis using True by (metis add1_zle_eq le_less order_trans zle_add1_eq_le)
  next
    case False
    then show ?thesis using "1.prems" by (auto simp: upto.simps [of i j] split: if_splits)
  qed
qed

lemma reserveNextAvailableFloor_spec:
  assumes "fair_order ord" and "finite (dom (brFloors b))"
    and "reserveNextAvailableFloor ord b = (flr, token, b')"
  shows "1 \<le> flr" and "card (at_floor (brFloors b) flr) < 4"
    and "\<And>f. 1 \<le> f \<Longrightarrow> f < flr \<Longrightarrow> 4 \<le> card (at_floor (brFloors b) f)"
    and "token = reservationPrefix @ dec (nat (reservationCounter b + 1))"
    and "b' = b\<lparr>reservationCounter := reservationCounter b + 1, brFloors := (brFloors b)(token \<mapsto> flr)\<rparr>"
proof -
  note count = floorAgentCount_card [OF assms(1,2)]
  note hi = highest_floor_bounds [OF assms(1,2)]
  let ?room = "\<lambda>f. floorAgentCount ord b f < floorCapacity"
  have room: "?room f \<longleftrightarrow> card (at_floor (brFloors b) f) < 4" for f by (simp add: count floorCapacity_def)
  have flr: "flr = (case find ?room [1..highest_floor ord b] of None \<Rightarrow> highest_floor ord b + 1 | Some f \<Rightarrow> f)"
    and "token = reservationPrefix @ dec (nat (reservationCounter b + 1))"
    and "b' = b\<lparr>reservationCounter := reservationCounter b + 1, brFloors := (brFloors b)(token \<mapsto> flr)\<rparr>"
    using assms(3) by (auto simp: reserveNextAvailableFloor_def Let_def)
  then show "token = reservationPrefix @ dec (nat (reservationCounter b + 1))"
    and "b' = b\<lparr>reservationCounter := reservationCounter b + 1, brFloors := (brFloors b)(token \<mapsto> flr)\<rparr>" by blast+
  have "1 \<le> flr \<and> card (at_floor (brFloors b) flr) < 4 \<and>
      (\<forall>f. 1 \<le> f \<longrightarrow> f < flr \<longrightarrow> 4 \<le> card (at_floor (brFloors b) f))"
  proof (cases "find ?room [1..highest_floor ord b]")
    case None
    then have full: "\<forall>f. 1 \<le> f \<and> f \<le> highest_floor ord b \<longrightarrow> \<not> ?room f" by (auto simp: find_None_iff)
    have "at_floor (brFloors b) (highest_floor ord b + 1) = {}" using hi(2) by (fastforce simp: at_floor_def)
    then show ?thesis using full hi(1) flr None by (auto simp: room not_less)
  next
    case (Some f)
    from find_upto [OF Some] show ?thesis using flr Some by (auto simp: room not_less)
  qed
  then show "1 \<le> flr" and "card (at_floor (brFloors b) flr) < 4"
    and "\<And>f. 1 \<le> f \<Longrightarrow> f < flr \<Longrightarrow> 4 \<le> card (at_floor (brFloors b) f)" by auto
qed

lemma reserveFloorSlot_spec:
  assumes "fair_order ord" and "finite (dom (brFloors b))" and "reserveFloorSlot ord flr b = (res, b')"
  shows "(case res of
      None \<Rightarrow> 4 \<le> card (at_floor (brFloors b) flr) \<and> b' = b
    | Some token \<Rightarrow> card (at_floor (brFloors b) flr) < 4 \<and>
        token = reservationPrefix @ dec (nat (reservationCounter b + 1)) \<and>
        b' = b\<lparr>reservationCounter := reservationCounter b + 1, brFloors := (brFloors b)(token \<mapsto> flr)\<rparr>)"
  using assms(3) floorAgentCount_card [OF assms(1,2)]
  by (auto simp: reserveFloorSlot_def floorCapacity_def Let_def split: if_splits)

text \<open>
  Spawns overlap: other handlers run between the reservation of a slot and its commit. A state is the
  bridge and the plans whose spawner is running; identifiers of agents carry no reservation prefix
  (they are UUIDs).
\<close>

inductive floor_step :: "Bridge \<times> SpawnPlan list \<Rightarrow> Bridge \<times> SpawnPlan list \<Rightarrow> bool" where
  fs_prepare: "fair_order ord \<Longrightarrow> spawn_prepare ord is_dir req b = (Inr p, b') \<Longrightarrow> floor_step (b, ps) (b', ps @ [p])"
| fs_refuse: "fair_order ord \<Longrightarrow> spawn_prepare ord is_dir req b = (Inl resp, b') \<Longrightarrow> floor_step (b, ps) (b', ps)"
| fs_finish: "\<forall>a. res = Inr a \<longrightarrow> \<not> HasPrefix a reservationPrefix \<Longrightarrow> spawn_finish p res b = (resp, b') \<Longrightarrow>
     floor_step (b, ps1 @ p # ps2) (b', ps1 @ ps2)"
| fs_despawn: "\<not> HasPrefix a reservationPrefix \<Longrightarrow> handleDespawnAgent now a b = (resp, b') \<Longrightarrow>
     floor_step (b, ps) (b', ps)"
| fs_supervisor: "floor_step (b, ps) (b\<lparr>brSv := sv\<rparr>, ps)"

inductive floor_reach :: "Bridge \<Rightarrow> Bridge \<times> SpawnPlan list \<Rightarrow> bool" for b0 where
  floor_start: "floor_reach b0 (b0, [])"
| floor_more: "floor_reach b0 s \<Longrightarrow> floor_step s s' \<Longrightarrow> floor_reach b0 s'"

definition floors_inv :: "Bridge \<times> SpawnPlan list \<Rightarrow> bool" where
  "floors_inv s = (case s of (b, ps) \<Rightarrow>
     finite (dom (brFloors b)) \<and> 0 \<le> reservationCounter b \<and>
     (\<forall>k f. brFloors b k = Some f \<longrightarrow> 1 \<le> f) \<and>
     (\<forall>f. card (at_floor (brFloors b) f) \<le> 4) \<and>
     (\<forall>k. HasPrefix k reservationPrefix \<and> k \<in> dom (brFloors b) \<longrightarrow> k \<in> plToken ` set ps) \<and>
     (\<forall>p \<in> set ps. brFloors b (plToken p) = Some (plFloor p) \<and>
        (\<exists>n. plToken p = reservationPrefix @ dec n \<and> int n \<le> reservationCounter b)) \<and>
     distinct (map plToken ps))"

lemma at_floor_upd:
  "at_floor (m(k \<mapsto> f)) g = (if g = f then insert k (at_floor m g) else at_floor m g - {k})"
  "at_floor (m(k := None)) g = at_floor m g - {k}"
  by (auto simp: at_floor_def)

lemma floors_inv_reserve:
  assumes "floors_inv (b, ps)" and "1 \<le> plFloor p" and "card (at_floor (brFloors b) (plFloor p)) < 4"
    and "plToken p = reservationPrefix @ dec (nat (reservationCounter b + 1))"
    and "brFloors b' = (brFloors b)(plToken p \<mapsto> plFloor p)" and "reservationCounter b' = reservationCounter b + 1"
  shows "floors_inv (b', ps @ [p])"
proof -
  note I = assms(1) [unfolded floors_inv_def prod.case]
  have fresh: "plToken p \<notin> plToken ` set ps"
  proof
    assume "plToken p \<in> plToken ` set ps"
    then obtain q where "q \<in> set ps" "plToken q = plToken p" by auto
    then obtain n where "reservationPrefix @ dec n = reservationPrefix @ dec (nat (reservationCounter b + 1))"
      "int n \<le> reservationCounter b" using I assms(4) by metis
    then show False using I by simp
  qed
  have new: "plToken p \<notin> dom (brFloors b)" using fresh I assms(4) by (metis HasPrefix_append)
  have "card (at_floor (brFloors b') f) \<le> 4" for f
    using I new assms(3) finite_at_floor [of "brFloors b"]
    by (auto simp: assms(5) at_floor_upd card_insert_if intro: order_trans [OF card_Diff1_le])
  moreover have "\<exists>n. plToken q = reservationPrefix @ dec n \<and> int n \<le> reservationCounter b'" if "q \<in> set (ps @ [p])" for q
  proof (cases "q = p")
    case True
    then show ?thesis using assms(4,6) I by (intro exI [of _ "nat (reservationCounter b + 1)"]) simp
  next
    case False
    then have "q \<in> set ps" using that by simp
    then obtain n where "plToken q = reservationPrefix @ dec n" "int n \<le> reservationCounter b" using I by blast
    then show ?thesis using assms(6) by (intro exI [of _ n]) simp
  qed
  moreover have "\<forall>q \<in> set ps. plToken q \<noteq> plToken p" using fresh by (metis imageI)
  ultimately show ?thesis
    using I fresh assms(2,5,6) by (auto simp: floors_inv_def split: if_splits)
qed

lemma spawn_prepare_plan:
  assumes "spawn_prepare ord is_dir req b = (Inr p, b')" and "fair_order ord" and "finite (dom (brFloors b))"
  shows "1 \<le> plFloor p" and "card (at_floor (brFloors b) (plFloor p)) < 4"
    and "plToken p = reservationPrefix @ dec (nat (reservationCounter b + 1))"
    and "brFloors b' = (brFloors b)(plToken p \<mapsto> plFloor p)" and "reservationCounter b' = reservationCounter b + 1"
proof -
  let ?b = "b\<lparr>spawnCounter := spawnCounter b + 1\<rparr>"
  have fin: "finite (dom (brFloors ?b))" using assms(3) by simp
  have "1 \<le> plFloor p \<and> card (at_floor (brFloors b) (plFloor p)) < 4 \<and>
      plToken p = reservationPrefix @ dec (nat (reservationCounter b + 1)) \<and>
      brFloors b' = (brFloors b)(plToken p \<mapsto> plFloor p) \<and> reservationCounter b' = reservationCounter b + 1"
  proof (cases "srFloor (spawn_defaults (spawnCounter b + 1) req)")
    case None
    obtain flr token b1 where r: "reserveNextAvailableFloor ord ?b = (flr, token, b1)" by (rule prod_cases3)
    show ?thesis
      using assms(1) None reserveNextAvailableFloor_spec(1,2,4,5) [OF assms(2) fin r]
      by (auto simp: spawn_prepare_def Let_def r split: if_splits)
  next
    case (Some flr)
    obtain res b1 where r: "reserveFloorSlot ord flr ?b = (res, b1)" by fastforce
    show ?thesis
      using assms(1) Some reserveFloorSlot_spec [OF assms(2) fin r]
      by (auto simp: spawn_prepare_def Let_def r groundFloor_def split: if_splits option.splits)
  qed
  then show "1 \<le> plFloor p" and "card (at_floor (brFloors b) (plFloor p)) < 4"
    and "plToken p = reservationPrefix @ dec (nat (reservationCounter b + 1))"
    and "brFloors b' = (brFloors b)(plToken p \<mapsto> plFloor p)" and "reservationCounter b' = reservationCounter b + 1"
    by blast+
qed

lemma spawn_prepare_refused:
  assumes "spawn_prepare ord is_dir req b = (Inl resp, b')"
  shows "brFloors b' = brFloors b" and "reservationCounter b' = reservationCounter b"
  using assms
  by (auto simp: spawn_prepare_def Let_def reserveFloorSlot_def split: if_splits option.splits prod.splits)

lemma floors_inv_frame:
  assumes "floors_inv (b, ps)" and "brFloors b' = brFloors b" and "reservationCounter b' = reservationCounter b"
  shows "floors_inv (b', ps)"
  using assms by (simp add: floors_inv_def)

text \<open>Removing keys that no plan in flight holds.\<close>

lemma floors_inv_remove:
  assumes "floors_inv (b, ps)" and "k \<notin> plToken ` set ps" and "brFloors b' = (brFloors b)(k := None)"
    and "reservationCounter b' = reservationCounter b"
  shows "floors_inv (b', ps)"
proof -
  note I = assms(1) [unfolded floors_inv_def prod.case]
  have "card (at_floor (brFloors b') f) \<le> 4" for f
    using I by (auto simp: assms(3) at_floor_upd intro: order_trans [OF card_Diff1_le])
  then show ?thesis using I assms(2-4) by (auto simp: floors_inv_def)
qed

lemma floors_inv_release:
  assumes "floors_inv (b, ps1 @ p # ps2)" and "brFloors b' = (brFloors b)(plToken p := None)"
    and "reservationCounter b' = reservationCounter b"
  shows "floors_inv (b', ps1 @ ps2)"
proof -
  note I = assms(1) [unfolded floors_inv_def prod.case]
  have "plToken p \<notin> plToken ` set (ps1 @ ps2)" using I by auto
  then have ne: "\<forall>q \<in> set (ps1 @ ps2). plToken q \<noteq> plToken p" by (metis imageI)
  have "card (at_floor (brFloors b') f) \<le> 4" for f
    using I by (auto simp: assms(2) at_floor_upd intro: order_trans [OF card_Diff1_le])
  then show ?thesis using I ne assms(2,3) by (auto simp: floors_inv_def)
qed

lemma floors_inv_commit:
  assumes "floors_inv (b, ps1 @ p # ps2)" and "\<not> HasPrefix a reservationPrefix"
    and "brFloors b' = (brFloors b)(plToken p := None, a \<mapsto> plFloor p)"
    and "reservationCounter b' = reservationCounter b"
  shows "floors_inv (b', ps1 @ ps2)"
proof -
  note I = assms(1) [unfolded floors_inv_def prod.case]
  have "plToken p \<notin> plToken ` set (ps1 @ ps2)" using I by auto
  then have ne: "\<forall>q \<in> set (ps1 @ ps2). plToken q \<noteq> plToken p" by (metis imageI)
  have tok: "HasPrefix (plToken q) reservationPrefix" if "q \<in> set (ps1 @ p # ps2)" for q
    using I that by (metis HasPrefix_append)
  then have na: "\<forall>q \<in> set (ps1 @ p # ps2). plToken q \<noteq> a" using assms(2) by metis
  have p: "brFloors b (plToken p) = Some (plFloor p)" using I by simp
  then have "plToken p \<in> at_floor (brFloors b) (plFloor p)" by (simp add: at_floor_def)
  moreover have fin: "finite (at_floor (brFloors b) f)" for f using I by (simp add: finite_at_floor)
  ultimately have less: "card (at_floor (brFloors b) (plFloor p) - {plToken p}) < card (at_floor (brFloors b) (plFloor p))"
    by (meson card_Diff1_less)
  have "card (at_floor (brFloors b') f) \<le> 4" for f
  proof (cases "f = plFloor p")
    case True
    have "card (at_floor (brFloors b') f) \<le> Suc (card (at_floor (brFloors b) f - {plToken p}))"
      using fin [of f] by (simp add: assms(3) at_floor_upd True card_insert_if)
    then show ?thesis using less I True by (metis Suc_leI order_trans)
  next
    case False
    have "card (at_floor (brFloors b') f) \<le> card (at_floor (brFloors b) f)"
      using False by (auto simp: assms(3) at_floor_upd intro!: card_mono fin)
    then show ?thesis using I order_trans by blast
  qed
  then show ?thesis using I ne na assms(2-4) by (auto simp: floors_inv_def split: if_splits)
qed

lemma set_names_floors [simp]:
  "brFloors (setAgentName a n b) = brFloors b" "reservationCounter (setAgentName a n b) = reservationCounter b"
  "brFloors (setAgentProvider a q b) = brFloors b" "reservationCounter (setAgentProvider a q b) = reservationCounter b"
  by (simp_all add: setAgentName_def setAgentProvider_def)

lemma drop_task_floors [simp]:
  "brFloors (drop_task now a t b) = brFloors b" "reservationCounter (drop_task now a t b) = reservationCounter b"
  by (simp_all add: drop_task_def Let_def)

lemma remove_everywhere_floors [simp]:
  "brFloors (remove_everywhere now a b) = (brFloors b)(a := None)"
  "reservationCounter (remove_everywhere now a b) = reservationCounter b"
  by (simp_all add: remove_everywhere_def Let_def)

lemma handleDespawnAgent_floors:
  assumes "handleDespawnAgent now a b = (resp, b')"
  shows "brFloors b' = brFloors b \<or> brFloors b' = (brFloors b)(a := None)"
    and "reservationCounter b' = reservationCounter b"
  using assms by (auto simp: handleDespawnAgent_def Let_def split: sum.splits)

lemma floor_step_inv:
  assumes "floor_step s s'" and "floors_inv s"
  shows "floors_inv s'"
  using assms
proof (cases rule: floor_step.cases)
  case (fs_prepare ord is_dir req b p b' ps)
  then have "finite (dom (brFloors b))" using assms(2) by (simp add: floors_inv_def)
  from spawn_prepare_plan [OF fs_prepare(4,3) this] show ?thesis
    using assms(2) unfolding fs_prepare(1,2) by (blast intro: floors_inv_reserve)
next
  case (fs_refuse ord is_dir req b resp b' ps)
  then show ?thesis using assms(2) spawn_prepare_refused [OF fs_refuse(4)] by (blast intro: floors_inv_frame)
next
  case (fs_finish res p b resp b' ps1 ps2)
  show ?thesis
  proof (cases res)
    case (Inl err)
    then have "b' = releaseFloorReservation (plToken p) b" using fs_finish(4) by (simp add: spawn_finish_def)
    then show ?thesis
      using assms(2) unfolding fs_finish(1,2)
      by (auto intro: floors_inv_release simp: releaseFloorReservation_def)
  next
    case (Inr a)
    then have b': "b' = commitFloorReservation (plToken p) a (plFloor p)
        (setAgentProvider a (plKind p) (setAgentName a (plName p) b))"
      using fs_finish(4) by (simp add: spawn_finish_def Let_def)
    have inv: "floors_inv (b, ps1 @ p # ps2)" using assms(2) fs_finish(1) by simp
    show ?thesis
    proof (cases "a = ''''")
      case True
      then show ?thesis
        unfolding fs_finish(2) by (intro floors_inv_release [OF inv]) (simp_all add: b' commitFloorReservation_def)
    next
      case False
      moreover have "\<not> HasPrefix a reservationPrefix" using fs_finish(3) Inr by simp
      ultimately show ?thesis
        unfolding fs_finish(2) by (intro floors_inv_commit [OF inv]) (simp_all add: b' commitFloorReservation_def)
    qed
  qed
next
  case (fs_despawn a now b resp b' ps)
  have inv: "floors_inv (b, ps)" using assms(2) fs_despawn(1) by simp
  then have "a \<notin> plToken ` set ps"
    using fs_despawn(3) unfolding floors_inv_def prod.case by (metis HasPrefix_append image_iff)
  then show ?thesis
    using handleDespawnAgent_floors [OF fs_despawn(4)] inv unfolding fs_despawn(2)
    by (blast intro: floors_inv_frame floors_inv_remove)
next
  case (fs_supervisor b ps sv)
  then show ?thesis using assms(2) by (auto intro: floors_inv_frame)
qed

text \<open>
  C17. No floor is ever overfull: in every interleaving of spawns (with other handlers running while a
  spawner is at work, whatever it answers), despawns and supervisor activity, a floor holds at most four
  agents and reservations, no agent is on the ground floor or below, and a reservation
  exists only while its spawn is in flight, so no slot leaks.
\<close>

theorem floors_never_overfull:
  assumes "floor_reach (NewBridge sv dag []) (b, ps)"
  shows "card {k. brFloors b k = Some f} \<le> 4 \<and> (brFloors b k = Some f \<longrightarrow> 1 \<le> f) \<and>
    {k \<in> dom (brFloors b). HasPrefix k reservationPrefix} = plToken ` set ps"
proof -
  have "floors_inv s" if "floor_reach (NewBridge sv dag []) s" for s
    using that
  proof induction
    case floor_start
    then show ?case by (simp add: floors_inv_def NewBridge_def at_floor_def)
  qed (auto intro: floor_step_inv)
  then have "floors_inv (b, ps)" using assms by blast
  note I = this [unfolded floors_inv_def prod.case]
  have "HasPrefix (plToken p) reservationPrefix \<and> plToken p \<in> dom (brFloors b)" if "p \<in> set ps" for p
    using I that by (metis HasPrefix_append domI)
  then show ?thesis using I by (auto simp: at_floor_def)
qed

lemma demo_bridge_reach:
  "\<exists>b. floor_reach (NewBridge demo_busy None []) (b,
      [\<lparr>plKind = ''sim'', plName = ''Ash'', plTier = ''opus'', plWorkdir = '''', plFloor = 1,
        plToken = reservationPrefix @ ''1''\<rparr>])"
proof -
  let ?b0 = "NewBridge demo_busy None []"
  let ?req = "\<lparr>srKind = ''sim'', srName = ''Ash'', srTier = ''opus'', srFloor = None, srWorkdir = ''''\<rparr>"
  let ?p = "\<lparr>plKind = ''sim'', plName = ''Ash'', plTier = ''opus'', plWorkdir = '''', plFloor = 1,
        plToken = reservationPrefix @ ''1''\<rparr>"
  obtain r b where r: "spawn_prepare sorted_list_of_set (\<lambda>_. True) ?req ?b0 = (r, b)" by fastforce
  have "fst (spawn_prepare sorted_list_of_set (\<lambda>_. True) ?req ?b0) = Inr ?p"
    by (simp add: spawn_prepare_def spawn_defaults_def reserveNextAvailableFloor_def highest_floor_def
        groundFloor_def NewBridge_def dec.simps digit_char_def Let_def)
  then have "floor_step (?b0, []) (b, [] @ [?p])"
    using r by (intro floor_step.fs_prepare [OF fair_order_sorted]) simp
  then show ?thesis using floor_more [OF floor_start] by auto
qed

lemma floors_never_overfull_witness:
  "\<exists>b :: Bridge. {k \<in> dom (brFloors b). HasPrefix k reservationPrefix} = {reservationPrefix @ ''1''} \<and>
     card {k. brFloors b k = Some 1} \<le> 4"
proof -
  obtain b where b: "floor_reach (NewBridge demo_busy None []) (b,
      [\<lparr>plKind = ''sim'', plName = ''Ash'', plTier = ''opus'', plWorkdir = '''', plFloor = 1,
        plToken = reservationPrefix @ ''1''\<rparr>])" using demo_bridge_reach by blast
  show ?thesis using floors_never_overfull [OF b, of 1 "''''"] by (intro exI [of _ b]) simp
qed

text \<open>
  Where a new agent goes: an explicit floor is refused with 400 if it is the ground floor or below,
  with 409 exactly if it is full, and taken otherwise; without one the agent gets the lowest floor
  with room, all floors below it being full. Map order plays no role.
\<close>

theorem spawn_placement:
  assumes "fair_order ord" and "finite (dom (brFloors b))" and "spawn_prepare ord is_dir req b = (res, b')"
    and "srKind req \<in> {'''', ''sim'', ''claude'', ''codex'', ''opencode'', ''pi''}"
    and "srWorkdir req = '''' \<or> HasPrefix (srWorkdir req) ''/'' \<and> is_dir (srWorkdir req)"
  shows "(case srFloor req of
      Some f \<Rightarrow>
        if f \<le> 0 then \<exists>resp. res = Inl resp \<and> fst resp = 400
        else if card {k. brFloors b k = Some f} \<ge> 4 then \<exists>resp. res = Inl resp \<and> fst resp = 409
        else \<exists>p. res = Inr p \<and> plFloor p = f
    | None \<Rightarrow> \<exists>p. res = Inr p \<and> 1 \<le> plFloor p \<and> card {k. brFloors b k = Some (plFloor p)} < 4 \<and>
        (\<forall>f. 1 \<le> f \<and> f < plFloor p \<longrightarrow> 4 \<le> card {k. brFloors b k = Some f}))"
proof -
  let ?b = "b\<lparr>spawnCounter := spawnCounter b + 1\<rparr>"
  let ?req = "spawn_defaults (spawnCounter b + 1) req"
  have fin: "finite (dom (brFloors ?b))" using assms(2) by simp
  have same: "srFloor ?req = srFloor req" "srWorkdir ?req = srWorkdir req"
    by (simp_all add: spawn_defaults_def Let_def)
  show ?thesis
  proof (cases "srFloor req")
    case None
    obtain flr token b1 where r: "reserveNextAvailableFloor ord ?b = (flr, token, b1)" by (rule prod_cases3)
    show ?thesis
      using assms(3-5) None same reserveNextAvailableFloor_spec(1-3) [OF assms(1) fin r]
      by (auto simp: spawn_prepare_def Let_def r at_floor_def split: if_splits)
  next
    case (Some f)
    obtain slot b1 where r: "reserveFloorSlot ord f ?b = (slot, b1)" by fastforce
    show ?thesis
      using assms(3-5) Some same reserveFloorSlot_spec [OF assms(1) fin r]
      by (auto simp: spawn_prepare_def Let_def r groundFloor_def at_floor_def bad_request_def
          split: if_splits option.splits)
  qed
qed

lemma spawn_placement_witness:
  "\<exists>p. fst (spawn_prepare sorted_list_of_set (\<lambda>_. True)
     \<lparr>srKind = ''sim'', srName = '''', srTier = '''', srFloor = Some 3, srWorkdir = ''''\<rparr> (demo_bridge demo_busy)) = Inr p \<and>
     plFloor p = 3"
proof -
  let ?req = "\<lparr>srKind = ''sim'', srName = '''', srTier = '''', srFloor = Some 3, srWorkdir = ''''\<rparr>"
  obtain res b' where r: "spawn_prepare sorted_list_of_set (\<lambda>_. True) ?req (demo_bridge demo_busy) = (res, b')" by fastforce
  have "finite (dom (brFloors (demo_bridge demo_busy)))" by simp
  from spawn_placement [OF fair_order_sorted this r] show ?thesis using r by simp
qed

subsection \<open>Despawning\<close>

lemma RemoveAgent_store [simp]:
  "agents (store (RemoveAgent now a sv)) = agents (store sv)" "queue (store (RemoveAgent now a sv)) = queue (store sv)"
  "healthy (store (RemoveAgent now a sv)) = healthy (store sv)"
  "completionRegistry (RemoveAgent now a sv) = completionRegistry sv"
  by (simp_all add: RemoveAgent_def)

lemma remove_everywhere_effect:
  assumes "healthy (brStore b)"
  shows "agents (brStore (remove_everywhere now a b)) = (agents (brStore b))(a := None)"
    and "queue (brStore (remove_everywhere now a b)) = queue (brStore b)"
    and "completionRegistry (brSv (remove_everywhere now a b)) = completionRegistry (brSv b)"
    and "brNames (remove_everywhere now a b) = (brNames b)(a := None)"
    and "brProviders (remove_everywhere now a b) = (brProviders b)(a := None)"
    and "healthy (brStore (remove_everywhere now a b))"
  using assms healthy_ops(5) [of "brStore b"] healthy_ops(5) [of "store (RemoveAgent now a (brSv b))"]
  by (auto simp: remove_everywhere_def Let_def set_store_def)

lemma drop_task_effect:
  assumes "healthy (brStore b)" and "agents (brStore b) a = Some r"
  shows "agents (brStore (drop_task now a t b)) =
      (agents (brStore b))(a \<mapsto> r\<lparr>fCurrentTaskID := '''', fCurrentTaskPriority := 0\<rparr>)"
    and "queue (brStore (drop_task now a t b)) = queue (brStore b)"
    and "healthy (brStore (drop_task now a t b))"
    and "completionRegistry (brSv (drop_task now a t b)) =
      (if brRegistry b then map_option (Complete now t) (completionRegistry (brSv b)) else completionRegistry (brSv b))"
    and "brNames (drop_task now a t b) = brNames b" and "brProviders (drop_task now a t b) = brProviders b"
  using assms by (simp_all add: drop_task_def Let_def healthy_ops(4) [OF assms(1)])



text \<open>
  The slot of a reaped agent is lost: the reaper deletes the agent from the store but not from the
  bridge's tables, despawning it afterwards answers 404 and changes nothing, and a floor held by four
  such agents refuses every spawn as full.
\<close>

theorem reaped_agent_keeps_slot:
  assumes "healthy (brStore b)" and "brFloors b a = Some f" and "b1 = b\<lparr>brSv := reapAgent now a (brSv b)\<rparr>"
    and "card {k. brFloors b k = Some f} = 4" and "finite (dom (brFloors b))" and "fair_order ord"
  shows "agents (brStore b1) a = None \<and> brFloors b1 a = Some f \<and>
    fst (fst (handleDespawnAgent later a b1)) = 404 \<and> snd (handleDespawnAgent later a b1) = b1 \<and>
    fst (reserveFloorSlot ord f b1) = None"
proof -
  have gone: "agents (brStore b1) a = None" and h: "healthy (brStore b1)"
    using reapAgent_effect [OF assms(1), of now a] assms(3) by simp_all
  have count: "floorAgentCount ord b1 f = 4"
    using floorAgentCount_card [OF assms(6), of b1 f] assms(3-5) by (simp add: at_floor_def)
  have "GetAgentFields (brStore b1) a = Inl ErrAgentNotFound" using gone by (simp add: healthy_ops(1) [OF h])
  then have "fst (fst (handleDespawnAgent later a b1)) = 404 \<and> snd (handleDespawnAgent later a b1) = b1"
    by (simp add: handleDespawnAgent_def writeError_def)
  moreover have "brFloors b1 a = Some f" using assms(2,3) by simp
  ultimately show ?thesis using gone by (simp add: reserveFloorSlot_def count floorCapacity_def)
qed

lemma reaped_agent_keeps_slot_witness:
  "(let b = (demo_bridge demo_busy)\<lparr>brFloors := [''a1'' \<mapsto> 1, ''a2'' \<mapsto> 1, ''a3'' \<mapsto> 1, ''a4'' \<mapsto> 1]\<rparr>
    in fst (reserveFloorSlot sorted_list_of_set 1 (b\<lparr>brSv := reapAgent 5 ''a1'' (brSv b)\<rparr>)) = None)"
proof -
  let ?b = "(demo_bridge demo_busy)\<lparr>brFloors := [''a1'' \<mapsto> 1, ''a2'' \<mapsto> 1, ''a3'' \<mapsto> 1, ''a4'' \<mapsto> 1]\<rparr>"
  have "{k. brFloors ?b k = Some 1} = {''a1'', ''a2'', ''a3'', ''a4''}" by auto
  then have "card {k. brFloors ?b k = Some 1} = 4" by simp
  moreover have "healthy (brStore ?b)" using demo_busy_facts by simp
  ultimately show ?thesis
    using reaped_agent_keeps_slot [of ?b "''a1''" 1 _ 5 sorted_list_of_set, OF _ _ refl _ _ fair_order_sorted]
    by (simp add: Let_def)
qed

subsection \<open>Graphs over HTTP\<close>

lemma dag_spec_facts:
  "map dnNodeId (dsNodes (dag_spec uuids req)) = map njNodeID (drNodes req)"
  "\<forall>n \<in> set (dsNodes (dag_spec uuids req)). dnDependsOn n = [] \<and> dnTask n \<noteq> None"
proof -
  have "map dnNodeId (dsNodes (dag_spec uuids req)) = map njNodeID (map snd (enumerate 0 (drNodes req)))"
    by (simp add: dag_spec_def dag_node_def Let_def comp_def split_beta del: map_snd_enumerate)
  then show "map dnNodeId (dsNodes (dag_spec uuids req)) = map njNodeID (drNodes req)" by simp
  show "\<forall>n \<in> set (dsNodes (dag_spec uuids req)). dnDependsOn n = [] \<and> dnTask n \<noteq> None"
    by (auto simp: dag_spec_def dag_node_def Let_def)
qed

text \<open>
  The edges of a graph submitted over HTTP order nothing: the graph is accepted exactly when it has
  nodes and no identifier twice, whatever its edges (even cyclic or dangling ones), and the plan has
  one single level with all the nodes.
\<close>

theorem http_dag_unordered:
  assumes "fair_order ord" and "brDag b = Some tracker"
    and "handleSubmitDAG ord uuids e now (Some req) b = (resp, started, b')"
  shows "(if drNodes req \<noteq> [] \<and> distinct (map njNodeID (drNodes req))
     then resp = (201, DagBody e) \<and>
       (\<exists>r. started = Some ([sorted_list_of_set (njNodeID ` set (drNodes req))], r))
     else fst resp = 400 \<and> started = None \<and> b' = b)"
proof -
  let ?spec = "dag_spec uuids req"
  have ids: "spec_ids ?spec = njNodeID ` set (drNodes req)"
    using arg_cong [OF dag_spec_facts(1), of set] by (simp add: spec_ids_def)
  have nodes: "dsNodes ?spec = [] \<longleftrightarrow> drNodes req = []"
    using arg_cong [OF dag_spec_facts(1), of length] by (metis length_0_conv length_map)
  have ok: "spec_ok ?spec \<longleftrightarrow> drNodes req \<noteq> [] \<and> distinct (map njNodeID (drNodes req))"
    using dag_spec_facts nodes by (auto simp: spec_ok_def)
  have deps: "spec_deps ?spec = {}" using dag_spec_facts(2) by (auto simp: spec_deps_def)
  note outcome = NewGraph_outcome [OF assms(1), of ?spec]
  show ?thesis
  proof (cases "NewGraph ord (Some ?spec)")
    case (Inl err)
    have acy: "acyclic (spec_deps ?spec)" by (simp add: deps acyclic_def)
    have none: "\<not> (\<exists>n \<in> set (dsNodes ?spec). \<exists>d \<in> set (dnDependsOn n). P n d)" for P
      using dag_spec_facts(2) by fastforce
    have task: "\<not> (\<exists>n \<in> set (dsNodes ?spec). Q n \<and> dnTask n = None)" for Q
      using dag_spec_facts(2) by fastforce
    have err: "err = ErrEmptyDAG \<and> dsNodes ?spec = [] \<or>
        (\<exists>i. err = Errorf ''%w: %s'' [i] ErrDuplicateNode \<and> \<not> distinct (map dnNodeId (dsNodes ?spec)))"
      using outcome acy none task unfolding Inl sum.case by blast
    then have "fst (writeError err) = 400" by (auto simp: writeError_def)
    moreover have "\<not> (drNodes req \<noteq> [] \<and> distinct (map njNodeID (drNodes req)))"
      using err nodes dag_spec_facts(1) by auto
    ultimately show ?thesis
      using assms(2,3) Inl by (auto simp: handleSubmitDAG_def Execute_def)
  next
    case (Inr g)
    have g: "spec_ok ?spec" "graph_ok g" "nodeOrder g = map dnNodeId (dsNodes ?spec)"
      "\<forall>n \<in> set (dsNodes ?spec). Predecessors g (dnNodeId n) = dnDependsOn n"
      using outcome Inr by auto
    obtain L where L: "TopologicalSort ord g = Inr L" using outcome Inr by auto
    note T = TopologicalSort_Inr [OF g(2) assms(1) L]
    have cover: "set (concat L) = spec_ids ?spec" using T(2) g(3) by (simp add: spec_ids_def)
    have no_preds: "Predecessors g n = []" if "n \<in> set (concat L)" for n
    proof -
      have "n \<in> dnNodeId ` set (dsNodes ?spec)" using that unfolding cover spec_ids_def by simp
      then obtain m where "m \<in> set (dsNodes ?spec)" "n = dnNodeId m" by blast
      then show ?thesis using g(4) dag_spec_facts(2) [of uuids req] by auto
    qed
    have one: "length L \<le> 1"
    proof (rule ccontr)
      assume "\<not> length L \<le> 1"
      then have i: "1 < length L" by simp
      then have "L ! 1 \<noteq> []" using T(4) nth_mem by metis
      then obtain n where n: "n \<in> set (L ! 1)" by (cases "L ! 1") auto
      moreover have "L ! 1 \<in> set L" using i by simp
      ultimately have "n \<in> set (concat L)" by auto
      then have "Predecessors g n = []" by (rule no_preds)
      moreover have "\<exists>u \<in> set (L ! (1 - 1)). u \<in> set (Predecessors g n)"
        using T(3) n i unfolding layered_def by (metis zero_less_one)
      ultimately show False by simp
    qed
    have "drNodes req \<noteq> []" using g(1) ok by simp
    then have "L \<noteq> []" using cover ids by auto
    then obtain l where l: "L = [l]" using one by (cases L) auto
    have "l = sorted_list_of_set (njNodeID ` set (drNodes req))"
      using T(1,5) cover ids by (simp add: l sorted_distinct_set_unique)
    then show ?thesis
      using assms(2,3) Inr L l ok g(1) by (auto simp: handleSubmitDAG_def Execute_def)
  qed
qed

lemma http_dag_unordered_witness:
  "fst (handleSubmitDAG sorted_list_of_set (\<lambda>_. ''u'') ''e'' 0
     (Some \<lparr>drNodes = [\<lparr>njNodeID = ''b'', njTaskID = ''t1'', njPriority = 1, njDescription = ''''\<rparr>,
                     \<lparr>njNodeID = ''a'', njTaskID = ''t2'', njPriority = 1, njDescription = ''''\<rparr>],
           drEdges = [(''b'', ''a''), (''a'', ''b'')]\<rparr>) (demo_bridge demo_busy)) = (201, DagBody ''e'')"
proof -
  let ?req = "\<lparr>drNodes = [\<lparr>njNodeID = ''b'', njTaskID = ''t1'', njPriority = 1, njDescription = ''''\<rparr>,
                     \<lparr>njNodeID = ''a'', njTaskID = ''t2'', njPriority = 1, njDescription = ''''\<rparr>],
           drEdges = [(''b'', ''a''), (''a'', ''b'')]\<rparr>"
  obtain resp started b' where r: "handleSubmitDAG sorted_list_of_set (\<lambda>_. ''u'') ''e'' 0 (Some ?req)
      (demo_bridge demo_busy) = (resp, started, b')" by (rule prod_cases3)
  show ?thesis using http_dag_unordered [OF fair_order_sorted demo_bridge_simps(5) r] r by simp
qed

end
