(* ===== verification/Http_Mux.thy ===== *)
theory Http_Mux
  imports Main
begin

section \<open>http.ServeMux\<close>

text \<open>
  The part of the standard library's request multiplexer that the HTTP bridge and the health server rely
  on: patterns of a method and path segments, of which one may be the wildcard \<open>{id}\<close>. A path is the
  list of the segments of the cleaned path, each unescaped. The tables registered here have no two
  patterns of different endpoints for the same path and method, so precedence plays no role.
\<close>

text \<open>A pattern for GET also takes HEAD; the segment a wildcard takes is not empty.\<close>

type_synonym 'e route_table = "(string \<times> string option list \<times> 'e) list"

definition method_matches :: "string \<Rightarrow> string \<Rightarrow> bool" where
  "method_matches pat meth \<longleftrightarrow> pat = meth \<or> pat = ''GET'' \<and> meth = ''HEAD''"

fun path_matches :: "string option list \<Rightarrow> string list \<Rightarrow> bool" where
  "path_matches [] [] = True"
| "path_matches (Some l # ps) (s # ss) \<longleftrightarrow> l = s \<and> path_matches ps ss"
| "path_matches (None # ps) (s # ss) \<longleftrightarrow> s \<noteq> '''' \<and> path_matches ps ss"
| "path_matches _ _ = False"

text \<open>\<open>r.PathValue("id")\<close>.\<close>

fun path_id :: "string option list \<Rightarrow> string list \<Rightarrow> string" where
  "path_id (None # ps) (s # ss) = s"
| "path_id (Some l # ps) (s # ss) = path_id ps ss"
| "path_id _ _ = ''''"

text \<open>No pattern for the path is answered 404, none for the method 405.\<close>

datatype 'e routed = NoPath | NoMethod | Routed 'e string

definition mux_route :: "'e route_table \<Rightarrow> string \<Rightarrow> string list \<Rightarrow> 'e routed" where
  "mux_route table meth segs =
     (let on_path = filter (\<lambda>(m, pat, ep). path_matches pat segs) table
      in if on_path = [] then NoPath
         else (case find (\<lambda>(m, pat, ep). method_matches m meth) on_path of
                 None \<Rightarrow> NoMethod
               | Some (m, pat, ep) \<Rightarrow> Routed ep (path_id pat segs)))"

lemma path_matches_shape:
  "path_matches [] segs \<longleftrightarrow> segs = []"
  "path_matches (Some l # ps) segs \<longleftrightarrow> (\<exists>ss. segs = l # ss \<and> path_matches ps ss)"
  "path_matches (None # ps) segs \<longleftrightarrow> (\<exists>s ss. segs = s # ss \<and> s \<noteq> '''' \<and> path_matches ps ss)"
  by (cases segs; auto)+

lemma mux_route_Routed:
  assumes "mux_route table meth segs = Routed ep a"
  obtains m pat where "(m, pat, ep) \<in> set table" and "path_matches pat segs" and "method_matches m meth"
    and "a = path_id pat segs"
proof -
  let ?on_path = "filter (\<lambda>(m, pat, ep). path_matches pat segs) table"
  obtain m pat where f: "find (\<lambda>(m, pat, ep). method_matches m meth) ?on_path = Some (m, pat, ep)"
    and a: "a = path_id pat segs"
    using assms by (auto simp: mux_route_def Let_def split: if_splits option.splits)
  have "method_matches m meth" and "(m, pat, ep) \<in> set ?on_path"
    using f nth_mem unfolding find_Some_iff by fastforce+
  then show ?thesis using that a by auto
qed

end
