(* ===== verification/Http_Api.thy ===== *)
theory Http_Api
  imports Bridge Http_Mux
begin

section \<open>The HTTP API: authentication and routing\<close>

text \<open>
  \<open>NewBridge\<close> registers the endpoints with \<open>http.ServeMux\<close> and puts the check of the API key in front
  when a key is set. A request is given by its method, the segments of its cleaned path (the mux
  redirects an unclean one and unescapes each segment), its query, its Authorization header and its
  body; decoding JSON, the clock, made up identifiers and the file system are the record
  \<open>HttpWorld\<close>. Besides the response an endpoint may start the run of a graph, schedule the restart or
  go on as an event stream. The lemmas say what a request can touch: nothing at all without the key,
  nothing but the log of tmux calls with GET, and no agent but the one it names.
\<close>

subsection \<open>Authentication\<close>

text \<open>What the server does with a request.\<close>

datatype http_reply = Reply response | ReplyRun response "(string list list \<times> Run) option"
  | ReplyRestart response "duration option" | ReplyStream string

fun reply_status :: "http_reply \<Rightarrow> int" where
  "reply_status (Reply r) = fst r"
| "reply_status (ReplyRun r rn) = fst r"
| "reply_status (ReplyRestart r d) = fst r"
| "reply_status (ReplyStream since) = 200"

definition authorized :: "Bridge \<Rightarrow> string \<Rightarrow> bool" where
  "authorized b auth \<longleftrightarrow> HasPrefix auth ''Bearer '' \<and> TrimPrefix auth ''Bearer '' = apiKey b"

definition authMiddleware ::
  "(Bridge \<Rightarrow> http_reply \<times> Bridge) \<Rightarrow> string \<Rightarrow> Bridge \<Rightarrow> http_reply \<times> Bridge" where
  "authMiddleware handler auth b =
     (if authorized b auth then handler b
      else (Reply (401, ErrorResponse (Text ''unauthorized'') ''unauthenticated''), b))"

text \<open>\<open>NewBridge\<close> installs the check only when a key is set.\<close>

definition ServeHTTP ::
  "(Bridge \<Rightarrow> http_reply \<times> Bridge) \<Rightarrow> string \<Rightarrow> Bridge \<Rightarrow> http_reply \<times> Bridge" where
  "ServeHTTP handler auth b = (if apiKey b \<noteq> '''' then authMiddleware handler auth b else handler b)"

subsection \<open>Routing\<close>

datatype endpoint = EpListAgents | EpAgentOutput | EpListFloors | EpListProviders | EpSubmitTask | EpSubmitDAG
  | EpSendInput | EpCancelAgent | EpReassignAgent | EpDespawnAgent | EpSpawnAgent | EpRestartAdmin | EpEventStream

text \<open>The patterns, with \<open>None\<close> for the wildcard \<open>{id}\<close>.\<close>

definition routes :: "endpoint route_table" where
  "routes =
     [(''GET'', [Some ''api'', Some ''agents''], EpListAgents),
      (''GET'', [Some ''api'', Some ''agents'', None, Some ''output''], EpAgentOutput),
      (''GET'', [Some ''api'', Some ''floors''], EpListFloors),
      (''GET'', [Some ''api'', Some ''providers''], EpListProviders),
      (''POST'', [Some ''api'', Some ''tasks''], EpSubmitTask),
      (''POST'', [Some ''api'', Some ''dags''], EpSubmitDAG),
      (''POST'', [Some ''api'', Some ''agents'', None, Some ''input''], EpSendInput),
      (''POST'', [Some ''api'', Some ''agents'', None, Some ''cancel''], EpCancelAgent),
      (''POST'', [Some ''api'', Some ''agents'', None, Some ''reassign''], EpReassignAgent),
      (''POST'', [Some ''api'', Some ''agents'', None, Some ''despawn''], EpDespawnAgent),
      (''POST'', [Some ''api'', Some ''agents'', Some ''spawn''], EpSpawnAgent),
      (''POST'', [Some ''api'', Some ''admin'', Some ''restart''], EpRestartAdmin),
      (''GET'', [Some ''events'', Some ''stream''], EpEventStream)]"

subsection \<open>Requests\<close>

record HttpRequest =
  rqMethod :: string
  rqPath :: "string list"
  rqQuery :: "string \<Rightarrow> string"
  rqAuth :: string
  rqBody :: string

text \<open>A decoder answers None for a body that is no JSON of the type.\<close>

record HttpWorld =
  hwNow :: gtime
  hwOrd :: "string map_order"
  hwUuid :: string
  hwUuids :: "nat \<Rightarrow> string"
  hwExecID :: string
  hwIsDir :: "string \<Rightarrow> bool"
  hwTask :: "string \<Rightarrow> SubmitTaskRequest option"
  hwDag :: "string \<Rightarrow> SubmitDAGRequest option"
  hwInput :: "string \<Rightarrow> SendInputRequest option"
  hwReassign :: "string \<Rightarrow> ReassignAgentRequest option"
  hwSpawn :: "string \<Rightarrow> SpawnAgentRequest"

definition plain :: "response \<times> Bridge \<Rightarrow> http_reply \<times> Bridge" where
  "plain res = (Reply (fst res), snd res)"

text \<open>The cursor an event stream starts from.\<close>

definition sse_since :: "HttpRequest \<Rightarrow> string" where
  "sse_since rq = (if rqQuery rq ''since'' \<noteq> '''' then rqQuery rq ''since'' else ''0'')"

fun dispatch :: "HttpWorld \<Rightarrow> HttpRequest \<Rightarrow> endpoint \<Rightarrow> string \<Rightarrow> Bridge \<Rightarrow> http_reply \<times> Bridge" where
  "dispatch w rq EpListAgents a b = (Reply (handleListAgents (hwOrd w) b), b)"
| "dispatch w rq EpAgentOutput a b = plain (handleAgentOutput a (rqQuery rq ''lines'') (rqQuery rq ''screen'') b)"
| "dispatch w rq EpListFloors a b = plain (handleListFloors b)"
| "dispatch w rq EpListProviders a b = (Reply handleListProviders, b)"
| "dispatch w rq EpSubmitTask a b = plain (handleSubmitTask (hwUuid w) (hwTask w (rqBody rq)) b)"
| "dispatch w rq EpSubmitDAG a b =
     (case handleSubmitDAG (hwOrd w) (hwUuids w) (hwExecID w) (hwNow w) (hwDag w (rqBody rq)) b of
        (resp, started, b') \<Rightarrow> (ReplyRun resp started, b'))"
| "dispatch w rq EpSendInput a b = plain (handleSendInput a (hwInput w (rqBody rq)) b)"
| "dispatch w rq EpCancelAgent a b = plain (handleCancelAgent (hwNow w) a b)"
| "dispatch w rq EpReassignAgent a b = plain (handleReassignAgent (hwNow w) a (hwReassign w (rqBody rq)) b)"
| "dispatch w rq EpDespawnAgent a b = plain (handleDespawnAgent (hwNow w) a b)"
| "dispatch w rq EpSpawnAgent a b = plain (handleSpawnAgent (hwOrd w) (hwIsDir w) (hwSpawn w (rqBody rq)) b)"
| "dispatch w rq EpRestartAdmin a b = (ReplyRestart (fst (handleRestartAdmin b)) (snd (handleRestartAdmin b)), b)"
| "dispatch w rq EpEventStream a b = (ReplyStream (sse_since rq), b)"

text \<open>The mux answers itself what it cannot route.\<close>

definition mux_serve :: "HttpWorld \<Rightarrow> HttpRequest \<Rightarrow> Bridge \<Rightarrow> http_reply \<times> Bridge" where
  "mux_serve w rq b =
     (case mux_route routes (rqMethod rq) (rqPath rq) of
        NoPath \<Rightarrow> (Reply (404, NoBody), b)
      | NoMethod \<Rightarrow> (Reply (405, NoBody), b)
      | Routed ep a \<Rightarrow> dispatch w rq ep a b)"

definition serve :: "HttpWorld \<Rightarrow> HttpRequest \<Rightarrow> Bridge \<Rightarrow> http_reply \<times> Bridge" where
  "serve w rq b = ServeHTTP (mux_serve w rq) (rqAuth rq) b"

subsection \<open>What a request can touch\<close>

text \<open>The operations on the store that change an agent change the one they are asked about.\<close>

lemma store_agents_frame:
  "CompareAndSetAgentState a e n m = Inr m' \<Longrightarrow> x \<noteq> a \<Longrightarrow> agents m' x = agents m x"
  "ClearCurrentTask a m = Inr m' \<Longrightarrow> x \<noteq> a \<Longrightarrow> agents m' x = agents m x"
  "DeleteAgent a m = Inr m' \<Longrightarrow> x \<noteq> a \<Longrightarrow> agents m' x = agents m x"
  "EnqueueTaskWithMeta t p meta m = Inr m' \<Longrightarrow> agents m' = agents m"
  by (auto simp: CompareAndSetAgentState_def ClearCurrentTask_def DeleteAgent_def EnqueueTaskWithMeta_def Let_def
      split: option.splits if_splits)

lemma settleToIdle_frame: "x \<noteq> a \<Longrightarrow> agents (brStore (snd (settleToIdle a st b))) x = agents (brStore b) x"
  by (auto simp: settleToIdle_def store_agents_frame split: sum.split)

lemma handleCancelAgent_frame:
  assumes "x \<noteq> a"
  shows "agents (brStore (snd (handleCancelAgent now a b))) x = agents (brStore b) x"
proof (cases "GetAgentFields (brStore b) a")
  case (Inr r)
  show ?thesis
  proof (cases "ClearCurrentTask a (brStore b)")
    case Inr2: (Inr m)
    show ?thesis
      using settleToIdle_frame [OF assms, of "fState r" "set_store m b"] store_agents_frame(2) [OF Inr2 assms]
      by (auto simp: handleCancelAgent_def Inr Inr2 Let_def split: prod.split option.split)
  qed (simp add: handleCancelAgent_def Inr Let_def)
qed (simp add: handleCancelAgent_def)

lemma handleReassignAgent_frame:
  assumes "x \<noteq> a"
  shows "agents (brStore (snd (handleReassignAgent now a body b))) x = agents (brStore b) x"
proof (cases "GetAgentFields (brStore b) a")
  case (Inr r)
  let ?meta = "\<lambda>req. (case GetTaskMeta (brStore b) (fCurrentTaskID r) of Inr e \<Rightarrow>
    e\<lparr>mTier := TrimSpace (raTier req), mProvider := TrimSpace (raProvider req)\<rparr>)"
  let ?enq = "\<lambda>req. EnqueueTaskWithMeta (fCurrentTaskID r) (fCurrentTaskPriority r) (?meta req) (brStore b)"
  show ?thesis
  proof (cases "\<exists>req m1 m2. body = Some req \<and> ?enq req = Inr m1 \<and> ClearCurrentTask a m1 = Inr m2")
    case True
    then obtain req m1 m2 where q: "body = Some req" "?enq req = Inr m1" "ClearCurrentTask a m1 = Inr m2" by blast
    let ?b2 = "set_store m2 (set_store m1 b)"
    obtain ab b3 where s: "(if fState r \<noteq> AgentStateIdle then settleToIdle a (fState r) ?b2 else (None, ?b2)) = (ab, b3)"
      by fastforce
    have "agents m2 x = agents (brStore b) x"
      using store_agents_frame(2) [OF q(3) assms] store_agents_frame(4) [OF q(2)] by simp
    then have "agents (brStore b3) x = agents (brStore b) x"
      using s settleToIdle_frame [OF assms, of "fState r" ?b2] by (auto split: if_splits)
    then show ?thesis
      using q s by (auto simp: handleReassignAgent_def Inr GetTaskMeta_def Let_def split: option.split)
  next
    case False
    then show ?thesis
      by (auto simp: handleReassignAgent_def Inr GetTaskMeta_def Let_def store_agents_frame(4)
          split: option.split sum.split)
  qed
qed (simp add: handleReassignAgent_def)

lemma handleDespawnAgent_frame:
  assumes "x \<noteq> a"
  shows "agents (brStore (snd (handleDespawnAgent now a b))) x = agents (brStore b) x"
proof -
  have after: "agents (state_after m (f m)) x = agents m x" if "\<And>m'. f m = Inr m' \<Longrightarrow> agents m' x = agents m x" for f m
    using that by (cases "f m") simp_all
  have "agents (brStore (drop_task now a t b)) x = agents (brStore b) x" for t
    by (simp add: drop_task_def Let_def after store_agents_frame(2) [OF _ assms])
  moreover have "agents (brStore (remove_everywhere now a b')) x = agents (brStore b') x" for b'
    by (simp add: remove_everywhere_def Let_def after store_agents_frame(3) [OF _ assms])
  ultimately show ?thesis by (simp add: handleDespawnAgent_def Let_def split: sum.split)
qed

lemma submit_frames:
  "brSv (snd (handleSendInput a body b)) = brSv b"
  "agents (brStore (snd (handleSubmitTask uuid req b))) = agents (brStore b)"
  "brSv (snd (snd (handleSubmitDAG ord uuids e now dag b))) = brSv b"
  by (auto simp: handleSendInput_def handleSubmitTask_def handleSubmitDAG_def Let_def store_agents_frame(4)
      split: option.split sum.split prod.split)

text \<open>Reading changes the log of tmux calls at most.\<close>

lemma reading_frames:
  "snd (handleAgentOutput a ls scr b) = b\<lparr>brCalls := brCalls (snd (handleAgentOutput a ls scr b))\<rparr>"
  "snd (handleListFloors b) = b\<lparr>brCalls := brCalls (snd (handleListFloors b))\<rparr>"
  by (auto simp: handleAgentOutput_def handleListFloors_def Let_def split: option.split prod.split)

text \<open>Where a request is routed.\<close>

lemma mux_route_cases:
  assumes "mux_route routes meth segs = Routed ep a"
  shows "(meth \<in> {''GET'', ''HEAD''} \<and> ep \<in> {EpListAgents, EpAgentOutput, EpListFloors, EpListProviders, EpEventStream}) \<or>
    (meth = ''POST'' \<and> (ep \<in> {EpSubmitTask, EpSubmitDAG, EpRestartAdmin} \<or>
       ep = EpSpawnAgent \<and> segs = [''api'', ''agents'', ''spawn''] \<or>
       ep \<in> {EpSendInput, EpCancelAgent, EpReassignAgent, EpDespawnAgent} \<and> (\<exists>act. segs = [''api'', ''agents'', a, act])))"
proof -
  obtain m pat where r: "(m, pat, ep) \<in> set routes" "path_matches pat segs" "method_matches m meth" "a = path_id pat segs"
    by (rule mux_route_Routed [OF assms])
  show ?thesis using r(1) unfolding routes_def
    by (simp, elim disjE) (use r(2-4) in \<open>auto simp: method_matches_def path_matches_shape\<close>)
qed

subsection \<open>Requests are confined\<close>

lemma dispatch_confined:
  assumes "mux_route routes (rqMethod rq) (rqPath rq) = Routed ep a"
  shows "rqMethod rq \<noteq> ''POST'' \<Longrightarrow>
      snd (dispatch w rq ep a b) = b\<lparr>brCalls := brCalls (snd (dispatch w rq ep a b))\<rparr>"
    and "agents (brStore (snd (dispatch w rq ep a b))) x \<noteq> agents (brStore b) x \<Longrightarrow>
      rqMethod rq = ''POST'' \<and> (rqPath rq = [''api'', ''agents'', ''spawn''] \<or>
        (\<exists>act. rqPath rq = [''api'', ''agents'', x, act]))"
proof -
  have same: "b = b\<lparr>brCalls := brCalls b\<rparr>" by simp
  show "snd (dispatch w rq ep a b) = b\<lparr>brCalls := brCalls (snd (dispatch w rq ep a b))\<rparr>" if "rqMethod rq \<noteq> ''POST''"
    using mux_route_cases [OF assms] that reading_frames(1) [of a "rqQuery rq ''lines''" "rqQuery rq ''screen''" b]
      reading_frames(2) [of b]
    by (auto simp: plain_def)
  have frames: "agents (brStore (snd (dispatch w rq e a b))) x = agents (brStore b) x"
    if "x \<noteq> a \<or> e \<notin> {EpCancelAgent, EpReassignAgent, EpDespawnAgent}" "e \<noteq> EpSpawnAgent" for e
    using that reading_frames(1) [of a "rqQuery rq ''lines''" "rqQuery rq ''screen''" b, THEN arg_cong [of _ _ brSv]]
      reading_frames(2) [of b, THEN arg_cong [of _ _ brSv]]

    by (cases e) (auto simp: plain_def submit_frames handleCancelAgent_frame handleReassignAgent_frame
        handleDespawnAgent_frame case_prod_beta)
  show "rqMethod rq = ''POST'' \<and> (rqPath rq = [''api'', ''agents'', ''spawn''] \<or>
        (\<exists>act. rqPath rq = [''api'', ''agents'', x, act]))"
    if "agents (brStore (snd (dispatch w rq ep a b))) x \<noteq> agents (brStore b) x"
    using mux_route_cases [OF assms] frames [of ep] that by blast
qed

lemma bearer_token: "HasPrefix s p \<and> TrimPrefix s p = key \<longleftrightarrow> s = p @ key"
  by (auto simp: TrimPrefix_def HasPrefix_iff)

lemma serve_authorized: "rqAuth rq = ''Bearer '' @ apiKey b \<Longrightarrow> serve w rq b = mux_serve w rq b"
  using bearer_token [of "rqAuth rq" "''Bearer ''" "apiKey b"]
  by (simp add: serve_def ServeHTTP_def authMiddleware_def authorized_def)

text \<open>
  C18. A request touches only what it may. With an API key set, a request that does not carry exactly that
  key as its bearer token is answered 401 and changes nothing; a request that is not a POST changes
  nothing but the log of tmux calls; and the record of an agent changes only by a POST that spawns an
  agent or names this agent in its path.
\<close>

theorem api_requests_confined:
  assumes "serve w rq b = (reply, b')"
  shows "(apiKey b \<noteq> '''' \<and> rqAuth rq \<noteq> ''Bearer '' @ apiKey b \<longrightarrow> reply_status reply = 401 \<and> b' = b) \<and>
    (rqMethod rq \<noteq> ''POST'' \<longrightarrow> b' = b\<lparr>brCalls := brCalls b'\<rparr>) \<and>
    (agents (brStore b') x \<noteq> agents (brStore b) x \<longrightarrow>
       rqMethod rq = ''POST'' \<and> (rqPath rq = [''api'', ''agents'', ''spawn''] \<or>
         (\<exists>act. rqPath rq = [''api'', ''agents'', x, act])))"
proof -
  have token: "authorized b (rqAuth rq) \<longleftrightarrow> rqAuth rq = ''Bearer '' @ apiKey b"
    unfolding authorized_def by (rule bearer_token)
  have served: "reply_status reply = 401 \<and> b' = b \<or> (reply, b') = mux_serve w rq b \<and>
      (apiKey b \<noteq> '''' \<longrightarrow> rqAuth rq = ''Bearer '' @ apiKey b)"
    using assms by (auto simp: serve_def ServeHTTP_def authMiddleware_def token split: if_splits)
  show ?thesis
  proof (cases "reply_status reply = 401 \<and> b' = b")
    case False
    then have m: "(reply, b') = mux_serve w rq b" and k: "apiKey b \<noteq> '''' \<longrightarrow> rqAuth rq = ''Bearer '' @ apiKey b"
      using served by auto
    show ?thesis
    proof (cases "mux_route routes (rqMethod rq) (rqPath rq)")
      case (Routed ep a)
      have "b' = snd (dispatch w rq ep a b)" using m by (simp add: mux_serve_def Routed) (metis snd_conv)
      then show ?thesis using dispatch_confined [OF Routed, where w = w and b = b] k by auto
    qed (use m k in \<open>auto simp: mux_serve_def\<close>)
  qed simp
qed

definition demo_world :: HttpWorld where
  "demo_world = \<lparr>hwNow = 5, hwOrd = sorted_list_of_set, hwUuid = ''u1'', hwUuids = (\<lambda>i. ''n'' @ dec i), hwExecID = ''e1'',
     hwIsDir = (\<lambda>_. True), hwTask = (\<lambda>_. None), hwDag = (\<lambda>_. None), hwInput = (\<lambda>_. None),
     hwReassign = (\<lambda>_. None),
     hwSpawn = (\<lambda>_. \<lparr>srKind = '''', srName = '''', srTier = '''', srFloor = None, srWorkdir = ''''\<rparr>)\<rparr>"

definition demo_request :: "string \<Rightarrow> HttpRequest" where
  "demo_request auth = \<lparr>rqMethod = ''POST'', rqPath = [''api'', ''agents'', ''a1'', ''despawn''], rqQuery = (\<lambda>_. ''''),
     rqAuth = auth, rqBody = ''''\<rparr>"

theorem api_requests_confined_witness:
  "reply_status (fst (serve demo_world (demo_request ''Bearer guess'') (WithAPIKey ''key'' (demo_bridge demo_busy)))) = 401 \<and>
   snd (serve demo_world (demo_request ''Bearer guess'') (WithAPIKey ''key'' (demo_bridge demo_busy))) =
     WithAPIKey ''key'' (demo_bridge demo_busy)"
proof -
  let ?b = "WithAPIKey ''key'' (demo_bridge demo_busy)"
  obtain reply b' where s: "serve demo_world (demo_request ''Bearer guess'') ?b = (reply, b')" by fastforce
  have "apiKey ?b \<noteq> ''''" "rqAuth (demo_request ''Bearer guess'') \<noteq> ''Bearer '' @ apiKey ?b"
    by (simp_all add: WithAPIKey_def demo_request_def)
  then show ?thesis using api_requests_confined [OF s, of "''a1''"] s by simp
qed

lemma routing_examples:
  "mux_route routes ''POST'' [''api'', ''agents'', ''spawn''] = Routed EpSpawnAgent ''''"
  "mux_route routes ''GET'' [''api'', ''agents'', ''spawn''] = NoMethod"
  "mux_route routes ''HEAD'' [''api'', ''agents'', ''spawn'', ''output''] = Routed EpAgentOutput ''spawn''"
  "mux_route routes ''POST'' [''api'', ''agents'', '''', ''cancel''] = NoPath"
  by (simp_all add: mux_route_def routes_def method_matches_def)

end
