(* ===== verification/Ipc.thy ===== *)
theory Ipc
  imports Supervisor_Tasks Dag_Executor
begin

section \<open>internal/ipc: the gRPC service\<close>

text \<open>
  The handlers of \<open>OrchestratorServer\<close> (internal/ipc/handlers.go) over the supervisor, its store and
  the DAG engine, and the state conversions of convert.go. A handler returns the gRPC status or the
  response, and the server; identifiers (\<open>uuid.New\<close>), the clock, \<open>proto.Marshal\<close> and the outcome of
  a stream's sends are arguments. A status keeps its format, the arguments and the error it prints.
\<close>

subsection \<open>Conversions\<close>

text \<open>A proto enum is open: any other number can arrive.\<close>

datatype pbAgentState = AGENT_STATE_UNSPECIFIED | AGENT_STATE_IDLE | AGENT_STATE_ASSIGNED
  | AGENT_STATE_WORKING | AGENT_STATE_REPORTING | AGENT_STATE_OTHER int

definition AgentStateToProto :: "string \<Rightarrow> pbAgentState" where
  "AgentStateToProto s =
     (if s = StateIdle then AGENT_STATE_IDLE
      else if s = StateAssigned then AGENT_STATE_ASSIGNED
      else if s = StateWorking then AGENT_STATE_WORKING
      else if s = StateReporting then AGENT_STATE_REPORTING
      else AGENT_STATE_UNSPECIFIED)"

definition AgentStateFromProto :: "pbAgentState \<Rightarrow> string" where
  "AgentStateFromProto s =
     (case s of
        AGENT_STATE_ASSIGNED \<Rightarrow> StateAssigned
      | AGENT_STATE_WORKING \<Rightarrow> StateWorking
      | AGENT_STATE_REPORTING \<Rightarrow> StateReporting
      | _ \<Rightarrow> StateIdle)"

subsection \<open>The server\<close>

datatype rpc_code = InvalidArgument | NotFound | FailedPrecondition | Internal

datatype rpc_status = RpcStatus (rpc_code_of: rpc_code) string "string list" "goerror option"

text \<open>The runs the engine has started: identifier, levels, state.\<close>

record OrchestratorServer =
  osSupervisor :: Supervisor
  osTracker :: StatusTracker
  osRuns :: "(string \<times> string list list \<times> Run) list"

definition rpc_RegisterAgent ::
  "string \<Rightarrow> gtime \<Rightarrow> OrchestratorServer \<Rightarrow> (rpc_status + string) \<times> OrchestratorServer" where
  "rpc_RegisterAgent uuid now s =
     (case RegisterAgent now uuid (osSupervisor s) of
        (Some err, sv) \<Rightarrow> (Inl (RpcStatus Internal ''register agent: %v'' [] (Some err)), s\<lparr>osSupervisor := sv\<rparr>)
      | (None, sv) \<Rightarrow> (Inr uuid, s\<lparr>osSupervisor := sv\<rparr>))"

definition rpc_SubmitTask ::
  "TaskSpec option \<Rightarrow> OrchestratorServer \<Rightarrow> (rpc_status + string) \<times> OrchestratorServer" where
  "rpc_SubmitTask req s =
     (case req of
        None \<Rightarrow> (Inl (RpcStatus InvalidArgument ''task spec is required'' [] None), s)
      | Some task \<Rightarrow>
          if tsTaskId task = '''' then (Inl (RpcStatus InvalidArgument ''task_id is required'' [] None), s)
          else (case EnqueueTask (tsTaskId task) (tsPriority task) (store (osSupervisor s)) of
                  Inl err \<Rightarrow> (Inl (RpcStatus Internal ''enqueue task: %v'' [] (Some err)), s)
                | Inr m \<Rightarrow> (Inr (tsTaskId task), s\<lparr>osSupervisor := (osSupervisor s)\<lparr>store := m\<rparr>\<rparr>)))"

definition rpc_GetAgentState :: "string \<Rightarrow> OrchestratorServer \<Rightarrow> rpc_status + (string \<times> pbAgentState)" where
  "rpc_GetAgentState agentId s =
     (if agentId = '''' then Inl (RpcStatus InvalidArgument ''agent_id is required'' [] None)
      else (case GetAgentState (store (osSupervisor s)) agentId of
              Inl err \<Rightarrow> Inl (RpcStatus NotFound ''agent %s: %v'' [agentId] (Some err))
            | Inr rawState \<Rightarrow>
              (case ParseAgentState rawState of
                 Inl err \<Rightarrow> Inl (RpcStatus Internal ''parse state for %s: %v'' [agentId] (Some err))
               | Inr parsed \<Rightarrow> Inr (agentId, AgentStateToProto parsed))))"

text \<open>\<open>StartWork\<close> and \<open>ReportOutput\<close> map the supervisor's errors alike, under their own name.\<close>

definition transition_status :: "string \<Rightarrow> string \<Rightarrow> goerror \<Rightarrow> rpc_status" where
  "transition_status what agentId err =
     (if as_InvalidTransition err \<noteq> None then RpcStatus FailedPrecondition (what @ '': %v'') [] (Some err)
      else if errors_Is err ErrAgentNotFound then RpcStatus NotFound ''agent %s not found'' [agentId] None
      else RpcStatus Internal (what @ '': %v'') [] (Some err))"

definition rpc_StartWork ::
  "gtime \<Rightarrow> string \<Rightarrow> OrchestratorServer \<Rightarrow> rpc_status option \<times> OrchestratorServer" where
  "rpc_StartWork now agentId s =
     (if agentId = '''' then (Some (RpcStatus InvalidArgument ''agent_id is required'' [] None), s)
      else (case StartWork now agentId (osSupervisor s) of
              (Some err, sv) \<Rightarrow> (Some (transition_status ''start work'' agentId err), s\<lparr>osSupervisor := sv\<rparr>)
            | (None, sv) \<Rightarrow> (None, s\<lparr>osSupervisor := sv\<rparr>)))"

definition rpc_ReportOutput ::
  "gtime \<Rightarrow> string \<Rightarrow> OrchestratorServer \<Rightarrow> rpc_status option \<times> OrchestratorServer" where
  "rpc_ReportOutput now agentId s =
     (if agentId = '''' then (Some (RpcStatus InvalidArgument ''agent_id is required'' [] None), s)
      else (case ReportOutput now agentId (osSupervisor s) of
              (Some err, sv) \<Rightarrow> (Some (transition_status ''report output'' agentId err), s\<lparr>osSupervisor := sv\<rparr>)
            | (None, sv) \<Rightarrow> (None, s\<lparr>osSupervisor := sv\<rparr>)))"

definition rpc_CompleteAgent ::
  "gtime \<Rightarrow> string \<Rightarrow> string \<Rightarrow> OrchestratorServer \<Rightarrow> rpc_status option \<times> OrchestratorServer" where
  "rpc_CompleteAgent now agentId taskId s =
     (if agentId = '''' then (Some (RpcStatus InvalidArgument ''agent_id is required'' [] None), s)
      else (case CompleteAgent now agentId taskId (osSupervisor s) of
              (Some err, sv) \<Rightarrow>
                (Some (RpcStatus Internal ''complete agent %s: %v'' [agentId] (Some err)), s\<lparr>osSupervisor := sv\<rparr>)
            | (None, sv) \<Rightarrow> (None, s\<lparr>osSupervisor := sv\<rparr>)))"

definition rpc_Heartbeat ::
  "gtime \<Rightarrow> string \<Rightarrow> OrchestratorServer \<Rightarrow> rpc_status option \<times> OrchestratorServer" where
  "rpc_Heartbeat now agentId s =
     (if agentId = '''' then (Some (RpcStatus InvalidArgument ''agent_id is required'' [] None), s)
      else (case Heartbeat now agentId (osSupervisor s) of
              (Some err, sv) \<Rightarrow>
                (Some (if errors_Is err ErrAgentNotFound
                       then RpcStatus NotFound ''agent %s not found'' [agentId] None
                       else RpcStatus Internal ''heartbeat: %v'' [] (Some err)), s\<lparr>osSupervisor := sv\<rparr>)
            | (None, sv) \<Rightarrow> (None, s\<lparr>osSupervisor := sv\<rparr>)))"

definition invalid_dag_error :: "goerror \<Rightarrow> bool" where
  "invalid_dag_error err \<longleftrightarrow> errors_Is err ErrEmptyDAG \<or> errors_Is err ErrCycleDetected \<or>
     errors_Is err ErrNodeNotFound \<or> errors_Is err ErrDuplicateNode \<or> errors_Is err ErrMissingTaskSpec"

definition rpc_SubmitDAG ::
  "string map_order \<Rightarrow> string \<Rightarrow> gtime \<Rightarrow> DAGSpec option \<Rightarrow> OrchestratorServer \<Rightarrow>
   (rpc_status + string) \<times> OrchestratorServer" where
  "rpc_SubmitDAG ord uuid now spec s =
     (if spec = None then (Inl (RpcStatus InvalidArgument ''dag spec is required'' [] None), s)
      else (case Execute ord uuid now spec (osTracker s) of
              Inl err \<Rightarrow>
                (Inl (if invalid_dag_error err then RpcStatus InvalidArgument ''invalid dag: %v'' [] (Some err)
                      else RpcStatus Internal ''execute dag: %v'' [] (Some err)), s)
            | Inr (levels, run) \<Rightarrow>
                (Inr uuid, s\<lparr>osTracker := rTracker run, osRuns := osRuns s @ [(uuid, levels, run)]\<rparr>)))"

definition rpc_GetDAGStatus ::
  "string map_order \<Rightarrow> string \<Rightarrow> OrchestratorServer \<Rightarrow> rpc_status + GetDAGStatusResponse" where
  "rpc_GetDAGStatus ord execId s =
     (if execId = '''' then Inl (RpcStatus InvalidArgument ''dag_execution_id is required'' [] None)
      else (case Status ord (osTracker s) execId of
              Inl err \<Rightarrow> Inl (if errors_Is err ErrExecutionNotFound
                              then RpcStatus NotFound ''execution %s not found'' [execId] None
                              else RpcStatus Internal ''get dag status: %v'' [] (Some err))
            | Inr resp \<Rightarrow> Inr resp))"

subsection \<open>StreamOutput\<close>

datatype OutputType = OUTPUT_TYPE_UNSPECIFIED | OUTPUT_TYPE_STDOUT | OUTPUT_TYPE_STDERR
  | OUTPUT_TYPE_TOOL_RESULT | OUTPUT_TYPE_FINAL | OUTPUT_TYPE_OTHER int

record OutputChunk =
  ocAgentId :: string
  ocTaskId :: string
  ocType :: OutputType
  ocPayload :: string
  ocTimestamp :: int
  ocSequence :: int

record OutputAck =
  oaChunkId :: string
  oaReceived :: bool

text \<open>What \<open>stream.Recv\<close> returns, and how the call ends (\<open>StreamOpen\<close>: it is still waiting).\<close>

datatype stream_recv = RecvChunk OutputChunk | RecvEOF | RecvErr goerror

datatype stream_end = StreamNil | StreamErr goerror | StreamStatus rpc_status | StreamOpen

definition publish_chunk ::
  "(OutputChunk \<Rightarrow> goerror + string) \<Rightarrow> gtime \<Rightarrow> OutputChunk \<Rightarrow> OrchestratorServer \<Rightarrow> OrchestratorServer" where
  "publish_chunk marshal now chunk s =
     (case marshal chunk of
        Inl _ \<Rightarrow> s
      | Inr serialized \<Rightarrow>
          let ts = (if ocTimestamp chunk = 0 then UnixMilli now else ocTimestamp chunk);
              ev = \<lparr>eType = ''output_chunk'', eAgentID = ocAgentId chunk, eTaskID = ocTaskId chunk,
                    eTimestamp = ts, ePayload = serialized\<rparr>
          in s\<lparr>osSupervisor := publish now ev (osSupervisor s)\<rparr>)"

definition chunk_id :: "(int \<Rightarrow> string) \<Rightarrow> OutputChunk \<Rightarrow> string" where
  "chunk_id show_int chunk = ocAgentId chunk @ '':'' @ ocTaskId chunk @ '':'' @ show_int (ocSequence chunk)"

text \<open>The loop over what arrives: time, message, and the outcome of the send of the ack.\<close>

fun StreamOutput ::
  "(OutputChunk \<Rightarrow> goerror + string) \<Rightarrow> (int \<Rightarrow> string) \<Rightarrow> (gtime \<times> stream_recv \<times> goerror option) list \<Rightarrow>
   OrchestratorServer \<Rightarrow> stream_end \<times> OutputAck list \<times> OrchestratorServer" where
  "StreamOutput marshal show_int [] s = (StreamOpen, [], s)"
| "StreamOutput marshal show_int ((now, RecvEOF, sent) # rest) s = (StreamNil, [], s)"
| "StreamOutput marshal show_int ((now, RecvErr err, sent) # rest) s = (StreamErr err, [], s)"
| "StreamOutput marshal show_int ((now, RecvChunk chunk, sent) # rest) s =
     (let s1 = publish_chunk marshal now chunk s;
          (failed, s2) =
            (if ocType chunk = OUTPUT_TYPE_FINAL
             then let (err, sv) = ReportOutput now (ocAgentId chunk) (osSupervisor s1)
                  in (err, s1\<lparr>osSupervisor := sv\<rparr>)
             else (None, s1))
      in case failed of
           Some err \<Rightarrow>
             (StreamStatus (RpcStatus Internal ''ReportOutput failed for agent %s: %v'' [ocAgentId chunk] (Some err)), [], s2)
         | None \<Rightarrow>
             (case sent of
                Some err \<Rightarrow> (StreamErr err, [], s2)
              | None \<Rightarrow>
                  let (fin, acks, s3) = StreamOutput marshal show_int rest s2
                  in (fin, \<lparr>oaChunkId = chunk_id show_int chunk, oaReceived = True\<rparr> # acks, s3)))"

subsection \<open>Properties\<close>

text \<open>
  The state conversions are inverse to each other: every agent state survives the way to the
  client and back, every specified enum value the way back and forth, and only the four states are
  sent as something else than unspecified.
\<close>

theorem agent_state_roundtrip:
  "agent_states = {s. AgentStateToProto s \<noteq> AGENT_STATE_UNSPECIFIED} \<and>
   {s \<in> agent_states. AgentStateFromProto (AgentStateToProto s) = s} = agent_states \<and>
   {p. AgentStateToProto (AgentStateFromProto p) = p} =
     {AGENT_STATE_IDLE, AGENT_STATE_ASSIGNED, AGENT_STATE_WORKING, AGENT_STATE_REPORTING}"
proof (intro conjI)
  have distinct: "StateIdle \<noteq> StateAssigned" "StateIdle \<noteq> StateWorking" "StateIdle \<noteq> StateReporting"
    "StateAssigned \<noteq> StateWorking" "StateAssigned \<noteq> StateReporting" "StateWorking \<noteq> StateReporting"
    by (simp_all add: state_defs)
  note neq = distinct distinct [symmetric]
  show "agent_states = {s. AgentStateToProto s \<noteq> AGENT_STATE_UNSPECIFIED}"
    by (auto simp: agent_states_def AgentStateToProto_def neq)
  show "{s \<in> agent_states. AgentStateFromProto (AgentStateToProto s) = s} = agent_states"
    by (auto simp: agent_states_def AgentStateToProto_def AgentStateFromProto_def neq)
  have "AgentStateToProto (AgentStateFromProto p) = p \<longleftrightarrow>
      p \<in> {AGENT_STATE_IDLE, AGENT_STATE_ASSIGNED, AGENT_STATE_WORKING, AGENT_STATE_REPORTING}" for p
    by (cases p) (simp_all add: AgentStateToProto_def AgentStateFromProto_def neq)
  then show "{p. AgentStateToProto (AgentStateFromProto p) = p} =
     {AGENT_STATE_IDLE, AGENT_STATE_ASSIGNED, AGENT_STATE_WORKING, AGENT_STATE_REPORTING}" by blast
qed

text \<open>
  C34. Every agent state the orchestrator stores is one of the four states of the machine: starting with
  an empty store, in every interleaving of the handlers, a client that asks for the state of an
  agent gets that state, or \<open>InvalidArgument\<close> for an empty name, or \<open>NotFound\<close> for an unknown agent,
  and never \<open>Internal\<close> or an unspecified state.
\<close>

theorem stored_states_typed:
  assumes "sys_reach (start_system (NewSupervisor NewMockStore pol [])) S" and "osSupervisor s = sysSv S"
  shows "fState ` ran (agents (store (sysSv S))) \<subseteq> agent_states \<and>
    (case rpc_GetAgentState a s of
       Inl st \<Rightarrow> rpc_code_of st = (if a = '''' then InvalidArgument else NotFound) \<and>
         (a = '''' \<or> agents (store (sysSv S)) a = None)
     | Inr (b, p) \<Rightarrow> b = a \<and> p \<noteq> AGENT_STATE_UNSPECIFIED \<and>
         map_option fState (agents (store (sysSv S)) a) = Some (AgentStateFromProto p))"
proof -
  have "sys_inv (start_system (NewSupervisor NewMockStore pol []))"
    by (simp add: sys_inv_def start_system_def NewSupervisor_def known_tasks_def sv_ok_def
        healthy_def queue_named_def states_ok_def NewMockStore_def queue_items_def)
  with assms(1) have "sys_inv S" by induction (auto intro: sys_step_inv)
  then have ok: "states_ok (store (sysSv S))" by (simp add: sys_inv_def sv_ok_def)
  have conv: "AgentStateToProto st \<noteq> AGENT_STATE_UNSPECIFIED \<and> AgentStateFromProto (AgentStateToProto st) = st"
    if "st \<in> agent_states" for st
    using that by (auto simp: agent_states_def AgentStateToProto_def AgentStateFromProto_def state_defs)
  have typed: "fState ` ran (agents (store (sysSv S))) \<subseteq> agent_states"
    using ok by (auto simp: states_ok_def)
  moreover have "fState r \<in> agent_states" if "agents (store (sysSv S)) a = Some r" for r
    using typed that by (auto simp: ran_def)
  ultimately show ?thesis
    using conv assms(2)
    by (auto simp: rpc_GetAgentState_def GetAgentState_def ParseAgentState_ok split: option.splits sum.splits)
       (metis ParseAgentState_ok sum.distinct(1))+
qed

lemma stored_states_typed_witness:
  "rpc_code_of (projl (rpc_GetAgentState ''ghost''
     \<lparr>osSupervisor = NewSupervisor NewMockStore (NewRestartPolicy []) [], osTracker = NewStatusTracker, osRuns = []\<rparr>)) = NotFound"
proof -
  let ?s = "\<lparr>osSupervisor = NewSupervisor NewMockStore (NewRestartPolicy []) [], osTracker = NewStatusTracker, osRuns = []\<rparr>"
  let ?S = "start_system (NewSupervisor NewMockStore (NewRestartPolicy []) [])"
  have "osSupervisor ?s = sysSv ?S" by (simp add: start_system_def)
  from stored_states_typed [OF sys_start this, of "''ghost''"] show ?thesis
    by (cases "rpc_GetAgentState ''ghost'' ?s")
       (auto simp: start_system_def NewSupervisor_def NewMockStore_def split: prod.splits)
qed

lemma transition_refused:
  assumes "healthy (store sv)" and "states_ok (store sv)"
  shows "agents (store sv) a = None \<Longrightarrow> Machine_ApplyEvent (store sv) a ev = Inl ErrAgentNotFound"
    and "agents (store sv) a = Some r \<Longrightarrow> ValidTransition (fState r) ev = Inl e \<Longrightarrow>
      Machine_ApplyEvent (store sv) a ev = Inl e"
  using assms states_okD [OF assms(2)]
  by (auto simp: Machine_ApplyEvent_def ApplyEvent_def GetAgentState_def ParseAgentState_def agent_states_def
      split: sum.split)

lemma ValidTransition_start:
  assumes "s \<in> agent_states"
  shows "ValidTransition s EventWorkStarted =
     (if s = StateAssigned then Inr StateWorking else Inl (InvalidTransitionError s EventWorkStarted))"
    and "ValidTransition s EventOutputReady =
     (if s = StateWorking then Inr StateReporting else Inl (InvalidTransitionError s EventOutputReady))"
  using assms
  by (auto simp: ValidTransition_def transitionTable_def agent_states_def state_defs event_defs)

lemma apply_and_publish_agents:
  assumes "healthy (store sv)" and "states_ok (store sv)"
  shows "fst (apply_and_publish now a ev sv) =
      (case agents (store sv) a of
         None \<Rightarrow> Some ErrAgentNotFound
       | Some r \<Rightarrow> (case ValidTransition (fState r) ev of Inl e \<Rightarrow> Some e | Inr t \<Rightarrow> None))"
    and "agents (store (snd (apply_and_publish now a ev sv))) =
      (case agents (store sv) a of
         None \<Rightarrow> agents (store sv)
       | Some r \<Rightarrow> (case ValidTransition (fState r) ev of
           Inl e \<Rightarrow> agents (store sv)
         | Inr t \<Rightarrow> (agents (store sv))(a \<mapsto> r\<lparr>fState := t\<rparr>)))"
  using transition_refused [OF assms] Machine_healthy [OF assms(1) _ states_okD [OF assms(2)]]
  by (auto simp: apply_and_publish_def split: option.splits sum.splits)

text \<open>
  The status codes of \<open>StartWork\<close> and \<open>ReportOutput\<close> say exactly what happened: \<open>NotFound\<close> for an
  unknown agent, \<open>FailedPrecondition\<close> for one in another state than the transition needs, both
  without any change; no error exactly when the agent was in that state, and then it has moved on
  and nothing else about the agents has changed.
\<close>

theorem rpc_transition_codes:
  assumes "healthy (store (osSupervisor s))" and "states_ok (store (osSupervisor s))"
    and "valid_agent_id a" and "(call, source, target) \<in>
      {(rpc_StartWork, StateAssigned, StateWorking), (rpc_ReportOutput, StateWorking, StateReporting)}"
  shows "agents (store (osSupervisor (snd (call now a s)))) =
      (case agents (store (osSupervisor s)) a of
         Some r \<Rightarrow> if fState r = source then (agents (store (osSupervisor s)))(a \<mapsto> r\<lparr>fState := target\<rparr>)
                  else agents (store (osSupervisor s))
       | None \<Rightarrow> agents (store (osSupervisor s))) \<and>
    map_option rpc_code_of (fst (call now a s)) =
      (case agents (store (osSupervisor s)) a of
         Some r \<Rightarrow> if fState r = source then None else Some FailedPrecondition
       | None \<Rightarrow> Some NotFound)"
proof -
  note A = apply_and_publish_agents [OF assms(1,2), of now a]
  have a: "a \<noteq> ''''" using assms(3) by (auto simp: valid_agent_id_def)
  have r: "fState r \<in> agent_states" if "agents (store (osSupervisor s)) a = Some r" for r
    using states_okD [OF assms(2) that] .
  have codes: "rpc_code_of (transition_status w a (InvalidTransitionError x y)) = FailedPrecondition"
    "rpc_code_of (transition_status w a ErrAgentNotFound) = NotFound" for w x y
    by (simp_all add: transition_status_def)
  show ?thesis
  proof (cases "call = rpc_StartWork \<and> source = StateAssigned \<and> target = StateWorking")
    case True
    then show ?thesis
      using A [of EventWorkStarted] a assms(3) r
      by (cases "agents (store (osSupervisor s)) a";
          cases "apply_and_publish now a EventWorkStarted (osSupervisor s)")
         (auto simp: rpc_StartWork_def StartWork_def codes ValidTransition_start split: option.splits if_splits)
  next
    case False
    then have "call = rpc_ReportOutput" "source = StateWorking" "target = StateReporting" using assms(4) by auto
    then show ?thesis
      using A [of EventOutputReady] a assms(3) r
      by (cases "agents (store (osSupervisor s)) a";
          cases "apply_and_publish now a EventOutputReady (osSupervisor s)")
         (auto simp: rpc_ReportOutput_def ReportOutput_def codes ValidTransition_start split: option.splits if_splits)
  qed
qed

definition demo_server :: OrchestratorServer where
  "demo_server = \<lparr>osSupervisor = demo_busy, osTracker = NewStatusTracker, osRuns = []\<rparr>"

lemma rpc_transition_codes_witness:
  "fst (rpc_ReportOutput 0 ''a1'' demo_server) = None \<and>
   map_option rpc_code_of (fst (rpc_StartWork 0 ''a1'' demo_server)) = Some FailedPrecondition"
proof -
  have ok: "healthy (store (osSupervisor demo_server))" "states_ok (store (osSupervisor demo_server))"
    "valid_agent_id ''a1''"
    using demo_busy_facts
    by (simp_all add: demo_server_def states_ok_def demo_busy_def demo_agent_def agent_states_def valid_agent_id_def)
  have a1: "agents (store (osSupervisor demo_server)) ''a1'' = Some (demo_agent StateWorking)"
    "fState (demo_agent StateWorking) = StateWorking" "StateWorking \<noteq> StateAssigned"
    by (simp_all add: demo_server_def demo_busy_def demo_agent_def state_defs)
  have report: "map_option rpc_code_of (fst (rpc_ReportOutput 0 ''a1'' demo_server)) = None"
    using rpc_transition_codes [OF ok, of rpc_ReportOutput StateWorking StateReporting 0] a1 by simp
  have start: "map_option rpc_code_of (fst (rpc_StartWork 0 ''a1'' demo_server)) = Some FailedPrecondition"
    using rpc_transition_codes [OF ok, of rpc_StartWork StateAssigned StateWorking 0] a1 by simp
  show ?thesis using report start by simp
qed

text \<open>The chunks that arrive before the stream ends or fails.\<close>

fun received_chunks :: "(gtime \<times> stream_recv \<times> goerror option) list \<Rightarrow> OutputChunk list" where
  "received_chunks ((now, RecvChunk chunk, sent) # rest) = chunk # received_chunks rest"
| "received_chunks _ = []"

lemma stream_acks:
  "StreamOutput marshal show_int items s = (fin, acks, s') \<Longrightarrow>
    \<exists>k \<le> length (received_chunks items).
      acks = map (\<lambda>c. \<lparr>oaChunkId = chunk_id show_int c, oaReceived = True\<rparr>) (take k (received_chunks items)) \<and>
      (fin = StreamNil \<or> fin = StreamOpen \<longrightarrow> k = length (received_chunks items)) \<and>
      (\<forall>st. fin = StreamStatus st \<longrightarrow> k < length (received_chunks items) \<and> rpc_code_of st = Internal \<and>
         ocType (received_chunks items ! k) = OUTPUT_TYPE_FINAL)"
proof (induction marshal show_int items s arbitrary: fin acks s' rule: StreamOutput.induct)
  case (4 marshal show_int now chunk sent rest s)
  let ?s1 = "publish_chunk marshal now chunk s"
  obtain failed s2 where f: "(if ocType chunk = OUTPUT_TYPE_FINAL
      then let (err, sv) = ReportOutput now (ocAgentId chunk) (osSupervisor ?s1) in (err, ?s1\<lparr>osSupervisor := sv\<rparr>)
      else (None, ?s1)) = (failed, s2)" by fastforce
  show ?case
  proof (cases "failed = None \<and> sent = None")
    case True
    obtain fin1 acks1 s3 where rest: "StreamOutput marshal show_int rest s2 = (fin1, acks1, s3)"
      by (cases "StreamOutput marshal show_int rest s2")
    have res: "fin = fin1" "acks = \<lparr>oaChunkId = chunk_id show_int chunk, oaReceived = True\<rparr> # acks1"
      using "4.prems" True rest by (simp_all add: f Let_def)
    have "\<exists>k \<le> length (received_chunks rest).
        acks1 = map (\<lambda>c. \<lparr>oaChunkId = chunk_id show_int c, oaReceived = True\<rparr>) (take k (received_chunks rest)) \<and>
        (fin1 = StreamNil \<or> fin1 = StreamOpen \<longrightarrow> k = length (received_chunks rest)) \<and>
        (\<forall>st. fin1 = StreamStatus st \<longrightarrow> k < length (received_chunks rest) \<and> rpc_code_of st = Internal \<and>
           ocType (received_chunks rest ! k) = OUTPUT_TYPE_FINAL)"
      using "4.IH" [OF refl f [symmetric] refl _ _ rest] True by simp
    then obtain k where "k \<le> length (received_chunks rest)"
      "acks1 = map (\<lambda>c. \<lparr>oaChunkId = chunk_id show_int c, oaReceived = True\<rparr>) (take k (received_chunks rest))"
      "fin1 = StreamNil \<or> fin1 = StreamOpen \<longrightarrow> k = length (received_chunks rest)"
      "\<forall>st. fin1 = StreamStatus st \<longrightarrow> k < length (received_chunks rest) \<and> rpc_code_of st = Internal \<and>
         ocType (received_chunks rest ! k) = OUTPUT_TYPE_FINAL"
      by (elim exE conjE) (rule that)
    then show ?thesis using res by (intro exI [of _ "Suc k"]) auto
  next
    case False
    then have "acks = []" and "fin \<noteq> StreamNil" and "fin \<noteq> StreamOpen"
      and "\<And>st. fin = StreamStatus st \<Longrightarrow> rpc_code_of st = Internal \<and> failed \<noteq> None"
      using "4.prems" by (auto simp: f Let_def split: option.splits)
    then show ?thesis using f by (intro exI [of _ 0]) (auto split: if_splits)
  qed
qed (auto intro: exI [of _ 0])


definition demo_chunk :: "OutputType \<Rightarrow> OutputChunk" where
  "demo_chunk ty = \<lparr>ocAgentId = ''a1'', ocTaskId = ''t'', ocType = ty, ocPayload = ''x'', ocTimestamp = 0,
     ocSequence = 1\<rparr>"




end
