(* ===== verification/Supervisor_Loops.thy ===== *)
theory Supervisor_Loops
  imports Supervisor_Tasks
begin

section \<open>The supervisor's loops: queued tasks are assigned, lost ones recovered\<close>

text \<open>
  \<open>Run\<close> starts three goroutines, each of which runs one handler at every tick of its ticker until
  the context is done. A run is the list of the ticks in the order in which their handlers run;
  cancelling the context ends the list. (The interleaving of other calls with the phases of one
  assignment is the step relation \<open>sys_step\<close>; here a handler runs at once.) The lemmas and properties
  say what the loops achieve: every tick of the assignment loop that finds a task and a free agent
  brings them together, so a queue is worked off, and the task of an agent that fell silent comes back.
\<close>

subsection \<open>Ticks\<close>

datatype loop_tick = HeartbeatTick gtime | AssignTick gtime | ReapTick gtime

definition heartbeatLoop :: "string map_order \<Rightarrow> gtime \<Rightarrow> Supervisor \<Rightarrow> Supervisor" where
  "heartbeatLoop ord now sv = checkHeartbeats ord now sv"

definition taskAssignLoop :: "string map_order \<Rightarrow> gtime \<Rightarrow> Supervisor \<Rightarrow> Supervisor" where
  "taskAssignLoop ord now sv = tryAssignTask ord now sv"

definition reapLoop :: "string map_order \<Rightarrow> gtime \<Rightarrow> Supervisor \<Rightarrow> Supervisor" where
  "reapLoop ord now sv = reapOrphanedAgents ord now sv"

text \<open>A non-positive interval disables the reaper.\<close>

fun run_tick :: "string map_order \<Rightarrow> Supervisor \<Rightarrow> loop_tick \<Rightarrow> Supervisor" where
  "run_tick ord sv (HeartbeatTick now) = heartbeatLoop ord now sv"
| "run_tick ord sv (AssignTick now) = taskAssignLoop ord now sv"
| "run_tick ord sv (ReapTick now) = (if reapInterval sv > 0 then reapLoop ord now sv else sv)"

definition supervisor_Run :: "string map_order \<Rightarrow> loop_tick list \<Rightarrow> Supervisor \<Rightarrow> Supervisor" where
  "supervisor_Run ord ticks sv = foldl (run_tick ord) sv ticks"

lemma supervisor_Run_simps [simp]:
  "supervisor_Run ord [] sv = sv" "supervisor_Run ord (tk # ticks) sv = supervisor_Run ord ticks (run_tick ord sv tk)"
  "supervisor_Run ord (xs @ ys) sv = supervisor_Run ord ys (supervisor_Run ord xs sv)"
  by (simp_all add: supervisor_Run_def)

subsection \<open>One assignment\<close>

text \<open>A supervisor whose loop is not backing off and knows the mutex of every agent.\<close>

definition loop_ok :: "Supervisor \<Rightarrow> bool" where
  "loop_ok sv \<longleftrightarrow> sv_ok sv \<and> nextAssignAttempt sv = 0 \<and> dom (agents (store sv)) \<subseteq> agentMu sv"

lemma assign_locked_frame:
  assumes "healthy (store sv)" and "agents (store sv) a = Some r" and "fState r = StateIdle"
  shows "agentCooldown (assign_locked now a t p sv) = agentCooldown sv"
    and "circuitOpen (assign_locked now a t p sv) = circuitOpen sv"
    and "nextAssignAttempt (assign_locked now a t p sv) = 0"
proof -
  have m: "Machine_ApplyEvent (store sv) a EventTaskAssigned =
      Inr (\<lparr>snAgentID = a, snPreviousState = StateIdle, snState = StateAssigned,
            snEvent = EventTaskAssigned\<rparr>, (store sv)\<lparr>agents := (agents (store sv))(a \<mapsto> r\<lparr>fState := StateAssigned\<rparr>)\<rparr>)"
    using Machine_healthy [OF assms(1,2), of EventTaskAssigned StateAssigned] assms(3)
    by (simp add: agent_states_def)
  show "agentCooldown (assign_locked now a t p sv) = agentCooldown sv"
    "circuitOpen (assign_locked now a t p sv) = circuitOpen sv"
    "nextAssignAttempt (assign_locked now a t p sv) = 0"
    using assms(1) by (simp_all add: assign_locked_def m healthy_ops Let_def publish_def resetAssignBackoff_def)
qed

lemma tick_assigns:
  assumes "fair_order ord" and "loop_ok sv" and "queue (store sv) = i # q" and "assignable now sv b"
  obtains a r where "assignable now sv a" and "agents (store sv) a = Some r"
    and "agents (store (tryAssignTask ord now sv)) = (agents (store sv))(a \<mapsto>
      r\<lparr>fState := StateAssigned, fCurrentTaskID := qTaskID i, fCurrentTaskPriority := qPriority i\<rparr>)"
    and "queue (store (tryAssignTask ord now sv)) = q" and "loop_ok (tryAssignTask ord now sv)"
    and "agentCooldown (tryAssignTask ord now sv) = agentCooldown sv"
    and "circuitOpen (tryAssignTask ord now sv) = circuitOpen sv"
proof -
  have ok: "healthy (store sv)" "states_ok (store sv)" "finite (dom (agents (store sv)))" "queue_named (store sv)"
    "nextAssignAttempt sv = 0" "dom (agents (store sv)) \<subseteq> agentMu sv"
    using assms(2) by (simp_all add: loop_ok_def sv_ok_def)
  let ?sv1 = "sv\<lparr>store := (store sv)\<lparr>queue := q\<rparr>\<rparr>"
  have same: "assignable now ?sv1 = assignable now sv"
    by (simp add: assignable_def circuit_is_open_def in_cooldown_def fun_eq_iff)
  have "findIdleAgent ord now ?sv1 \<noteq> None"
    using findIdleAgent_None [OF assms(1), of ?sv1 now] ok(3) assms(4) same by auto
  then obtain a where a: "findIdleAgent ord now ?sv1 = Some a" by auto
  then have asg: "assignable now sv a" using findIdleAgent_Some same by metis
  then obtain r where r: "agents (store sv) a = Some r" "fState r = StateIdle" by (auto simp: assignable_def)
  have "DequeueTask (store sv) = Inr (qTaskID i, qPriority i, (store sv)\<lparr>queue := q\<rparr>)"
    using assms(3) ok(1) by (simp add: DequeueTask_def healthy_def)
  moreover have "a \<in> agentMu sv" using ok(6) r(1) by auto
  ultimately have t: "tryAssignTask ord now sv = assign_locked now a (qTaskID i) (qPriority i) ?sv1"
    using ok(5) a by (simp add: tryAssignTask_def assign_backing_off_def IsZero_def getAgentMutex_def Let_def)
  have h1: "healthy (store ?sv1)" and r1: "agents (store ?sv1) a = Some r" using ok(1) r by simp_all
  note A = assign_locked_idle [OF h1 r1 r(2), of now "qTaskID i" "qPriority i"]
    and F = assign_locked_frame [OF h1 r1 r(2), of now "qTaskID i" "qPriority i"]
  have ne: "qTaskID i \<noteq> ''''" and sv1: "sv_ok ?sv1"
    using ok assms(3) by (simp_all add: queue_named_def sv_ok_def states_ok_def)
  have "loop_ok (tryAssignTask ord now sv)"
    unfolding loop_ok_def t using assign_locked_tasks(2) [OF sv1 ne] F(3) A(1,4) ok(6) r(1) by auto
  then show ?thesis using that [OF asg r(1)] A(1,2) F(1,2) unfolding t by simp
qed

text \<open>Who is free stays free, until it is the one the task is given to.\<close>

lemma assignable_later: "assignable now sv a \<Longrightarrow> now \<le> later \<Longrightarrow> assignable later sv a"
  by (auto simp: assignable_def in_cooldown_def split: option.splits)

lemma assignable_after_tick:
  assumes "agents (store sv') = (agents (store sv))(a \<mapsto> r')" and "fState r' = StateAssigned"
    and "agentCooldown sv' = agentCooldown sv" and "circuitOpen sv' = circuitOpen sv"
  shows "{b. assignable now sv' b} = {b. assignable now sv b} - {a}"
  using assms by (auto simp: assignable_def in_cooldown_def circuit_is_open_def state_defs)

lemma finite_assignable: "loop_ok sv \<Longrightarrow> finite {a. assignable now sv a}"
  by (rule finite_subset [of _ "dom (agents (store sv))"]) (auto simp: assignable_def loop_ok_def sv_ok_def)

text \<open>
  Ticks of the assignment loop give the first tasks of the queue, in its order, to as many different
  idle agents, and touch no other agent.
\<close>

lemma assign_ticks:
  assumes "fair_order ord" and "loop_ok sv" and "length nows \<le> length (queue (store sv))"
    and "sorted (t0 # nows)" and "length nows \<le> card {a. assignable t0 sv a}"
  shows "\<exists>ags. length ags = length nows \<and> distinct ags \<and>
    (\<forall>a \<in> set ags. \<exists>r. agents (store sv) a = Some r \<and> fState r = StateIdle) \<and>
    (\<forall>k < length nows. \<exists>r. agents (store (supervisor_Run ord (map AssignTick nows) sv)) (ags ! k) = Some r \<and>
       fState r = StateAssigned \<and> fCurrentTaskID r = qTaskID (queue (store sv) ! k) \<and>
       fCurrentTaskPriority r = qPriority (queue (store sv) ! k)) \<and>
    queue (store (supervisor_Run ord (map AssignTick nows) sv)) = drop (length nows) (queue (store sv)) \<and>
    (\<forall>a. a \<notin> set ags \<longrightarrow> agents (store (supervisor_Run ord (map AssignTick nows) sv)) a = agents (store sv) a)"
  using assms(2-5)
proof (induction nows arbitrary: sv t0)
  case (Cons now nows)
  obtain i q where q: "queue (store sv) = i # q" using Cons.prems(2) by (cases "queue (store sv)") auto
  have "{a. assignable t0 sv a} \<noteq> {}" using Cons.prems(4) by (auto simp del: Collect_empty_eq)
  then obtain b0 where "assignable t0 sv b0" by blast
  then have b0: "assignable now sv b0" using assignable_later Cons.prems(3) by auto
  let ?sv = "tryAssignTask ord now sv"
  obtain b rb where b: "assignable now sv b" "agents (store sv) b = Some rb"
    "agents (store ?sv) = (agents (store sv))(b \<mapsto>
      rb\<lparr>fState := StateAssigned, fCurrentTaskID := qTaskID i, fCurrentTaskPriority := qPriority i\<rparr>)"
    "queue (store ?sv) = q" "loop_ok ?sv" "agentCooldown ?sv = agentCooldown sv" "circuitOpen ?sv = circuitOpen sv"
    by (rule tick_assigns [OF assms(1) Cons.prems(1) q b0])
  let ?rb = "rb\<lparr>fState := StateAssigned, fCurrentTaskID := qTaskID i, fCurrentTaskPriority := qPriority i\<rparr>"
  let ?fin = "supervisor_Run ord (map AssignTick nows) ?sv"
  have fin: "supervisor_Run ord (map AssignTick (now # nows)) sv = ?fin" by (simp add: taskAssignLoop_def)
  have idle: "fState rb = StateIdle" using b(1,2) by (simp add: assignable_def)
  have "{x. assignable t0 sv x} \<subseteq> {x. assignable now sv x}" using assignable_later Cons.prems(3) by auto
  then have "card {x. assignable t0 sv x} \<le> card {x. assignable now sv x}"
    by (rule card_mono [OF finite_assignable [OF Cons.prems(1)]])
  moreover have "{x. assignable now ?sv x} = {x. assignable now sv x} - {b}"
    by (rule assignable_after_tick [OF b(3) _ b(6,7)]) simp
  ultimately have av: "length nows \<le> card {x. assignable now ?sv x}"
    using Cons.prems(4) b(1) by (simp add: card_Diff_singleton)
  have s: "sorted (now # nows)" and l: "length nows \<le> length (queue (store ?sv))"
    using Cons.prems(2,3) by (simp_all add: q b(4))
  from Cons.IH [OF b(5) l s av] obtain ags where A: "length ags = length nows" "distinct ags"
    "\<forall>a \<in> set ags. \<exists>r. agents (store ?sv) a = Some r \<and> fState r = StateIdle"
    "\<forall>k < length nows. \<exists>r. agents (store ?fin) (ags ! k) = Some r \<and>
       fState r = StateAssigned \<and> fCurrentTaskID r = qTaskID (q ! k) \<and> fCurrentTaskPriority r = qPriority (q ! k)"
    "queue (store ?fin) = drop (length nows) q"
    "\<forall>a. a \<notin> set ags \<longrightarrow> agents (store ?fin) a = agents (store ?sv) a" unfolding b(4) by blast
  have new: "b \<notin> set ags" using bspec [OF A(3), of b] b(3) by (auto simp: state_defs)
  then have eb: "agents (store ?fin) b = Some ?rb" using A(6) b(3) by simp
  have was_idle: "\<forall>a \<in> set (b # ags). \<exists>r. agents (store sv) a = Some r \<and> fState r = StateIdle"
    using A(3) b(2,3) idle new by (auto split: if_splits)
  have given: "\<exists>r. agents (store ?fin) ((b # ags) ! k) = Some r \<and> fState r = StateAssigned \<and>
      fCurrentTaskID r = qTaskID ((i # q) ! k) \<and> fCurrentTaskPriority r = qPriority ((i # q) ! k)"
    if "k < length (now # nows)" for k
    using that eb A(4) by (cases k) auto
  have frame: "a \<notin> set (b # ags) \<longrightarrow> agents (store ?fin) a = agents (store sv) a" for a
    using A(6) b(3) by auto
  show ?case
    unfolding fin q by (rule exI [of _ "b # ags"]) (use A(1,2,5) new was_idle given frame in auto)
qed simp

subsection \<open>Recovering a lost task\<close>

text \<open>A sweep of the heartbeat loop puts the task of every stale agent back into the queue.\<close>

lemma crashAgent_queue_mono:
  assumes "healthy (store sv)" and "states_ok (store sv)"
  shows "set (queue (store sv)) \<subseteq> set (queue (store (crashAgent now a sv)))"
proof (cases "a \<in> agentMu sv \<and> agents (store sv) a \<noteq> None")
  case True
  then obtain r where r: "agents (store sv) a = Some r" by auto
  show ?thesis
  proof (cases "fState r = StateIdle")
    case True
    then show ?thesis using crashAgent_idle [OF assms(1) _ r] \<open>a \<in> agentMu sv \<and> _\<close> by (simp add: drop_cooldown_def)
  next
    case False
    then show ?thesis
      using crashAgent_working(2) [OF assms(1) _ r states_okD [OF assms(2) r]] \<open>a \<in> agentMu sv \<and> _\<close>
      by (auto simp: requeue_def)
  qed
next
  case False
  then show ?thesis using crashAgent_unregistered crashAgent_unknown [OF assms(1)] by auto
qed

lemma heartbeat_check_queue_mono:
  assumes "healthy (store sv)" and "states_ok (store sv)"
  shows "set (queue (store sv)) \<subseteq> set (queue (store (heartbeat_check now sv a)))"
  using crashAgent_queue_mono [OF assms, of now a]
  by (auto simp: heartbeat_check_def split: sum.splits)

lemma heartbeat_sweep_queue_mono:
  assumes "healthy (store sv)" and "states_ok (store sv)"
  shows "set (queue (store sv)) \<subseteq> set (queue (store (foldl (heartbeat_check now) sv ids)))"
  using assms
proof (induction ids arbitrary: sv)
  case (Cons x ids)
  note E = heartbeat_check_effect [OF Cons.prems, of now x]
  show ?case
    using Cons.IH [OF E(2,3)] heartbeat_check_queue_mono [OF Cons.prems, of now x] by auto
qed simp

lemma heartbeat_sweep_requeues:
  assumes "healthy (store sv)" and "states_ok (store sv)" and "distinct ids" and "a \<in> set ids" and "a \<in> agentMu sv"
    and "agents (store sv) a = Some r" and "fState r \<noteq> StateIdle" and "fCurrentTaskID r \<noteq> ''''" and "is_stale now sv r"
  shows "\<lparr>qTaskID = fCurrentTaskID r, qPriority = fCurrentTaskPriority r\<rparr> \<in>
    set (queue (store (foldl (heartbeat_check now) sv ids)))"
  using assms
proof (induction ids arbitrary: sv)
  case (Cons x ids)
  note E = heartbeat_check_effect [OF Cons.prems(1,2), of now x]
  show ?case
  proof (cases "x = a")
    case True
    have "heartbeat_check now sv a = crashAgent now a sv"
      using Cons.prems(6,7,9) by (simp add: heartbeat_check_def healthy_ops(1) [OF Cons.prems(1)])
    then have "\<lparr>qTaskID = fCurrentTaskID r, qPriority = fCurrentTaskPriority r\<rparr> \<in>
        set (queue (store (heartbeat_check now sv x)))"
      using crashAgent_working(2) [OF Cons.prems(1,5,6) states_okD [OF Cons.prems(2,6)] Cons.prems(7), of now]
        Cons.prems(8) True by (simp add: requeue_def)
    then show ?thesis using heartbeat_sweep_queue_mono [OF E(2,3), of now ids] by auto
  next
    case False
    then show ?thesis using Cons.IH [OF E(2,3)] Cons.prems E by (simp add: E(5))
  qed
qed simp

lemma heartbeat_sweep_ok:
  "healthy (store sv) \<Longrightarrow> states_ok (store sv) \<Longrightarrow>
    healthy (store (foldl (heartbeat_check now) sv ids)) \<and> states_ok (store (foldl (heartbeat_check now) sv ids))"
  by (induction ids arbitrary: sv) (simp_all add: heartbeat_check_effect)

text \<open>The sweep leaves the assignment loop as it was.\<close>

lemma crashAgent_assign_attempt [simp]:
  "nextAssignAttempt (crashAgent now a sv) = nextAssignAttempt sv"
  by (simp add: crashAgent_def Let_def enqueue_logged_def apply_decision_def publish_def destroy_session_def
      set_cooldown_def drop_cooldown_def split: sum.splits option.splits prod.splits)

lemma heartbeat_sweep_frame:
  assumes "healthy (store sv)" and "states_ok (store sv)"
  shows "nextAssignAttempt (foldl (heartbeat_check now) sv ids) = nextAssignAttempt sv \<and>
    agentMu (foldl (heartbeat_check now) sv ids) = agentMu sv \<and>
    dom (agents (store (foldl (heartbeat_check now) sv ids))) = dom (agents (store sv))"
  using assms
proof (induction ids arbitrary: sv)
  case (Cons x ids)
  note E = heartbeat_check_effect [OF Cons.prems, of now x]
  have "nextAssignAttempt (heartbeat_check now sv x) = nextAssignAttempt sv"
    by (simp add: heartbeat_check_def split: sum.splits)
  moreover have "dom (agents (store (heartbeat_check now sv x))) = dom (agents (store sv))"
    using E(1) by (auto split: if_splits)
  ultimately show ?case using Cons.IH [OF E(2,3)] E(4) by simp
qed simp

lemma heartbeat_tick_ok: "loop_ok sv \<Longrightarrow> loop_ok (checkHeartbeats ord now sv)"
  using checkHeartbeats_tasks [of sv ord now] heartbeat_sweep_frame [of sv now "ord (dom (agents (store sv)))"]
  by (auto simp: loop_ok_def sv_ok_def checkHeartbeats_foldl)

lemma heartbeat_tick_requeues:
  assumes "fair_order ord" and "loop_ok sv" and "agents (store sv) a = Some r" and "fState r \<noteq> StateIdle"
    and "fCurrentTaskID r \<noteq> ''''" and "is_stale now sv r"
  shows "\<lparr>qTaskID = fCurrentTaskID r, qPriority = fCurrentTaskPriority r\<rparr> \<in> set (queue (store (checkHeartbeats ord now sv)))"
proof -
  have ok: "healthy (store sv)" "states_ok (store sv)" "finite (dom (agents (store sv)))" "a \<in> agentMu sv"
    using assms(2,3) by (auto simp: loop_ok_def sv_ok_def)
  have "distinct (ord (dom (agents (store sv))))" and "a \<in> set (ord (dom (agents (store sv))))"
    using assms(1,3) ok(3) by auto
  then show ?thesis
    unfolding checkHeartbeats_foldl using heartbeat_sweep_requeues [OF ok(1,2) _ _ ok(4) assms(3-6)] by blast
qed

subsection \<open>What the loops achieve\<close>

text \<open>
  A queue is worked off in the order of priority. With at least as many idle, cooled-down agents of
  closed circuit as there are ticks, and no more ticks than queued tasks, the ticks of the assignment
  loop give the first tasks of the queue, in its order, to as many different agents, each then in state
  assigned with the task and its priority; the other tasks stay queued and no other agent is touched.
\<close>

theorem assignment_progress:
  assumes "fair_order ord" and "loop_ok sv" and "length nows \<le> length (queue (store sv))"
    and "sorted (t0 # nows)" and "length nows \<le> card {a. assignable t0 sv a}"
    and "sv' = supervisor_Run ord (map AssignTick nows) sv"
  shows "\<exists>ags. length ags = length nows \<and> distinct ags \<and>
    (\<forall>k < length nows. \<exists>r. agents (store sv') (ags ! k) = Some r \<and> fState r = StateAssigned \<and>
       fCurrentTaskID r = qTaskID (queue (store sv) ! k) \<and>
       fCurrentTaskPriority r = qPriority (queue (store sv) ! k)) \<and>
    queue (store sv') = drop (length nows) (queue (store sv)) \<and>
    (\<forall>a. a \<notin> set ags \<longrightarrow> agents (store sv') a = agents (store sv) a)"
  using assign_ticks [OF assms(1-5)] unfolding assms(6) by blast

text \<open>
  C13. A task is not lost with its agent. When an agent holding a task has sent no heartbeat for longer than the
  threshold, the next tick of the heartbeat loop and as many ticks of the assignment loop as there are
  then tasks in the queue bring the task to an agent in state assigned, with its priority, if enough
  agents are free after the sweep.
\<close>

theorem lost_task_reassigned:
  assumes "fair_order ord" and "loop_ok sv" and "agents (store sv) a = Some r" and "fState r \<noteq> StateIdle"
    and "fCurrentTaskID r \<noteq> ''''" and "is_stale hb sv r" and "sv1 = supervisor_Run ord [HeartbeatTick hb] sv"
    and "length nows = length (queue (store sv1))" and "sorted (t0 # nows)"
    and "length nows \<le> card {b. assignable t0 sv1 b}"
  shows "\<exists>b r'. agents (store (supervisor_Run ord (HeartbeatTick hb # map AssignTick nows) sv)) b = Some r' \<and>
    fState r' = StateAssigned \<and> fCurrentTaskID r' = fCurrentTaskID r \<and>
    fCurrentTaskPriority r' = fCurrentTaskPriority r"
proof -
  have sv1: "sv1 = checkHeartbeats ord hb sv" by (simp add: assms(7) heartbeatLoop_def)
  obtain k where k: "k < length nows"
    "queue (store sv1) ! k = \<lparr>qTaskID = fCurrentTaskID r, qPriority = fCurrentTaskPriority r\<rparr>"
    using heartbeat_tick_requeues [OF assms(1-6)] unfolding sv1 [symmetric] assms(8) in_set_conv_nth by blast
  have "loop_ok sv1" unfolding sv1 by (rule heartbeat_tick_ok [OF assms(2)])
  from assign_ticks [OF assms(1) this _ assms(9,10)] assms(8) k show ?thesis
    by (fastforce simp: assms(7))
qed

text \<open>Three agents: one that fell silent with its task, and two that are idle.\<close>

definition demo_trio :: Supervisor where
  "demo_trio = demo_supervisor\<lparr>store := NewMockStore\<lparr>agents :=
     [''a1'' \<mapsto> demo_agent StateWorking,
      ''a2'' \<mapsto> (demo_agent StateIdle)\<lparr>fCurrentTaskID := '''', fLastHeartbeat := 3600000\<rparr>,
      ''a3'' \<mapsto> (demo_agent StateIdle)\<lparr>fCurrentTaskID := '''', fLastHeartbeat := 3600000\<rparr>],
     queue := [\<lparr>qTaskID = ''t9'', qPriority = 4\<rparr>]\<rparr>, agentMu := {''a1'', ''a2'', ''a3''}\<rparr>"

lemma demo_trio_ok: "loop_ok demo_trio" "agents (store demo_trio) ''a1'' = Some (demo_agent StateWorking)"
  by (auto simp: loop_ok_def sv_ok_def demo_trio_def healthy_def NewMockStore_def states_ok_def queue_named_def
      demo_agent_def agent_states_def demo_supervisor_def NewSupervisor_def)

lemma demo_trio_queue: "queue (store demo_trio) = [\<lparr>qTaskID = ''t9'', qPriority = 4\<rparr>]"
  by (simp add: demo_trio_def)

lemma demo_trio_free: "{''a2'', ''a3''} \<subseteq> {a. assignable now demo_trio a}"
  by (simp add: assignable_def in_cooldown_def circuit_is_open_def demo_trio_def demo_supervisor_def
      NewSupervisor_def demo_agent_def)

theorem assignment_progress_witness:
  "queue (store (supervisor_Run sorted_list_of_set [AssignTick 7] demo_trio)) = []"
proof -
  have "card {''a2'', ''a3''} \<le> card {a. assignable 7 demo_trio a}"
    by (rule card_mono [OF finite_assignable [OF demo_trio_ok(1)] demo_trio_free])
  then have c: "length [7] \<le> card {a. assignable 7 demo_trio a}" by simp
  have q: "length [7] \<le> length (queue (store demo_trio))" by (simp add: demo_trio_def)
  show ?thesis
    using assignment_progress [OF fair_order_sorted demo_trio_ok(1) q _ c refl] demo_trio_queue by auto
qed

theorem lost_task_reassigned_witness:
  "\<exists>b r. agents (store (supervisor_Run sorted_list_of_set [HeartbeatTick (unix_epoch + Hour),
      AssignTick (unix_epoch + Hour), AssignTick (unix_epoch + 2 * Hour)] demo_trio)) b = Some (r :: AgentFields) \<and>
     fState r = StateAssigned \<and> fCurrentTaskID r = ''t1'' \<and> fCurrentTaskPriority r = 2"
proof -
  let ?hb = "unix_epoch + Hour" and ?sv = demo_trio
  let ?sv1 = "supervisor_Run sorted_list_of_set [HeartbeatTick ?hb] ?sv"
  have stale: "is_stale ?hb ?sv (demo_agent StateWorking)"
    by (simp add: is_stale_def UnixMilli_def Milliseconds_def defaultStaleThreshold_def Second_def Millisecond_def
        Hour_def demo_agent_def demo_trio_def demo_supervisor_def NewSupervisor_def)
  have h: "healthy (store ?sv)" and mu: "''a1'' \<in> agentMu ?sv"
    using demo_trio_ok by (auto simp: loop_ok_def sv_ok_def)
  have working: "fState (demo_agent StateWorking) \<in> agent_states" "fState (demo_agent StateWorking) \<noteq> StateIdle"
    by (rule demo_busy_facts)+
  note crash = crashAgent_working [OF h mu demo_trio_ok(2) working, of ?hb]
  let ?c = "crashAgent ?hb ''a1'' ?sv"
  have fresh: "\<not> is_stale ?hb s r" if "fLastHeartbeat r = 3600000" "staleThreshold s = defaultStaleThreshold" for s and r :: AgentFields
    using that by (simp add: is_stale_def UnixMilli_def Milliseconds_def defaultStaleThreshold_def Second_def
        Millisecond_def Hour_def)
  have th: "staleThreshold ?sv = defaultStaleThreshold"
    by (simp add: demo_trio_def demo_supervisor_def NewSupervisor_def)
  have a23: "heartbeat_check ?hb ?c b = ?c" if "b = ''a2'' \<or> b = ''a3''" for b
    using that crash(1,3) fresh th
    by (auto simp: heartbeat_check_def healthy_ops demo_trio_def demo_agent_def)
  have a1: "heartbeat_check ?hb ?sv ''a1'' = ?c"
    using stale working demo_trio_ok(2) by (simp add: heartbeat_check_def healthy_ops(1) [OF h])
  have "dom (agents (store ?sv)) = {''a1'', ''a2'', ''a3''}" by (auto simp: demo_trio_def)
  then have sv1: "?sv1 = ?c" by (simp add: heartbeatLoop_def checkHeartbeats_foldl a1 a23)
  have "length (queue (store ?sv1)) = 2"
    unfolding sv1 crash(2) by (simp add: requeue_def demo_agent_def demo_trio_def)
  then have len: "length [?hb, unix_epoch + 2 * Hour] = length (queue (store ?sv1))" by simp
  have sub: "{''a2'', ''a3''} \<subseteq> {b. assignable ?hb ?sv1 b}"
    unfolding sv1 using demo_trio_free [of ?hb] crash(1,6,7)
    by (auto simp: assignable_def in_cooldown_def circuit_is_open_def Let_def)
  have "loop_ok ?sv1" using heartbeat_tick_ok [OF demo_trio_ok(1)] by (simp add: heartbeatLoop_def)
  then have "card {''a2'', ''a3''} \<le> card {b. assignable ?hb ?sv1 b}"
    by (rule card_mono [OF finite_assignable sub])
  then have c: "length [?hb, unix_epoch + 2 * Hour] \<le> card {b. assignable ?hb ?sv1 b}" by simp
  have t: "fCurrentTaskID (demo_agent StateWorking) \<noteq> ''''" by (simp add: demo_agent_def)
  have s: "sorted [?hb, ?hb, unix_epoch + 2 * Hour]" by (simp add: Hour_def Second_def Millisecond_def)
  from lost_task_reassigned [OF fair_order_sorted demo_trio_ok(1,2) working(2) t stale refl len s c]
  show ?thesis by (simp add: demo_agent_def)
qed

end
