(* ===== verification/Worker.thy ===== *)
theory Worker
  imports Ipc Terminal Supervisor_Loops
begin

section \<open>internal/cliagent and internal/simagent: the workers\<close>

text \<open>
  The in-process workers: an agent is registered, polls its state over the gRPC service and works on
  what it is assigned, by typing the prompt into its tmux session (interactive), by running the CLI
  once (headless) or by pretending (simulated). A worker is one goroutine: what it does between two
  turns of its loop is a sequence of calls, modelled as a function on the server and the log of
  tmux calls; times, what the CLI writes and whether streams open are arguments.
\<close>

subsection \<open>Prompts\<close>

text \<open>
  \<open>strings.Map\<close> visits the runes: an invalid byte becomes the replacement character, a control
  character or DEL a space, everything else stays. The cap then cuts bytes.
\<close>

function (sequential) map_runes :: "string \<Rightarrow> string" where
  "map_runes [] = []"
| "map_runes (c # s) =
     (if rune_len (c # s) = 0 then rune_error @ map_runes s
      else if rune_len (c # s) = 1
      then (if of_char c < (32 :: nat) \<or> of_char c = (127 :: nat) then CHR '' '' else c) # map_runes s
      else take (rune_len (c # s)) (c # s) @ map_runes (drop (rune_len (c # s)) (c # s)))"
  by pat_completeness auto
termination by (relation "measure length") auto

definition sanitizePrompt :: "string \<Rightarrow> string" where
  "sanitizePrompt prompt =
     (let out = map_runes prompt
      in if length out > MaxCommandLen - 1 then take (MaxCommandLen - 1) out else out)"

definition fallback_prompt :: string where
  "fallback_prompt = ''Say hello and describe what kind of agent you are in one sentence.''"

text \<open>\<open>promptFn\<close> of \<open>main\<close>: identifier, prompt, error.\<close>

definition promptFn :: "MockStore \<Rightarrow> string \<Rightarrow> string \<times> string \<times> goerror option" where
  "promptFn m agentID =
     (case GetAgentFields m agentID of
        Inl err \<Rightarrow> ('''', '''', Some err)
      | Inr flds \<Rightarrow>
          (case GetTaskMeta m (fCurrentTaskID flds) of
             Inl err \<Rightarrow> (fCurrentTaskID flds, '''', Some err)
           | Inr meta \<Rightarrow> (fCurrentTaskID flds, mDescription meta, None)))"

text \<open>The task and the prompt a worker goes on with.\<close>

definition task_prompt :: "MockStore \<Rightarrow> string \<Rightarrow> string \<times> string" where
  "task_prompt m agentID =
     (let (taskID, prompt, err) = promptFn m agentID
      in (taskID, if err \<noteq> None \<or> prompt = '''' then fallback_prompt else prompt))"

subsection \<open>Kinds of agents\<close>

definition cliBinaries :: "string \<rightharpoonup> string" where
  "cliBinaries = [''claude'' \<mapsto> ''claude'', ''codex'' \<mapsto> ''codex'', ''opencode'' \<mapsto> ''opencode'', ''pi'' \<mapsto> ''pi'']"

definition interactiveCommands :: "string \<rightharpoonup> string" where
  "interactiveCommands = [''claude'' \<mapsto> ''claude'', ''codex'' \<mapsto> ''codex'', ''opencode'' \<mapsto> ''opencode'', ''pi'' \<mapsto> ''pi'']"

definition cliCommands :: "string \<Rightarrow> string \<Rightarrow> string list option" where
  "cliCommands kind prompt =
     (if kind = ''claude'' then Some [''claude'', ''-p'', prompt, ''--output-format'', ''text'']
      else if kind = ''codex'' then Some [''codex'', ''exec'', ''--skip-git-repo-check'', prompt]
      else if kind = ''opencode'' then Some [''opencode'', ''run'', prompt]
      else if kind = ''pi'' then Some [''pi'', ''-p'', prompt]
      else None)"

definition Supported :: "string \<Rightarrow> bool" where
  "Supported kind \<longleftrightarrow> cliBinaries kind \<noteq> None"

subsection \<open>Starting the CLI in the session\<close>

definition sessionWaitTries :: nat where
  "sessionWaitTries = 10"

text \<open>\<open>cancelled i\<close>: the context ends during the wait after try \<open>i\<close>.\<close>

fun wait_ready ::
  "tmux \<Rightarrow> string \<Rightarrow> (nat \<Rightarrow> bool) \<Rightarrow> nat \<Rightarrow> nat \<Rightarrow> string list list \<Rightarrow> bool \<times> string list list" where
  "wait_ready env session cancelled i 0 calls = (False, calls)"
| "wait_ready env session cancelled i (Suc n) calls =
     (case tmux_CaptureOutput env session 1 calls of
        (Inr _, calls') \<Rightarrow> (True, calls')
      | (Inl _, calls') \<Rightarrow>
          if cancelled i then (False, calls') else wait_ready env session cancelled (Suc i) n calls')"

text \<open>\<open>quote\<close> is Go's \<open>%q\<close>.\<close>

definition launch_command :: "(string \<Rightarrow> string) \<Rightarrow> string \<Rightarrow> string \<Rightarrow> string" where
  "launch_command quote workdir bin = ''cd '' @ quote workdir @ '' && clear && exec '' @ bin"

definition launchInteractive ::
  "tmux \<Rightarrow> (string \<Rightarrow> string) \<Rightarrow> string \<Rightarrow> string \<Rightarrow> string \<Rightarrow> (nat \<Rightarrow> bool) \<Rightarrow> string list list \<Rightarrow>
   bool \<times> string list list" where
  "launchInteractive env quote session kind workdir cancelled calls =
     (case interactiveCommands kind of
        None \<Rightarrow> (False, calls)
      | Some bin \<Rightarrow>
          let (ready, calls1) = wait_ready env session cancelled 0 sessionWaitTries calls
          in if \<not> ready then (False, calls1)
             else (case tmux_SendCommand env session (launch_command quote workdir bin) calls1 of
                     (Some err, calls2) \<Rightarrow> (False, calls2)
                   | (None, calls2) \<Rightarrow> (True, calls2)))"

subsection \<open>Waiting for the CLI to settle\<close>

definition settleMinWait :: duration where
  "settleMinWait = 15 * Second"

text \<open>What wakes the loop: a tick (with the time since the start), the deadline, the context.\<close>

datatype settle_event = SettleTick duration | SettleDeadline | SettleCancelled

text \<open>None: still watching.\<close>

fun settle_loop ::
  "tmux \<Rightarrow> string \<Rightarrow> string \<Rightarrow> bool \<Rightarrow> settle_event list \<Rightarrow> string list list \<Rightarrow> string option \<times> string list list" where
  "settle_loop env session prev have_prev [] calls = (None, calls)"
| "settle_loop env session prev have_prev (SettleCancelled # es) calls = (Some prev, calls)"
| "settle_loop env session prev have_prev (SettleDeadline # es) calls = (Some prev, calls)"
| "settle_loop env session prev have_prev (SettleTick since # es) calls =
     (case tmux_CaptureOutput env session 50 calls of
        (Inl _, calls') \<Rightarrow> settle_loop env session prev have_prev es calls'
      | (Inr snap, calls') \<Rightarrow>
          if have_prev \<and> snap = prev \<and> since \<ge> settleMinWait then (Some snap, calls')
          else settle_loop env session snap True es calls')"

definition settleWatch ::
  "tmux \<Rightarrow> string \<Rightarrow> settle_event list \<Rightarrow> string list list \<Rightarrow> string option \<times> string list list" where
  "settleWatch env session es calls = settle_loop env session '''' False es calls"

subsection \<open>Working on a task\<close>

text \<open>The outside of a worker: proto encoding, number and error printing.\<close>

record WorkerEnv =
  weMarshal :: "OutputChunk \<Rightarrow> goerror + string"
  weShow :: "int \<Rightarrow> string"
  weErr :: "goerror \<Rightarrow> string"
  weStream :: bool

definition stdout_chunk :: "string \<Rightarrow> string \<Rightarrow> gtime \<Rightarrow> int \<Rightarrow> string \<Rightarrow> OutputChunk" where
  "stdout_chunk agentID taskID now seq text =
     \<lparr>ocAgentId = agentID, ocTaskId = taskID, ocType = OUTPUT_TYPE_STDOUT, ocPayload = text,
      ocTimestamp = UnixMilli now, ocSequence = seq\<rparr>"

text \<open>The chunks of one stream, then its end, as the server receives them.\<close>

definition stream_chunks :: "WorkerEnv \<Rightarrow> (gtime \<times> OutputChunk) list \<Rightarrow> OrchestratorServer \<Rightarrow> OrchestratorServer" where
  "stream_chunks we chunks s =
     (if weStream we
      then snd (snd (StreamOutput (weMarshal we) (weShow we)
             (map (\<lambda>(now, c). (now, RecvChunk c, None)) chunks @ [(0, RecvEOF, None)]) s))
      else s)"

definition streamOne :: "WorkerEnv \<Rightarrow> gtime \<Rightarrow> string \<Rightarrow> string \<Rightarrow> string \<Rightarrow> OrchestratorServer \<Rightarrow> OrchestratorServer" where
  "streamOne we now agentID taskID text s = stream_chunks we [(now, stdout_chunk agentID taskID now 1 text)] s"

definition finishTask :: "gtime \<Rightarrow> string \<Rightarrow> string \<Rightarrow> OrchestratorServer \<Rightarrow> OrchestratorServer" where
  "finishTask now agentID taskID s =
     snd (rpc_CompleteAgent now agentID taskID (snd (rpc_ReportOutput now agentID s)))"

text \<open>The result is None while the watch is still on (the server is then as the work left it).\<close>

definition typePromptAndSettle ::
  "WorkerEnv \<Rightarrow> tmux \<Rightarrow> gtime \<Rightarrow> gtime \<Rightarrow> settle_event list \<Rightarrow> string \<Rightarrow> string \<Rightarrow>
   OrchestratorServer \<Rightarrow> string list list \<Rightarrow> bool \<times> OrchestratorServer \<times> string list list" where
  "typePromptAndSettle we env t0 t1 es agentID name s calls =
     (let (taskID, prompt) = task_prompt (store (osSupervisor s)) agentID
      in (case rpc_StartWork t0 agentID s of
            (Some err, s1) \<Rightarrow> (True, s1, calls)
          | (None, s1) \<Rightarrow>
              let session = ''agent-'' @ agentID
              in (case tmux_SendCommand env session (sanitizePrompt prompt) calls of
                    (Some err, calls1) \<Rightarrow>
                      let failText = ''['' @ name @ ''] failed to type task '' @ taskID @ '' into '' @ session @ '': '' @
                            weErr we err @ [newline]
                      in (True, finishTask t0 agentID taskID (streamOne we t0 agentID taskID failText s1), calls1)
                  | (None, calls1) \<Rightarrow>
                      (case settleWatch env session es calls1 of
                         (None, calls2) \<Rightarrow> (False, s1, calls2)
                       | (Some final, calls2) \<Rightarrow>
                           let s2 = (if final \<noteq> '''' then streamOne we t1 agentID taskID final s1 else s1)
                           in (True, finishTask t1 agentID taskID s2, calls2)))))"

text \<open>The headless run: what the CLI did, and the texts streamed from it, numbered.\<close>

datatype cli_run = LaunchFailed goerror | CliOutput "string list" "goerror option"

definition headless_texts :: "WorkerEnv \<Rightarrow> string \<Rightarrow> string \<Rightarrow> cli_run \<Rightarrow> (int \<times> string) list" where
  "headless_texts we name kind out =
     (case out of
        LaunchFailed err \<Rightarrow>
          [(0, ''['' @ name @ ''] failed to launch '' @ kind @ '': '' @ weErr we err @ [newline])]
      | CliOutput ls err \<Rightarrow>
          map (\<lambda>(i, l). (int i + 1, l @ [newline])) (enumerate 0 ls) @
          (case err of
             None \<Rightarrow> []
           | Some e \<Rightarrow> [(int (length ls) + 1, ''['' @ name @ ''] '' @ kind @ '' exited: '' @ weErr we e @ [newline])]))"

definition cli_workTask ::
  "WorkerEnv \<Rightarrow> (string list option \<Rightarrow> cli_run) \<Rightarrow> gtime \<Rightarrow> gtime \<Rightarrow> string \<Rightarrow> string \<Rightarrow> string \<Rightarrow>
   OrchestratorServer \<Rightarrow> OrchestratorServer" where
  "cli_workTask we exec t0 t1 agentID kind name s =
     (let (taskID, prompt) = task_prompt (store (osSupervisor s)) agentID
      in (case rpc_StartWork t0 agentID s of
            (Some err, s1) \<Rightarrow> s1
          | (None, s1) \<Rightarrow>
              let texts = headless_texts we name kind (exec (cliCommands kind prompt));
                  s2 = stream_chunks we (map (\<lambda>(seq, text). (t1, stdout_chunk agentID taskID t1 seq text)) texts) s1
              in finishTask t1 agentID taskID s2))"

text \<open>
  The simulated worker: five steps, \<open>stepDuration\<close> apart, no task named. \<open>pauses\<close> is how many of the pauses
  end before the context does; the worker returns at once in the next one.
\<close>

definition workSteps :: nat where
  "workSteps = 5"

definition stepDuration :: duration where
  "stepDuration = 1200 * Millisecond"

definition sim_workTask ::
  "WorkerEnv \<Rightarrow> gtime \<Rightarrow> string \<Rightarrow> string \<Rightarrow> nat \<Rightarrow> OrchestratorServer \<Rightarrow> OrchestratorServer" where
  "sim_workTask we t0 agentID name pauses s =
     (case rpc_StartWork t0 agentID s of
        (Some err, s1) \<Rightarrow> s1
      | (None, s1) \<Rightarrow>
          let clk = (\<lambda>i. t0 + int i * stepDuration);
              text = (\<lambda>i. ''['' @ name @ ''] casting spell... step '' @ dec (i + 1) @ ''/'' @ dec workSteps @ [newline]);
              sent = min workSteps (Suc pauses);
              s2 = stream_chunks we (map (\<lambda>i. (clk i, stdout_chunk agentID '''' (clk i) (int i) (text i))) [0..<sent]) s1
          in if weStream we \<and> pauses < workSteps then s2
             else finishTask (if weStream we then clk workSteps else t0) agentID '''' s2)"

subsection \<open>The loops\<close>

text \<open>The turns of a loop: a heartbeat, or a poll with what happens if there is work.\<close>

datatype worker_turn = TurnHeartbeat gtime | TurnPoll gtime gtime "settle_event list"

text \<open>\<open>do_work\<close> is what the loop does when assigned; \<open>stop\<close> whether \<open>NotFound\<close> ends it.\<close>

fun worker_run ::
  "bool \<Rightarrow> (gtime \<Rightarrow> gtime \<Rightarrow> settle_event list \<Rightarrow> OrchestratorServer \<Rightarrow> OrchestratorServer) \<Rightarrow> string \<Rightarrow>
   worker_turn list \<Rightarrow> OrchestratorServer \<Rightarrow> bool \<times> OrchestratorServer" where
  "worker_run stop do_work agentID [] s = (True, s)"
| "worker_run stop do_work agentID (TurnHeartbeat now # turns) s =
     worker_run stop do_work agentID turns (snd (rpc_Heartbeat now agentID s))"
| "worker_run stop do_work agentID (TurnPoll t0 t1 es # turns) s =
     (case rpc_GetAgentState agentID s of
        Inl st \<Rightarrow>
          if stop \<and> rpc_code_of st = NotFound then (False, s) else worker_run stop do_work agentID turns s
      | Inr (_, p) \<Rightarrow>
          if p = AGENT_STATE_ASSIGNED then worker_run stop do_work agentID turns (do_work t0 t1 es s)
          else worker_run stop do_work agentID turns s)"

text \<open>The loop of the simulated worker: \<open>pauses\<close> says of the work begun at a time how far it gets.\<close>

definition sim_Run ::
  "WorkerEnv \<Rightarrow> (gtime \<Rightarrow> nat) \<Rightarrow> string \<Rightarrow> string \<Rightarrow> worker_turn list \<Rightarrow> OrchestratorServer \<Rightarrow>
   bool \<times> OrchestratorServer" where
  "sim_Run we pauses agentID name turns s =
     worker_run False (\<lambda>t0 t1 es. sim_workTask we t0 agentID name (pauses t0)) agentID turns s"

subsection \<open>Spawning\<close>

record SpawnEnv =
  seLookPath :: "string \<Rightarrow> goerror option"
  seDial :: "goerror option"
  seMkdir :: "string \<Rightarrow> goerror option"
  seIsDir :: "string \<Rightarrow> bool"
  seTempDir :: string

text \<open>The result, whether the interactive mode is on, the server, the tmux calls.\<close>

definition cli_Spawn ::
  "SpawnEnv \<Rightarrow> tmux option \<Rightarrow> (string \<Rightarrow> string) \<Rightarrow> (nat \<Rightarrow> bool) \<Rightarrow> string \<Rightarrow> gtime \<Rightarrow> string \<Rightarrow> string \<Rightarrow> string \<Rightarrow>
   OrchestratorServer \<Rightarrow> string list list \<Rightarrow> (goerror + string \<times> bool) \<times> OrchestratorServer \<times> string list list" where
  "cli_Spawn se sub quote cancelled uuid now kind name workdir0 s calls =
     (case cliBinaries kind of
        None \<Rightarrow> (Inl (ErrorNew ''cliagent: unknown kind %q'' [kind]), s, calls)
      | Some bin \<Rightarrow>
        (case seLookPath se bin of
           Some err \<Rightarrow> (Inl (Errorf ''cliagent: %q CLI not installed: %w'' [bin] err), s, calls)
         | None \<Rightarrow>
           (case seDial se of
              Some err \<Rightarrow> (Inl (Errorf ''cliagent dial: %w'' [] err), s, calls)
            | None \<Rightarrow>
              (case rpc_RegisterAgent uuid now s of
                 (Inl st, s1) \<Rightarrow> (Inl (ErrorNew ''cliagent register %q: %w'' [name]), s1, calls)
               | (Inr agentID, s1) \<Rightarrow>
                   let workdir = (if workdir0 = '''' then seTempDir se @ ''/agenkic-agents/'' @ agentID else workdir0);
                       dir_err = (if workdir0 = ''''
                                  then map_option (Errorf ''cliagent workdir: %w'' []) (seMkdir se workdir)
                                  else if seIsDir se workdir then None
                                  else Some (ErrorNew ''cliagent workdir %q is not an existing directory'' [workdir]))
                   in (case dir_err of
                         Some err \<Rightarrow> (Inl err, s1, calls)
                       | None \<Rightarrow>
                         (case sub of
                            None \<Rightarrow> (Inr (agentID, False), s1, calls)
                          | Some env \<Rightarrow>
                              let (interactive, calls1) =
                                launchInteractive env quote (''agent-'' @ agentID) kind workdir cancelled calls
                              in (Inr (agentID, interactive), s1, calls1)))))))"

definition sim_Spawn ::
  "goerror option \<Rightarrow> string \<Rightarrow> gtime \<Rightarrow> string \<Rightarrow> OrchestratorServer \<Rightarrow> (goerror + string) \<times> OrchestratorServer" where
  "sim_Spawn dial uuid now name s =
     (case dial of
        Some err \<Rightarrow> (Inl (Errorf ''simagent dial: %w'' [] err), s)
      | None \<Rightarrow>
        (case rpc_RegisterAgent uuid now s of
           (Inl st, s1) \<Rightarrow> (Inl (ErrorNew ''simagent register %q: %w'' [name]), s1)
         | (Inr agentID, s1) \<Rightarrow> (Inr agentID, s1)))"

subsection \<open>What is typed\<close>

definition typable :: "char \<Rightarrow> bool" where
  "typable c \<longleftrightarrow> 32 \<le> (of_char c :: nat) \<and> of_char c \<noteq> (127 :: nat)"

lemma map_runes_typable: "\<forall>c \<in> set (map_runes s). typable c"
proof (induction s rule: map_runes.induct)
  case (2 c s)
  let ?n = "rune_len (c # s)"
  consider "?n = 0" | "?n = 1" | "1 < ?n" by linarith
  then show ?case
  proof cases
    case 1
    then show ?thesis using 2 by (auto simp: typable_def rune_error_def)
  next
    case 2
    then show ?thesis using "2.IH" by (auto simp: typable_def)
  next
    case 3
    have "\<forall>x \<in> set (take ?n (c # s)). typable x"
      using rune_len_wide [OF 3] by (force simp: typable_def)
    moreover have "map_runes (c # s) = take ?n (c # s) @ map_runes (drop ?n (c # s))"
      using 3 by simp
    moreover have "\<forall>x \<in> set (map_runes (drop ?n (c # s))). typable x" using "2.IH"(3) 3 by simp
    ultimately show ?thesis by (metis Un_iff set_append)
  qed
qed simp

lemma sanitizePrompt_typable: "\<forall>c \<in> set (sanitizePrompt p). typable c"
  using map_runes_typable [of p] by (auto simp: sanitizePrompt_def Let_def dest: in_set_takeD)

lemma sanitizePrompt_ok: "ValidateCommand (sanitizePrompt p) = None"
  using sanitizePrompt_typable [of p]
  by (auto simp: ValidateCommand_None_iff sanitizePrompt_def Let_def MaxCommandLen_def typable_def command_byte_def)

lemma map_runes_ascii:
  assumes "\<forall>c \<in> set s. 32 \<le> (of_char c :: nat) \<and> of_char c < (127 :: nat)"
  shows "map_runes s = s"
  using assms
proof (induction s)
  case (Cons c s)
  then have "rune_len (c # s) = 1" by (simp add: byte_in_def)
  then show ?case using Cons by simp
qed simp

text \<open>
  C38. Every prompt can be typed: whatever bytes it has, the sanitized prompt passes the validation of
  commands, has no newline or other control character that would submit it halfway, and is shorter than the
  limit; a prompt of printable ASCII that is short enough is typed as it is.
\<close>

theorem sanitizePrompt_typed_safely:
  "ValidateCommand (sanitizePrompt p) = None \<and> (\<forall>c \<in> set (sanitizePrompt p). typable c) \<and>
   length (sanitizePrompt p) < MaxCommandLen \<and>
   (length p < MaxCommandLen \<and> (\<forall>c \<in> set p. 32 \<le> (of_char c :: nat) \<and> of_char c < (127 :: nat)) \<longrightarrow>
      sanitizePrompt p = p)"
  using sanitizePrompt_ok sanitizePrompt_typable [of p] map_runes_ascii [of p]
  by (auto simp: sanitizePrompt_def Let_def MaxCommandLen_def)

lemma sanitizePrompt_typed_safely_witness: "sanitizePrompt ''fix the bug'' = ''fix the bug''"
  using sanitizePrompt_typed_safely [of "''fix the bug''"] by (simp add: MaxCommandLen_def)

subsection \<open>The CLI starts at most once\<close>

text \<open>Text typed into the session, among the calls of a log.\<close>

definition typed :: "string \<Rightarrow> string list list \<Rightarrow> string list" where
  "typed session calls =
     concat (map (\<lambda>args. if length args = 6 \<and> take 5 args = [''send-keys'', ''-t'', session, ''-l'', ''--'']
                        then [args ! 5] else []) calls)"

lemma typed_append [simp]: "typed session (xs @ ys) = typed session xs @ typed session ys"
  by (simp add: typed_def)

lemma typed_simps [simp]:
  "typed session [] = []" "typed session [[''send-keys'', ''-t'', session, ''-l'', ''--'', text]] = [text]"
  "typed session [[''send-keys'', ''-t'', session, ''Enter'']] = []"
  by (simp_all add: typed_def)

lemma typed_pair [simp]: "typed session (x # y # ys) = typed session [x] @ typed session (y # ys)"
  by (simp add: typed_def)

lemma typed_capture:
  "snd (tmux_CaptureOutput env s n calls) = calls \<or> typed session (snd (tmux_CaptureOutput env s n calls)) = typed session calls"
  by (auto simp: tmux_CaptureOutput_def typed_def split: option.split prod.splits sum.split dest!: run_wrapped_log)

lemma capture_typed [simp]: "typed session (snd (tmux_CaptureOutput env s n calls)) = typed session calls"
  using typed_capture [of env s n calls session] by auto

lemma wait_ready_typed:
  "typed session (snd (wait_ready env s cancelled i n calls)) = typed session calls"
proof (induction env s cancelled i n calls rule: wait_ready.induct)
  case (2 env s cancelled i n calls)
  obtain res calls' where c: "tmux_CaptureOutput env s 1 calls = (res, calls')" by fastforce
  have "typed session calls' = typed session calls"
    using capture_typed [of session env s 1 calls] c by simp
  then show ?case using 2 [OF c [symmetric]] by (auto simp: c split: sum.split)
qed simp

lemma send_typed:
  "typed session (snd (tmux_SendCommand env session text calls)) =
     typed session calls @ (if ValidateSessionName session = None \<and> ValidateCommand text = None then [text] else [])"
  by (auto simp: tmux_SendCommand_def split: option.split prod.splits sum.split dest!: run_wrapped_log)

text \<open>
  The CLI is started at most once: launching it types the launch command into the session once if
  the session has answered a capture within ten tries, and types nothing otherwise; it reports
  success only in the first case, so a headless fallback never runs beside an interactive CLI unless
  tmux failed after taking the command.
\<close>

theorem launch_types_once:
  assumes "launchInteractive env quote session kind workdir cancelled calls = (ok, calls')"
  shows "typed session calls' \<in>
      {typed session calls} \<union> (\<lambda>bin. typed session calls @ [launch_command quote workdir bin]) ` ran interactiveCommands \<and>
    (ok \<longrightarrow> fst (wait_ready env session cancelled 0 sessionWaitTries calls) \<and> interactiveCommands kind \<noteq> None \<and>
       typed session calls' = typed session calls @ [launch_command quote workdir (the (interactiveCommands kind))])"
proof (cases "interactiveCommands kind")
  case None
  then show ?thesis using assms by (simp add: launchInteractive_def)
next
  case (Some bin)
  obtain ready calls1 where w: "wait_ready env session cancelled 0 sessionWaitTries calls = (ready, calls1)" by fastforce
  have t: "typed session calls1 = typed session calls"
    using wait_ready_typed [of session env session cancelled 0 sessionWaitTries calls] w by simp
  obtain res calls2 where s: "tmux_SendCommand env session (launch_command quote workdir bin) calls1 = (res, calls2)"
    by fastforce
  have t2: "typed session calls2 = typed session calls @
      (if ValidateSessionName session = None \<and> ValidateCommand (launch_command quote workdir bin) = None
       then [launch_command quote workdir bin] else [])"
    using send_typed [of session env "launch_command quote workdir bin" calls1] s t by simp
  have okd: "ValidateSessionName session = None \<and> ValidateCommand (launch_command quote workdir bin) = None"
    if "res = None" using s that by (auto simp: tmux_SendCommand_def split: option.splits)
  have ran: "bin \<in> ran interactiveCommands" using Some by (rule ranI)
  show ?thesis
  proof (cases ready)
    case True
    have ok: "ok \<longleftrightarrow> res = None" "calls' = calls2"
      using assms Some True by (auto simp: launchInteractive_def w s split: option.splits)
    show ?thesis using okd ran Some t2 True by (auto simp: ok w)
  next
    case False
    then have "ok = False" "calls' = calls1" using assms Some by (auto simp: launchInteractive_def w)
    then show ?thesis using t by simp
  qed
qed

lemma launch_types_once_witness:
  "typed ''agent-1'' (snd (launchInteractive (\<lambda>_ _. RunOk '''') (\<lambda>s. s) ''agent-1'' ''claude'' ''/w'' (\<lambda>_. False) [])) =
     [''cd /w && clear && exec claude'']"
proof -
  let ?l = "launchInteractive (\<lambda>_ _. RunOk '''') (\<lambda>s. s) ''agent-1'' ''claude'' ''/w'' (\<lambda>_. False) []"
  obtain ok calls' where l: "?l = (ok, calls')" by fastforce
  have "ok"
    using l by (simp add: launchInteractive_def interactiveCommands_def sessionWaitTries_def eval_nat_numeral
        tmux_CaptureOutput_def tmux_SendCommand_def run_wrapped_def run_def ValidateSessionName_def session_char_def
        is_digit_def ValidateCommand_def MaxCommandLen_def launch_command_def)
  then show ?thesis
    using launch_types_once [OF l] l by (simp add: interactiveCommands_def launch_command_def)
qed

subsection \<open>Working undisturbed\<close>

text \<open>The parts of the server the work of one agent is about.\<close>

definition core :: "OrchestratorServer \<Rightarrow>
    (string \<rightharpoonup> AgentFields) \<times> queueItem list \<times> string set \<times> CompletionRegistry option \<times> bool" where
  "core s = (agents (store (osSupervisor s)), queue (store (osSupervisor s)), agentMu (osSupervisor s),
     completionRegistry (osSupervisor s), healthy (store (osSupervisor s)))"

lemma publish_chunk_core [simp]: "core (publish_chunk marshal now c s) = core s"
  by (simp add: publish_chunk_def core_def Let_def split: sum.split)

lemma StreamOutput_stdout_core:
  assumes "\<forall>(now, c) \<in> set chunks. ocType c \<noteq> OUTPUT_TYPE_FINAL"
  shows "core (snd (snd (StreamOutput marshal show_int
    (map (\<lambda>(now, c). (now, RecvChunk c, None)) chunks @ [(0, RecvEOF, None)]) s))) = core s"
  using assms
proof (induction chunks arbitrary: s)
  case (Cons x chunks)
  obtain now c where x: "x = (now, c)" by (cases x)
  have "ocType c \<noteq> OUTPUT_TYPE_FINAL" using Cons.prems x by simp
  then show ?case
    using Cons.IH [of "publish_chunk marshal now c s"] Cons.prems
    by (simp add: x Let_def split_beta)
qed simp

lemma stream_chunks_core:
  assumes "\<forall>(now, c) \<in> set chunks. ocType c \<noteq> OUTPUT_TYPE_FINAL"
  shows "core (stream_chunks we chunks s) = core s"
  using StreamOutput_stdout_core [OF assms] by (simp add: stream_chunks_def)

lemma stdout_not_final [simp]: "ocType (stdout_chunk a t now seq text) \<noteq> OUTPUT_TYPE_FINAL"
  by (simp add: stdout_chunk_def)

lemma streamOne_core [simp]: "core (streamOne we now a t text s) = core s"
  by (simp add: streamOne_def stream_chunks_core)

text \<open>\<open>StartWork\<close> and \<open>ReportOutput\<close> on an agent in the right state.\<close>

lemma apply_and_publish_known:
  assumes "healthy (store sv)" and "agents (store sv) a = Some r" and "fState r \<in> agent_states"
    and "ValidTransition (fState r) ev = Inr t"
  shows "fst (apply_and_publish now a ev sv) = None"
    and "agents (store (snd (apply_and_publish now a ev sv))) = (agents (store sv))(a \<mapsto> r\<lparr>fState := t\<rparr>)"
    and "queue (store (snd (apply_and_publish now a ev sv))) = queue (store sv)"
    and "agentMu (snd (apply_and_publish now a ev sv)) = agentMu sv"
    and "completionRegistry (snd (apply_and_publish now a ev sv)) = completionRegistry sv"
    and "healthy (store (snd (apply_and_publish now a ev sv)))"
  using assms by (simp_all add: apply_and_publish_def Machine_healthy)

lemma rpc_StartWork_assigned:
  assumes "core s = (ags, q, mus, reg, True)" and "valid_agent_id a" and "ags a = Some r"
    and "fState r = StateAssigned"
  obtains s1 where "rpc_StartWork now a s = (None, s1)" and "core s1 = (ags(a \<mapsto> r\<lparr>fState := StateWorking\<rparr>), q, mus, reg, True)"
proof -
  have s: "healthy (store (osSupervisor s))" "agents (store (osSupervisor s)) a = Some r" "a \<noteq> ''''"
    using assms by (auto simp: core_def valid_agent_id_def)
  have t: "fState r \<in> agent_states" "ValidTransition (fState r) EventWorkStarted = Inr StateWorking"
    using assms(4) ValidTransition_start(1) [of StateAssigned] by (simp_all add: agent_states_def)
  note A = apply_and_publish_known [OF s(1,2) t, of now]
  show thesis
    using that [of "s\<lparr>osSupervisor := snd (apply_and_publish now a EventWorkStarted (osSupervisor s))\<rparr>"] A assms s(3)
    by (cases "apply_and_publish now a EventWorkStarted (osSupervisor s)")
       (simp add: rpc_StartWork_def StartWork_def core_def)
qed

lemma finishTask_working:
  assumes "core s = (ags, q, mus, Some reg, True)" and "valid_agent_id a" and "a \<in> mus" and "ags a = Some r"
    and "fState r = StateWorking" and "fCurrentTaskID r \<noteq> ''''"
  shows "core (finishTask now a t s) =
    (ags(a \<mapsto> r\<lparr>fState := StateIdle, fCurrentTaskID := '''', fCurrentTaskPriority := 0\<rparr>), q, mus,
     Some (Complete now (fCurrentTaskID r) reg), True)"
proof -
  let ?sv = "osSupervisor s"
  have s: "healthy (store ?sv)" "agents (store ?sv) a = Some r" "a \<noteq> ''''"
    using assms by (auto simp: core_def valid_agent_id_def)
  have tr: "fState r \<in> agent_states" "ValidTransition (fState r) EventOutputReady = Inr StateReporting"
    using assms(5) ValidTransition_start(2) [of StateWorking] by (simp_all add: agent_states_def)
  let ?sv1 = "snd (apply_and_publish now a EventOutputReady ?sv)"
  note A = apply_and_publish_known [OF s(1,2) tr, of now]
  have rep: "snd (rpc_ReportOutput now a s) = s\<lparr>osSupervisor := ?sv1\<rparr>"
    using A(1) s(3) assms(2)
    by (cases "apply_and_publish now a EventOutputReady ?sv") (simp add: rpc_ReportOutput_def ReportOutput_def)
  obtain err sv2 where c: "completeAgent now a t ?sv1 = (err, sv2)" by fastforce
  have "agents (store ?sv1) a = Some (r\<lparr>fState := StateReporting\<rparr>)" using A(2) by simp
  moreover have "a \<in> agentMu ?sv1" using A(4) assms(1,3) by (simp add: core_def)
  ultimately have C: "err = None"
      "completionRegistry sv2 = map_option (Complete now (fCurrentTaskID r)) (completionRegistry ?sv1)"
      "agents (store sv2) = (agents (store ?sv1))(a \<mapsto>
         (r\<lparr>fState := StateReporting\<rparr>)\<lparr>fState := StateIdle, fCurrentTaskID := '''', fCurrentTaskPriority := 0\<rparr>)"
      "queue (store sv2) = queue (store ?sv1)" "healthy (store sv2)" "agentMu sv2 = agentMu ?sv1"
    using completeAgent_reporting [OF A(6) _ _ _ c] assms(6) by simp_all
  have "finishTask now a t s = s\<lparr>osSupervisor := sv2\<rparr>"
    using c C(1) s(3) by (simp add: finishTask_def rep rpc_CompleteAgent_def CompleteAgent_def)
  then show ?thesis using assms(1) A C by (simp add: core_def)
qed


definition demo_assigned :: OrchestratorServer where
  "demo_assigned = \<lparr>osSupervisor = demo_busy\<lparr>store := (store demo_busy)\<lparr>agents := [''a1'' \<mapsto> demo_agent StateAssigned]\<rparr>,
     completionRegistry := Some (NewCompletionRegistry [])\<rparr>, osTracker = NewStatusTracker, osRuns = []\<rparr>"


subsection \<open>What goes wrong\<close>

text \<open>
  A prompt submitted through gRPC is lost: the queue keeps the identifier and the priority of the
  task only, and the worker that is assigned the task reads the prompt from the metadata, which
  \<open>SubmitTask\<close> does not write; unless someone stored metadata for that identifier, the worker types the
  fallback text whatever prompt was submitted.
\<close>

theorem submitted_prompt_lost:
  assumes "healthy (store (osSupervisor s))" and "taskMeta (store (osSupervisor s)) (tsTaskId spec) = None"
    and "rpc_SubmitTask (Some spec) s = (Inr t, s1)"
    and "taskMeta (store (osSupervisor later)) = taskMeta (store (osSupervisor s1))"
    and "GetAgentFields (store (osSupervisor later)) a = Inr flds" and "fCurrentTaskID flds = t"
  shows "t = tsTaskId spec \<and> t \<in> qTaskID ` set (queue (store (osSupervisor s1))) \<and>
    task_prompt (store (osSupervisor later)) a = (t, fallback_prompt)"
proof -
  have enq: "tsTaskId spec = t" "osSupervisor s1 = (osSupervisor s)\<lparr>store := (store (osSupervisor s))\<lparr>queue :=
      sort_key qPriority (queue (store (osSupervisor s)) @ [\<lparr>qTaskID = t, qPriority = tsPriority spec\<rparr>])\<rparr>\<rparr>"
    using assms(3) by (auto simp: rpc_SubmitTask_def healthy_ops(3) [OF assms(1)] split: if_splits)
  then have "taskMeta (store (osSupervisor later)) t = None" using assms(2,4) by simp
  then have "task_prompt (store (osSupervisor later)) a = (t, fallback_prompt)"
    using assms(5,6) by (simp add: task_prompt_def promptFn_def GetTaskMeta_def zeroTaskMeta_def)
  then show ?thesis using enq by auto
qed

lemma submitted_prompt_lost_witness:
  "task_prompt (store (osSupervisor (snd (rpc_SubmitTask (Some (demo_task\<lparr>tsTaskId := ''t1''\<rparr>)) demo_assigned)))) ''a1'' =
     (''t1'', fallback_prompt)"
proof -
  let ?spec = "demo_task\<lparr>tsTaskId := ''t1''\<rparr>"
  have h: "healthy (store (osSupervisor demo_assigned))"
    using demo_busy_facts(1) by (simp add: demo_assigned_def)
  have "fst (rpc_SubmitTask (Some ?spec) demo_assigned) = Inr ''t1''"
    by (simp add: rpc_SubmitTask_def healthy_ops(3) [OF h])
  then obtain s1 where s1: "rpc_SubmitTask (Some ?spec) demo_assigned = (Inr ''t1'', s1)"
    by (metis prod.collapse)
  have "healthy (store (osSupervisor s1))" and "agents (store (osSupervisor s1)) = agents (store (osSupervisor demo_assigned))"
    using s1 h by (auto simp: rpc_SubmitTask_def healthy_ops(3) [OF h])
  then have h1: "healthy (store (osSupervisor s1))" and a1: "agents (store (osSupervisor s1)) ''a1'' = Some (demo_agent StateAssigned)"
    by (simp_all add: demo_assigned_def)
  have "taskMeta (store (osSupervisor demo_assigned)) (tsTaskId ?spec) = None"
    by (simp add: demo_assigned_def demo_busy_def demo_supervisor_def NewSupervisor_def NewMockStore_def)
  from submitted_prompt_lost [OF h this s1 refl, of "''a1''" "demo_agent StateAssigned"]
  show ?thesis using s1 a1 by (simp add: healthy_ops(1) [OF h1] demo_agent_def)
qed

text \<open>A screen that keeps changing is watched without end.\<close>

lemma settle_changing_screen:
  "prev \<noteq> dec (length calls) \<or> \<not> have_prev \<Longrightarrow> ValidateSessionName session = None \<Longrightarrow>
    fst (settle_loop (\<lambda>log _. RunOk (dec (length log))) session prev have_prev (map SettleTick ts) calls) = None"
proof (induction ts arbitrary: prev have_prev calls)
  case (Cons t ts)
  let ?args = "[''capture-pane'', ''-t'', session, ''-p'', ''-S'', CHR ''-'' # dec 50]"
  have "CHR 0x0A \<notin> set (dec (length calls))" using dec_no_sep(2) by (simp add: newline_def)
  then have "TrimRight (CHR 0x0A) (dec (length calls)) = dec (length calls)"
    by (cases "dec (length calls)" rule: rev_cases) (auto simp: TrimRight_def)
  then have c: "tmux_CaptureOutput (\<lambda>log _. RunOk (dec (length log))) session 50 calls = (Inr (dec (length calls)), calls @ [?args])"
    using Cons.prems(2) by (simp add: tmux_CaptureOutput_def run_wrapped_def run_def)
  have "dec (length calls) \<noteq> dec (length (calls @ [?args]))" by simp
  then show ?case
    using Cons.IH [of "dec (length calls)" "calls @ [?args]" True] Cons.prems by (auto simp: c)
qed simp

text \<open>
  A long task is taken away from its worker. The worker sends no heartbeat while it watches the CLI,
  and it watches as long as the screen changes (up to five minutes), but the supervisor fails an agent
  after thirty seconds without a heartbeat: the first sweep after that makes the agent idle and
  queues its task again, and when the worker then reports, it is refused: the completion of the
  work it did is never signalled.
\<close>

theorem long_task_taken_away:
  assumes "fair_order ord" and "healthy (store (osSupervisor s))" and "states_ok (store (osSupervisor s))"
    and "finite (dom (agents (store (osSupervisor s))))" and "a \<in> agentMu (osSupervisor s)" and "valid_agent_id a"
    and "agents (store (osSupervisor s)) a = Some r" and "fState r = StateWorking" and "fCurrentTaskID r \<noteq> ''''"
    and "staleThreshold (osSupervisor s) = defaultStaleThreshold" and "UnixMilli now - fLastHeartbeat r > 30000"
    and "s1 = s\<lparr>osSupervisor := checkHeartbeats ord now (osSupervisor s)\<rparr>"
    and "ValidateSessionName session = None"
  shows "fst (settleWatch (\<lambda>log _. RunOk (dec (length log))) session (map SettleTick ts) calls) = None \<and>
    map_option fState (agents (store (osSupervisor s1)) a) = Some StateIdle \<and>
    fCurrentTaskID r \<in> qTaskID ` set (queue (store (osSupervisor s1))) \<and>
    map_option rpc_code_of (fst (rpc_ReportOutput later a s1)) = Some FailedPrecondition \<and>
    finishTask later a t s1 = s1"
proof -
  let ?sv = "osSupervisor s" and ?ids = "ord (dom (agents (store (osSupervisor s))))"
  have stale: "is_stale now ?sv r"
    using assms(10,11) by (simp add: is_stale_def Milliseconds_def defaultStaleThreshold_def Second_def Millisecond_def)
  have a: "a \<in> set ?ids" and d: "distinct ?ids" using assms(1,4,7) by auto
  have sv1: "osSupervisor s1 = foldl (heartbeat_check now) ?sv ?ids"
    by (simp add: assms(12) checkHeartbeats_foldl)
  have idle: "agents (store (osSupervisor s1)) a = Some (r\<lparr>fState := StateIdle\<rparr>)"
    unfolding sv1 using heartbeat_sweep [OF assms(2,3) d, of now a] a assms(5,7) stale by simp
  have "fState r \<noteq> StateIdle" using assms(8) by (simp add: state_defs)
  then have queued: "fCurrentTaskID r \<in> qTaskID ` set (queue (store (osSupervisor s1)))"
    unfolding sv1 using heartbeat_sweep_requeues [OF assms(2,3) d a assms(5,7) _ assms(9) stale] by force
  have ok: "healthy (store (osSupervisor s1))" "states_ok (store (osSupervisor s1))"
    unfolding sv1 using heartbeat_sweep_ok [OF assms(2,3)] by simp_all
  have refused: "ValidTransition StateIdle EventOutputReady = Inl (InvalidTransitionError StateIdle EventOutputReady)"
    "ValidTransition StateIdle EventOutputDelivered = Inl (InvalidTransitionError StateIdle EventOutputDelivered)"
    by (simp_all add: ValidTransition_def transitionTable_def state_defs event_defs)
  have m: "Machine_ApplyEvent (store (osSupervisor s1)) a EventOutputReady =
      Inl (InvalidTransitionError StateIdle EventOutputReady)"
    "Machine_ApplyEvent (store (osSupervisor s1)) a EventOutputDelivered =
      Inl (InvalidTransitionError StateIdle EventOutputDelivered)"
    using transition_refused(2) [OF ok idle] refused by simp_all
  have ne: "a \<noteq> ''''" using assms(6) by (auto simp: valid_agent_id_def)
  have rep: "rpc_ReportOutput later a s1 = (Some (transition_status ''report output'' a
      (InvalidTransitionError StateIdle EventOutputReady)), s1)"
    using ne assms(6) by (simp add: rpc_ReportOutput_def ReportOutput_def apply_and_publish_def m)
  have "snd (rpc_CompleteAgent later a t s1) = s1"
    using ne by (simp add: rpc_CompleteAgent_def CompleteAgent_def completeAgent_def m)
  then have "finishTask later a t s1 = s1" by (simp add: finishTask_def rep)
  then show ?thesis
    using idle queued settle_changing_screen [of "''''" calls False session ts] assms(13)
    by (simp add: rep transition_status_def settleWatch_def)
qed

lemma long_task_taken_away_witness:
  "finishTask 7 ''a1'' ''t1'' (demo_server\<lparr>osSupervisor := checkHeartbeats sorted_list_of_set (unix_epoch + Hour)
     (osSupervisor demo_server)\<rparr>) =
   demo_server\<lparr>osSupervisor := checkHeartbeats sorted_list_of_set (unix_epoch + Hour) (osSupervisor demo_server)\<rparr>"
proof -
  have ok: "healthy (store (osSupervisor demo_server))" "states_ok (store (osSupervisor demo_server))"
    "finite (dom (agents (store (osSupervisor demo_server))))" "''a1'' \<in> agentMu (osSupervisor demo_server)"
    "valid_agent_id ''a1''" "agents (store (osSupervisor demo_server)) ''a1'' = Some (demo_agent StateWorking)"
    "fState (demo_agent StateWorking) = StateWorking" "fCurrentTaskID (demo_agent StateWorking) \<noteq> ''''"
    "staleThreshold (osSupervisor demo_server) = defaultStaleThreshold"
    "UnixMilli (unix_epoch + Hour) - fLastHeartbeat (demo_agent StateWorking) > 30000"
    using demo_busy_facts(1,2)
    by (simp_all add: demo_server_def states_ok_def demo_busy_def demo_agent_def agent_states_def valid_agent_id_def
        demo_supervisor_def NewSupervisor_def UnixMilli_def Hour_def Second_def Millisecond_def)
  have "ValidateSessionName ''agent-a1'' = None"
    by (simp add: ValidateSessionName_def session_char_def is_digit_def)
  from long_task_taken_away [OF fair_order_sorted ok refl this, of "[]" "[]" 7 "''t1''"] show ?thesis by blast
qed

text \<open>
  A spawn that fails after registering leaves a ghost: when the working directory cannot be made, the
  spawner answers with an error, but the agent stays registered, idle and assignable although no
  worker will ever serve it, so the next task can be given to it.
\<close>

theorem failed_spawn_leaves_agent:
  assumes "healthy (store (osSupervisor s))" and "valid_agent_id uuid" and "\<not> stopped (osSupervisor s)"
    and "agentCooldown (osSupervisor s) uuid = None" and "circuitOpen (osSupervisor s) uuid = None"
    and "cliBinaries kind = Some bin" and "seLookPath se bin = None" and "seDial se = None"
    and "\<And>d. seMkdir se d = Some (mkdir_err d)"
    and "cli_Spawn se sub quote cancelled uuid now kind name '''' s calls = (res, s', calls')"
  shows "(\<exists>err. res = Inl err) \<and> assignable later (osSupervisor s') uuid \<and> uuid \<in> agentMu (osSupervisor s')"
proof -
  let ?sv = "osSupervisor s"
  let ?new = "zeroAgentFields\<lparr>fState := StateIdle, fLastHeartbeat := UnixMilli now, fRegisteredAt := UnixMilli now\<rparr>"
  obtain err sv' where r: "RegisterAgent now uuid ?sv = (err, sv')" by fastforce
  have "err = None \<and> agents (store sv') = (agents (store ?sv))(uuid \<mapsto> ?new) \<and> agentMu sv' = insert uuid (agentMu ?sv) \<and>
      agentCooldown sv' = agentCooldown ?sv \<and> circuitOpen sv' = circuitOpen ?sv"
    using r assms(2,3) by (auto simp: RegisterAgent_def healthy_ops(2) [OF assms(1)] Let_def split: option.splits)
  then have reg: "rpc_RegisterAgent uuid now s = (Inr uuid, s\<lparr>osSupervisor := sv'\<rparr>)"
    and ok: "assignable later sv' uuid" "uuid \<in> agentMu sv'"
    using r assms(4,5)
    by (simp_all add: rpc_RegisterAgent_def assignable_def circuit_is_open_def in_cooldown_def)
  have "res = Inl (Errorf ''cliagent workdir: %w'' [] (mkdir_err (seTempDir se @ ''/agenkic-agents/'' @ uuid)))"
    "s' = s\<lparr>osSupervisor := sv'\<rparr>"
    using assms(6-10) reg by (auto simp: cli_Spawn_def Let_def)
  then show ?thesis using ok by simp
qed

lemma failed_spawn_leaves_agent_witness:
  "assignable 9 (osSupervisor (fst (snd (cli_Spawn \<lparr>seLookPath = (\<lambda>_. None), seDial = None,
     seMkdir = (\<lambda>_. Some (ErrorNew ''no space'' [])), seIsDir = (\<lambda>_. True), seTempDir = ''/tmp''\<rparr>
     None (\<lambda>d. d) (\<lambda>_. False) ''u7'' 3 ''claude'' ''Ash'' '''' demo_server [])))) ''u7''"
proof -
  let ?se = "\<lparr>seLookPath = (\<lambda>_. None), seDial = None,
     seMkdir = (\<lambda>_. Some (ErrorNew ''no space'' [])), seIsDir = (\<lambda>_. True), seTempDir = ''/tmp''\<rparr>"
  obtain res s' calls' where c: "cli_Spawn ?se None (\<lambda>d. d) (\<lambda>_. False) ''u7'' 3 ''claude'' ''Ash'' '''' demo_server [] =
      (res, s', calls')" by (rule prod_cases3)
  have ok: "healthy (store (osSupervisor demo_server))" "valid_agent_id ''u7''" "\<not> stopped (osSupervisor demo_server)"
    "agentCooldown (osSupervisor demo_server) ''u7'' = None" "circuitOpen (osSupervisor demo_server) ''u7'' = None"
    "cliBinaries ''claude'' = Some ''claude''" "seLookPath ?se ''claude'' = None" "seDial ?se = None"
    using demo_busy_facts(1)
    by (simp_all add: demo_server_def demo_busy_def valid_agent_id_def demo_supervisor_def NewSupervisor_def cliBinaries_def)
  have "seMkdir ?se d = Some (ErrorNew ''no space'' [])" for d by simp
  from failed_spawn_leaves_agent [OF ok this c, of 9] show ?thesis using c by simp
qed

text \<open>
  A removed agent's worker: the CLI worker stops at its first poll after the agent is gone, without
  touching the server, whatever turns would follow; the simulated worker polls on for ever.
\<close>

theorem removed_worker_stops:
  assumes "healthy (store (osSupervisor s))" and "agents (store (osSupervisor s)) a = None" and "valid_agent_id a"
    and "\<forall>x \<in> set before. \<exists>now. x = TurnHeartbeat now"
  shows "worker_run True do_work a (before @ TurnPoll t0 t1 es # later) s = (False, s) \<and>
    worker_run False do_work a (before @ replicate n (TurnPoll t0 t1 es)) s = (True, s)"
proof -
  have ne: "a \<noteq> ''''" using assms(3) by (auto simp: valid_agent_id_def)
  have "GetAgentState (store (osSupervisor s)) a = Inl ErrAgentNotFound"
    using assms(2) by (simp add: GetAgentState_def)
  then have poll: "\<exists>st. rpc_GetAgentState a s = Inl st \<and> rpc_code_of st = NotFound"
    using ne by (simp add: rpc_GetAgentState_def)
  have beat: "snd (rpc_Heartbeat now a s) = s" for now
    using ne assms(2,3)
    by (auto simp: rpc_Heartbeat_def Heartbeat_def healthy_ops(1) [OF assms(1)])
  have skip: "worker_run stop do_work a (before @ rest) s = worker_run stop do_work a rest s" for stop rest
    using assms(4) by (induction before) (auto simp: beat)
  moreover have "worker_run False do_work a (replicate n (TurnPoll t0 t1 es)) s = (True, s)"
    using poll by (induction n) auto
  ultimately show ?thesis using poll by auto
qed

lemma removed_worker_stops_witness:
  "fst (worker_run True (\<lambda>_ _ _ s. s) ''gone'' [TurnHeartbeat 1, TurnPoll 2 3 [], TurnPoll 4 5 []] demo_server) = False"
proof -
  have "healthy (store (osSupervisor demo_server))" "agents (store (osSupervisor demo_server)) ''gone'' = None"
    "valid_agent_id ''gone''" "\<forall>x \<in> set [TurnHeartbeat 1]. \<exists>now. x = TurnHeartbeat now"
    using demo_busy_facts(1) by (simp_all add: demo_server_def demo_busy_def valid_agent_id_def)
  from removed_worker_stops [OF this, of "\<lambda>_ _ _ s. s" 2 3 "[]" "[TurnPoll 4 5 []]" 0, THEN conjunct1]
  show ?thesis by (simp del: worker_run.simps)
qed

end
