(* ===== verification/Health.thy ===== *)
theory Health
  imports State_Store Dag_Status Http_Mux
begin

section \<open>internal/health and the health endpoints of internal/ipc\<close>

text \<open>
  \<open>Aggregator.Check\<close> (internal/health/aggregator.go) reads the store three times and the DAG tracker
  once and summarises them; the HTTP endpoints (ipc/health_http.go) and the gRPC health service
  (ipc/health_grpc.go) publish the summary. The store's calls and the tracker's are the model's own;
  a map is ranged over in any order \<open>ord\<close>, which the counts do not depend on.
\<close>

subsection \<open>Aggregator\<close>

record HealthSnapshot =
  Alive :: bool
  Ready :: bool
  ReadyReason :: string
  AgentsTotal :: nat
  AgentsIdle :: nat
  AgentsWorking :: nat
  AgentsAssigned :: nat
  AgentsReporting :: nat
  AgentsUnknown :: nat
  TasksQueued :: int
  TasksInFlight :: nat
  DAGsInProgress :: nat
  RedisPingOK :: bool
  AgentDataValid :: bool
  QueueDataValid :: bool

record Aggregator =
  agStore :: MockStore
  agActiveExecutionCount :: nat
  agMinAgents :: int

definition WithMinAgents :: "int \<Rightarrow> Aggregator \<Rightarrow> Aggregator" where
  "WithMinAgents n a = a\<lparr>agMinAgents := n\<rparr>"

definition NewAggregator :: "MockStore \<Rightarrow> nat \<Rightarrow> (Aggregator \<Rightarrow> Aggregator) list \<Rightarrow> Aggregator" where
  "NewAggregator st dags opts =
     foldl (\<lambda>a opt. opt a) \<lparr>agStore = st, agActiveExecutionCount = dags, agMinAgents = 1\<rparr> opts"

text \<open>\<open>strings.Join(reasons, "; ")\<close>.\<close>

fun join_reasons :: "string list \<Rightarrow> string" where
  "join_reasons [] = ''''"
| "join_reasons [r] = r"
| "join_reasons (r # rs) = r @ ''; '' @ join_reasons rs"

definition readiness :: "(int \<Rightarrow> string) \<Rightarrow> Aggregator \<Rightarrow> bool \<Rightarrow> bool \<Rightarrow> nat \<Rightarrow> string list \<Rightarrow> bool \<times> string" where
  "readiness show_int a redisOK agentDataValid agentCount storeErrors =
     (let reasons = storeErrors;
          reasons = (if \<not> redisOK \<and> length storeErrors = 0 then reasons @ [''redis unreachable''] else reasons);
          reasons = (if agentDataValid then
                       (if agentCount = 0 then reasons @ [''no agents registered'']
                        else if int agentCount < agMinAgents a then
                          reasons @ [''agents below minimum: '' @ show_int (int agentCount) @ '' < '' @ show_int (agMinAgents a)]
                        else reasons)
                     else reasons)
      in if length reasons > 0 then (False, join_reasons reasons) else (True, ''''))"

text \<open>The counting loop: idle, working, assigned, reporting, unknown.\<close>

definition count_state :: "nat \<times> nat \<times> nat \<times> nat \<times> nat \<Rightarrow> string \<Rightarrow> nat \<times> nat \<times> nat \<times> nat \<times> nat" where
  "count_state acc st =
     (let (idle, working, assigned, reporting, unknown) = acc
      in if st = AgentStateIdle then (Suc idle, working, assigned, reporting, unknown)
         else if st = AgentStateWorking then (idle, Suc working, assigned, reporting, unknown)
         else if st = AgentStateAssigned then (idle, working, Suc assigned, reporting, unknown)
         else if st = AgentStateReporting then (idle, working, assigned, Suc reporting, unknown)
         else (idle, working, assigned, reporting, Suc unknown))"

definition Check :: "(int \<Rightarrow> string) \<Rightarrow> string map_order \<Rightarrow> Aggregator \<Rightarrow> HealthSnapshot" where
  "Check show_int ord a =
     (let redisOK = (Ping (agStore a) = None);
          (agentStates, agentDataValid, storeReasons) =
            (case GetAllAgentStates (agStore a) of
               Inl _ \<Rightarrow> (Map.empty, False, [''agent states unavailable''])
             | Inr sts \<Rightarrow> (sts, True, []));
          (idle, working, assigned, reporting, unknown) =
            foldl (\<lambda>acc i. count_state acc (the (agentStates i))) (0, 0, 0, 0, 0) (ord (dom agentStates));
          (queueLen, queueDataValid, storeReasons) =
            (case QueueLength (agStore a) of
               Inl _ \<Rightarrow> (0, False, storeReasons @ [''queue length unavailable''])
             | Inr n \<Rightarrow> (n, True, storeReasons));
          total = card (dom agentStates);
          (ready, reason) = readiness show_int a redisOK agentDataValid total storeReasons
      in \<lparr>Alive = True, Ready = ready, ReadyReason = reason, AgentsTotal = total, AgentsIdle = idle,
          AgentsWorking = working, AgentsAssigned = assigned, AgentsReporting = reporting,
          AgentsUnknown = unknown, TasksQueued = queueLen, TasksInFlight = working,
          DAGsInProgress = agActiveExecutionCount a, RedisPingOK = redisOK,
          AgentDataValid = agentDataValid, QueueDataValid = queueDataValid\<rparr>)"

subsection \<open>Endpoints\<close>

datatype JSONValue = JStr string | JNum int | JBool bool

type_synonym HTTPReply = "int \<times> (string \<times> JSONValue) list"

definition handleHealthz :: "HTTPReply" where
  "handleHealthz = (200, [(''status'', JStr ''alive'')])"

definition handleReadyz :: "HealthSnapshot \<Rightarrow> HTTPReply" where
  "handleReadyz snap =
     (if Ready snap
      then (200, [(''status'', JStr ''ready''), (''agents'', JNum (int (AgentsTotal snap))), (''redis'', JStr ''ok'')])
      else (503, [(''status'', JStr ''not_ready''), (''reason'', JStr (ReadyReason snap))]))"

definition handleProgress :: "HealthSnapshot \<Rightarrow> HTTPReply" where
  "handleProgress snap = (200,
     [(''agents_total'', JNum (int (AgentsTotal snap))), (''agents_idle'', JNum (int (AgentsIdle snap))),
      (''agents_working'', JNum (int (AgentsWorking snap))), (''agents_assigned'', JNum (int (AgentsAssigned snap))),
      (''agents_reporting'', JNum (int (AgentsReporting snap))), (''agents_unknown'', JNum (int (AgentsUnknown snap))),
      (''tasks_queued'', JNum (TasksQueued snap)), (''tasks_in_flight'', JNum (int (TasksInFlight snap))),
      (''dags_in_progress'', JNum (int (DAGsInProgress snap))), (''agent_data_valid'', JBool (AgentDataValid snap)),
      (''queue_data_valid'', JBool (QueueDataValid snap)), (''redis_ping_ok'', JBool (RedisPingOK snap))])"

text \<open>The three routes; the multiplexer answers the rest itself.\<close>

datatype health_endpoint = Healthz | Readyz | Progress

definition health_routes :: "health_endpoint route_table" where
  "health_routes = [(''GET'', [Some ''healthz''], Healthz), (''GET'', [Some ''readyz''], Readyz),
     (''GET'', [Some ''progress''], Progress)]"

definition health_serve ::
  "(int \<Rightarrow> string) \<Rightarrow> string map_order \<Rightarrow> Aggregator \<Rightarrow> string \<Rightarrow> string list \<Rightarrow> HTTPReply" where
  "health_serve show_int ord a meth segs =
     (case mux_route health_routes meth segs of
        NoPath \<Rightarrow> (404, [])
      | NoMethod \<Rightarrow> (405, [])
      | Routed Healthz _ \<Rightarrow> handleHealthz
      | Routed Readyz _ \<Rightarrow> handleReadyz (Check show_int ord a)
      | Routed Progress _ \<Rightarrow> handleProgress (Check show_int ord a))"

datatype ServingStatus = SERVICE_UNKNOWN | SERVING | NOT_SERVING

text \<open>One update of \<open>RunHealthUpdater\<close>, and its end: \<open>Shutdown\<close> marks every service known.\<close>

definition health_update :: "HealthSnapshot \<Rightarrow> (string \<Rightarrow> ServingStatus) \<Rightarrow> (string \<Rightarrow> ServingStatus)" where
  "health_update snap hs =
     (let s = (if Ready snap then SERVING else NOT_SERVING)
      in hs('''' := s, ''orchestrator.OrchestratorService'' := s))"

definition RunHealthUpdater :: "HealthSnapshot list \<Rightarrow> bool \<Rightarrow> (string \<Rightarrow> ServingStatus) \<Rightarrow> (string \<Rightarrow> ServingStatus)" where
  "RunHealthUpdater snaps cancelled hs =
     (let hs1 = foldl (\<lambda>h snap. health_update snap h) hs snaps
      in if cancelled then (\<lambda>svc. if hs1 svc = SERVICE_UNKNOWN then SERVICE_UNKNOWN else NOT_SERVING) else hs1)"

subsection \<open>The summary is exact\<close>

definition agents_in :: "MockStore \<Rightarrow> string \<Rightarrow> nat" where
  "agents_in m st = card {i. map_option fState (agents m i) = Some st}"

definition agent_map :: "Aggregator \<Rightarrow> string \<rightharpoonup> string" where
  "agent_map a = (if getAllAgentStatesErr (agStore a) = None then (\<lambda>i. map_option fState (agents (agStore a) i))
     else Map.empty)"

definition store_reasons :: "Aggregator \<Rightarrow> string list" where
  "store_reasons a =
     (if getAllAgentStatesErr (agStore a) = None then [] else [''agent states unavailable'']) @
     (if queueLenErr (agStore a) = None then [] else [''queue length unavailable''])"

lemma count_fold:
  "foldl (\<lambda>acc i. count_state acc (f i)) (a, b, c, d, e) is =
     (a + length (filter (\<lambda>i. f i = AgentStateIdle) is), b + length (filter (\<lambda>i. f i = AgentStateWorking) is),
      c + length (filter (\<lambda>i. f i = AgentStateAssigned) is), d + length (filter (\<lambda>i. f i = AgentStateReporting) is),
      e + length (filter (\<lambda>i. f i \<notin> {AgentStateIdle, AgentStateWorking, AgentStateAssigned, AgentStateReporting}) is))"
  by (induction "is" arbitrary: a b c d e) (auto simp: count_state_def)

lemma states_partition:
  "length (filter (\<lambda>i. f i = AgentStateIdle) is) + length (filter (\<lambda>i. f i = AgentStateWorking) is) +
   length (filter (\<lambda>i. f i = AgentStateAssigned) is) + length (filter (\<lambda>i. f i = AgentStateReporting) is) +
   length (filter (\<lambda>i. f i \<notin> {AgentStateIdle, AgentStateWorking, AgentStateAssigned, AgentStateReporting}) is) = length is"
  by (induction "is") auto

lemma dom_states [simp]: "dom (\<lambda>i. map_option f (m i)) = dom m"
  by (auto simp: dom_def)

lemma filter_states:
  assumes "fair_order ord" and "finite (dom (agents m))"
  shows "length (filter (\<lambda>i. the (map_option fState (agents m i)) = st) (ord (dom (agents m)))) = agents_in m st"
proof -
  have "{i \<in> dom (agents m). the (map_option fState (agents m i)) = st} =
      {i. map_option fState (agents m i) = Some st}" by auto
  then show ?thesis
    using length_filter_fair_order [OF assms, of "\<lambda>i. the (map_option fState (agents m i)) = st"]
    by (simp add: agents_in_def)
qed

lemma Check_sel:
  "AgentsIdle (Check show_int ord a) = length (filter (\<lambda>i. the (agent_map a i) = AgentStateIdle) (ord (dom (agent_map a))))"
  "AgentsWorking (Check show_int ord a) = length (filter (\<lambda>i. the (agent_map a i) = AgentStateWorking) (ord (dom (agent_map a))))"
  "AgentsAssigned (Check show_int ord a) = length (filter (\<lambda>i. the (agent_map a i) = AgentStateAssigned) (ord (dom (agent_map a))))"
  "AgentsReporting (Check show_int ord a) = length (filter (\<lambda>i. the (agent_map a i) = AgentStateReporting) (ord (dom (agent_map a))))"
  "AgentsUnknown (Check show_int ord a) = length (filter (\<lambda>i. the (agent_map a i) \<notin>
     {AgentStateIdle, AgentStateWorking, AgentStateAssigned, AgentStateReporting}) (ord (dom (agent_map a))))"
  "TasksInFlight (Check show_int ord a) = AgentsWorking (Check show_int ord a)"
  "AgentsTotal (Check show_int ord a) = card (dom (agent_map a))"
  "TasksQueued (Check show_int ord a) = (if queueLenErr (agStore a) = None then int (length (queue (agStore a))) else 0)"
  "(Ready (Check show_int ord a), ReadyReason (Check show_int ord a)) =
     readiness show_int a (pingErr (agStore a) = None) (getAllAgentStatesErr (agStore a) = None)
       (card (dom (agent_map a))) (store_reasons a)"
proof -
  have states: "(case GetAllAgentStates (agStore a) of
      Inl e \<Rightarrow> (Map.empty, False, [''agent states unavailable'']) | Inr sts \<Rightarrow> (sts, True, [])) =
    (agent_map a, getAllAgentStatesErr (agStore a) = None,
     if getAllAgentStatesErr (agStore a) = None then [] else [''agent states unavailable''])"
    by (simp add: GetAllAgentStates_def agent_map_def split: option.split)
  have len: "(case QueueLength (agStore a) of
      Inl e \<Rightarrow> (0, False, rs @ [''queue length unavailable'']) | Inr n \<Rightarrow> (n, True, rs)) =
    (if queueLenErr (agStore a) = None then int (length (queue (agStore a))) else 0, queueLenErr (agStore a) = None,
     rs @ (if queueLenErr (agStore a) = None then [] else [''queue length unavailable'']))" for rs
    by (simp add: QueueLength_def split: option.split)
  let ?r = "readiness show_int a (pingErr (agStore a) = None) (getAllAgentStatesErr (agStore a) = None)
       (card (dom (agent_map a))) (store_reasons a)"
  have "Check show_int ord a =
    (let is = ord (dom (agent_map a)); f = (\<lambda>i. the (agent_map a i)) in
     \<lparr>Alive = True, Ready = fst ?r, ReadyReason = snd ?r, AgentsTotal = card (dom (agent_map a)),
      AgentsIdle = length (filter (\<lambda>i. f i = AgentStateIdle) is),
      AgentsWorking = length (filter (\<lambda>i. f i = AgentStateWorking) is),
      AgentsAssigned = length (filter (\<lambda>i. f i = AgentStateAssigned) is),
      AgentsReporting = length (filter (\<lambda>i. f i = AgentStateReporting) is),
      AgentsUnknown = length (filter (\<lambda>i. f i \<notin> {AgentStateIdle, AgentStateWorking, AgentStateAssigned, AgentStateReporting}) is),
      TasksQueued = (if queueLenErr (agStore a) = None then int (length (queue (agStore a))) else 0),
      TasksInFlight = length (filter (\<lambda>i. f i = AgentStateWorking) is),
      DAGsInProgress = agActiveExecutionCount a, RedisPingOK = (pingErr (agStore a) = None),
      AgentDataValid = (getAllAgentStatesErr (agStore a) = None), QueueDataValid = (queueLenErr (agStore a) = None)\<rparr>)"
    unfolding Check_def Ping_def states len Let_def split_beta fst_conv snd_conv count_fold add_0 store_reasons_def ..
  then show "AgentsIdle (Check show_int ord a) = length (filter (\<lambda>i. the (agent_map a i) = AgentStateIdle) (ord (dom (agent_map a))))"
  "AgentsWorking (Check show_int ord a) = length (filter (\<lambda>i. the (agent_map a i) = AgentStateWorking) (ord (dom (agent_map a))))"
  "AgentsAssigned (Check show_int ord a) = length (filter (\<lambda>i. the (agent_map a i) = AgentStateAssigned) (ord (dom (agent_map a))))"
  "AgentsReporting (Check show_int ord a) = length (filter (\<lambda>i. the (agent_map a i) = AgentStateReporting) (ord (dom (agent_map a))))"
  "AgentsUnknown (Check show_int ord a) = length (filter (\<lambda>i. the (agent_map a i) \<notin>
     {AgentStateIdle, AgentStateWorking, AgentStateAssigned, AgentStateReporting}) (ord (dom (agent_map a))))"
  "TasksInFlight (Check show_int ord a) = AgentsWorking (Check show_int ord a)"
  "AgentsTotal (Check show_int ord a) = card (dom (agent_map a))"
  "TasksQueued (Check show_int ord a) = (if queueLenErr (agStore a) = None then int (length (queue (agStore a))) else 0)"
  "(Ready (Check show_int ord a), ReadyReason (Check show_int ord a)) = ?r"
    by (simp_all only: Let_def HealthSnapshot.simps prod.collapse)
qed

text \<open>
  For every iteration order, the health check counts the agents of a store that answers exactly:
  the idle, working, assigned, reporting and unknown agents are those in these states and add up
  to the total, tasks in flight are the working agents, tasks queued the length of the queue.
\<close>

theorem Check_counts:
  assumes "fair_order ord" and "finite (dom (agents (agStore a)))"
    and "getAllAgentStatesErr (agStore a) = None" and "queueLenErr (agStore a) = None"
  shows "let s = Check show_int ord a; m = agStore a
    in AgentsIdle s = agents_in m AgentStateIdle \<and> AgentsWorking s = agents_in m AgentStateWorking \<and>
       AgentsAssigned s = agents_in m AgentStateAssigned \<and> AgentsReporting s = agents_in m AgentStateReporting \<and>
       TasksInFlight s = agents_in m AgentStateWorking \<and> TasksQueued s = int (length (queue m)) \<and>
       AgentsTotal s = card (dom (agents m)) \<and>
       AgentsIdle s + AgentsWorking s + AgentsAssigned s + AgentsReporting s + AgentsUnknown s = AgentsTotal s"
proof -
  have map: "agent_map a = (\<lambda>i. map_option fState (agents (agStore a) i))"
    using assms(3) by (simp add: agent_map_def)
  have total: "card (dom (agents (agStore a))) = length (ord (dom (agents (agStore a))))"
    using assms by simp
  show ?thesis
    unfolding Let_def Check_sel
    unfolding map dom_states total states_partition
    using assms(4) filter_states [OF assms(1,2)] by simp
qed

lemma join_reasons_empty: "length rs > 0 \<Longrightarrow> '''' \<notin> set rs \<Longrightarrow> join_reasons rs \<noteq> ''''"
  by (cases rs rule: join_reasons.cases) auto

lemma readiness_reason:
  assumes "'''' \<notin> set es"
  shows "snd (readiness show_int a r v n es) = '''' \<longleftrightarrow> fst (readiness show_int a r v n es)"
proof -
  define rs where "rs = es @ (if \<not> r \<and> length es = 0 then [''redis unreachable''] else []) @
    (if \<not> v then [] else if n = 0 then [''no agents registered'']
     else if int n < agMinAgents a then [''agents below minimum: '' @ show_int (int n) @ '' < '' @ show_int (agMinAgents a)]
     else [])"
  have "readiness show_int a r v n es = (if length rs > 0 then (False, join_reasons rs) else (True, ''''))"
    by (simp add: readiness_def rs_def)
  moreover have "'''' \<notin> set rs" using assms by (simp add: rs_def)
  ultimately show ?thesis using join_reasons_empty [of rs] by simp
qed

text \<open>
  The service is ready exactly if the store answers the ping, the agents' states and the queue
  length, at least one agent is registered and no fewer than the minimum; both health services
  publish that verdict, the HTTP one with status 200 or 503, and a reason is given exactly when it
  is not ready.
\<close>

theorem ready_iff:
  shows "let s = Check show_int ord a; m = agStore a
    in Ready s = (pingErr m = None \<and> getAllAgentStatesErr m = None \<and> queueLenErr m = None \<and>
         card (dom (agents m)) \<noteq> 0 \<and> agMinAgents a \<le> int (card (dom (agents m)))) \<and>
       fst (handleReadyz s) = (if Ready s then 200 else 503) \<and>
       RunHealthUpdater [s] False hs '''' = (if Ready s then SERVING else NOT_SERVING) \<and>
       (ReadyReason s = '''') = Ready s"
proof -
  let ?s = "Check show_int ord a"
  have sel: "Ready ?s = fst (readiness show_int a (pingErr (agStore a) = None) (getAllAgentStatesErr (agStore a) = None)
       (card (dom (agent_map a))) (store_reasons a))"
    and reason: "ReadyReason ?s = snd (readiness show_int a (pingErr (agStore a) = None)
       (getAllAgentStatesErr (agStore a) = None) (card (dom (agent_map a))) (store_reasons a))"
    using Check_sel(9) [of show_int ord a] by (simp_all add: prod_eq_iff)
  have "Ready ?s = (pingErr (agStore a) = None \<and> getAllAgentStatesErr (agStore a) = None \<and>
      queueLenErr (agStore a) = None \<and> card (dom (agents (agStore a))) \<noteq> 0 \<and>
      agMinAgents a \<le> int (card (dom (agents (agStore a)))))"
    unfolding sel by (auto simp: readiness_def store_reasons_def agent_map_def Let_def)
  moreover have "(ReadyReason ?s = '''') = Ready ?s"
    unfolding sel reason by (rule readiness_reason) (simp add: store_reasons_def)
  ultimately show ?thesis
    by (simp add: handleReadyz_def RunHealthUpdater_def health_update_def Let_def)
qed

definition two_agents :: MockStore where
  "two_agents = NewMockStore\<lparr>agents := [''a'' \<mapsto> zeroAgentFields\<lparr>fState := AgentStateIdle\<rparr>,
     ''b'' \<mapsto> zeroAgentFields\<lparr>fState := AgentStateWorking\<rparr>]\<rparr>"

lemma Check_counts_witness:
  "AgentsIdle (Check (\<lambda>_. '''') sorted_list_of_set (NewAggregator two_agents 0 [])) = 1 \<and>
   AgentsTotal (Check (\<lambda>_. '''') sorted_list_of_set (NewAggregator two_agents 0 [])) = 2"
proof -
  let ?a = "NewAggregator two_agents 0 []"
  have st: "agStore ?a = two_agents" by (simp add: NewAggregator_def)
  have fin: "finite (dom (agents (agStore ?a)))" unfolding st by (simp add: two_agents_def)
  have ok: "getAllAgentStatesErr (agStore ?a) = None" "queueLenErr (agStore ?a) = None"
    unfolding st by (simp_all add: two_agents_def NewMockStore_def)
  have "{i. map_option fState (agents two_agents i) = Some AgentStateIdle} = {''a''}"
    and "dom (agents two_agents) = {''a'', ''b''}"
    by (auto simp: two_agents_def split: if_splits)
  then show ?thesis
    using Check_counts [OF fair_order_sorted fin ok, of "\<lambda>_. ''''"] unfolding st
    by (simp add: Let_def agents_in_def)
qed

end
