(* ===== verification/Orchestrator.thy ===== *)
theory Orchestrator
  imports Http_Api Worker Health
begin

section \<open>cmd/orchestrator: the program put together\<close>

text \<open>
  \<open>main\<close> builds one store, one completion registry and one supervisor, and hands the same ones to the gRPC
  server, the executor of graphs, the health aggregator and the HTTP bridge, whose spawner starts workers
  that come back through the gRPC server. The environment (variables, tmux, the CLIs, made up identifiers,
  the clock of a spawn, the binary to restart) is the record \<open>MainEnv\<close>. Components sharing the
  supervisor are modelled by passing it on: \<open>server_of\<close> is the gRPC server over the supervisor of a
  bridge. The shutdown is a sequence of steps that runs beside the main goroutine.
\<close>

subsection \<open>The environment\<close>

record MainEnv =
  meGetenv :: "string \<Rightarrow> string"
  meTmux :: "(tmux \<times> (string \<Rightarrow> bool)) option"
  meSpawn :: SpawnEnv
  meQuote :: "string \<Rightarrow> string"
  meFreshID :: "Supervisor \<Rightarrow> string"
  meClock :: "Supervisor \<Rightarrow> gtime"
  meCancelled :: "nat \<Rightarrow> bool"
  meExecutable :: "goerror + string"
  meLookPathSelf :: "goerror + string"

definition env_or :: "MainEnv \<Rightarrow> string \<Rightarrow> string \<Rightarrow> string" where
  "env_or me var def = (if meGetenv me var \<noteq> '''' then meGetenv me var else def)"

definition grpc_addr :: "MainEnv \<Rightarrow> string" where
  "grpc_addr me = env_or me ''GRPC_ADDR'' '':50051''"

definition health_addr :: "MainEnv \<Rightarrow> string" where
  "health_addr me = env_or me ''HEALTH_ADDR'' '':8080''"

definition bridge_addr :: "MainEnv \<Rightarrow> string" where
  "bridge_addr me = env_or me ''BRIDGE_ADDR'' ''127.0.0.1:8081''"

definition loopback_addr :: "MainEnv \<Rightarrow> string" where
  "loopback_addr me =
     (let addr = grpc_addr me in if hd addr = CHR '':'' then ''127.0.0.1'' @ addr else addr)"

definition min_agents :: "MainEnv \<Rightarrow> int" where
  "min_agents me =
     (if meGetenv me ''MIN_AGENT_COUNT'' = '''' then 1
      else (case Atoi (meGetenv me ''MIN_AGENT_COUNT'') of
              (n, None) \<Rightarrow> if n > 0 then n else 1
            | (n, Some _) \<Rightarrow> 1))"

subsection \<open>The supervisor and its substrate\<close>

text \<open>
  The tmux substrate as the supervisor's interface: what tmux was asked follows from the calls of the
  interface, and its answers from that.
\<close>

fun tmux_after :: "tmux \<Rightarrow> SubCall \<Rightarrow> string list list \<Rightarrow> string list list" where
  "tmux_after env (SpawnSessionCall name cmd) calls = snd (tmux_SpawnSession env name cmd calls)"
| "tmux_after env (DestroySessionCall name) calls = snd (tmux_DestroySession env name calls)"
| "tmux_after env ListSessionsCall calls = snd (tmux_ListSessions env calls)"

definition tmux_log :: "tmux \<Rightarrow> SubCall list \<Rightarrow> string list list" where
  "tmux_log env scs = fold (tmux_after env) scs []"

definition tmux_substrate :: "tmux \<Rightarrow> Substrate" where
  "tmux_substrate env =
     \<lparr>SpawnSession_res = (\<lambda>scs name. case fst (tmux_SpawnSession env name '''' (tmux_log env scs)) of
          Inl err \<Rightarrow> Some err | Inr _ \<Rightarrow> None),
      DestroySession_res = (\<lambda>scs name. fst (tmux_DestroySession env name (tmux_log env scs))),
      ListSessions_res = (\<lambda>scs. fst (tmux_ListSessions env (tmux_log env scs)))\<rparr>"

definition main_supervisor :: "MainEnv \<Rightarrow> Supervisor" where
  "main_supervisor me =
     NewSupervisor NewMockStore (NewRestartPolicy [])
       (WithCompletionRegistry (NewCompletionRegistry []) #
        (case meTmux me of None \<Rightarrow> [] | Some (env, wide) \<Rightarrow> [WithSubstrate (tmux_substrate env)]))"

subsection \<open>The spawner\<close>

definition server_of :: "Supervisor \<Rightarrow> OrchestratorServer" where
  "server_of sv = \<lparr>osSupervisor = sv, osTracker = NewStatusTracker, osRuns = []\<rparr>"

definition main_spawner :: "MainEnv \<Rightarrow> AgentSpawner" where
  "main_spawner me kind name tier workdir sv =
     (if kind = ''sim''
      then (case sim_Spawn (seDial (meSpawn me)) (meFreshID me sv) (meClock me sv) name (server_of sv) of
              (res, s) \<Rightarrow> (res, osSupervisor s))
      else (case cli_Spawn (meSpawn me) (map_option fst (meTmux me)) (meQuote me) (meCancelled me) (meFreshID me sv)
                   (meClock me sv) kind name workdir (server_of sv) [] of
              (res, s, calls) \<Rightarrow> (map_sum id fst res, osSupervisor s)))"

subsection \<open>The bridge and the health of the program\<close>

definition bridge_options :: "MainEnv \<Rightarrow> (Bridge \<Rightarrow> Bridge) list" where
  "bridge_options me =
     (case meTmux me of None \<Rightarrow> [] | Some (env, wide) \<Rightarrow> [WithBridgeSubstrate env wide]) @
     [WithBridgeRegistry, WithAgentSpawner (main_spawner me), WithSupervisor] @
     (if meGetenv me ''BRIDGE_API_KEY'' \<noteq> '''' then [WithAPIKey (meGetenv me ''BRIDGE_API_KEY'')] else []) @
     [WithRestartFunc]"

definition main_bridge :: "MainEnv \<Rightarrow> Bridge" where
  "main_bridge me = NewBridge (main_supervisor me) (Some NewStatusTracker) (bridge_options me)"

definition main_aggregator :: "MainEnv \<Rightarrow> Bridge \<Rightarrow> nat \<Rightarrow> Aggregator" where
  "main_aggregator me b active = NewAggregator (brStore b) active [WithMinAgents (min_agents me)]"

subsection \<open>Shutting down and restarting\<close>

definition resolveRestartBinary :: "MainEnv \<Rightarrow> goerror + string" where
  "resolveRestartBinary me =
     (case meExecutable me of
        Inr bin \<Rightarrow> Inr bin
      | Inl _ \<Rightarrow>
          (case meLookPathSelf me of
             Inl err \<Rightarrow> Inl (Errorf ''resolve restart binary: %w'' [] err)
           | Inr bin \<Rightarrow> Inr bin))"

text \<open>The parts a shutdown stops, and its steps in order. The executor's context comes from the one
  cancelled first; \<open>Shutdown\<close> of the executor also waits for its runs to return.\<close>

record Orchestrator =
  oBridge :: Bridge
  oBroker :: Broker
  oRuns :: "Run list"
  oContextDone :: bool
  oGRPCServing :: bool
  oHealthServing :: bool
  oBridgeServing :: bool

datatype shutdown_step = CancelContext | StopGRPC | ShutdownHealthHTTP | ShutdownBridge | ShutdownExecutor | StopSupervisor

text \<open>What \<open>main\<close> has brought up when it waits in the gRPC server.\<close>

definition main_program :: "MainEnv \<Rightarrow> Orchestrator" where
  "main_program me =
     \<lparr>oBridge = main_bridge me, oBroker = NewBridge_broker (main_bridge me), oRuns = [], oContextDone = False,
      oGRPCServing = True, oHealthServing = True, oBridgeServing = True\<rparr>"

definition shutdown_steps :: "shutdown_step list" where
  "shutdown_steps = [CancelContext, StopGRPC, ShutdownHealthHTTP, ShutdownBridge, ShutdownExecutor, StopSupervisor]"

fun shutdown_do :: "string map_order \<Rightarrow> gtime \<Rightarrow> shutdown_step \<Rightarrow> Orchestrator \<Rightarrow> Orchestrator" where
  "shutdown_do ord now CancelContext o1 = o1\<lparr>oContextDone := True, oRuns := map Shutdown (oRuns o1)\<rparr>"
| "shutdown_do ord now StopGRPC o1 = o1\<lparr>oGRPCServing := False\<rparr>"
| "shutdown_do ord now ShutdownHealthHTTP o1 = o1\<lparr>oHealthServing := False\<rparr>"
| "shutdown_do ord now ShutdownBridge o1 = o1\<lparr>oBroker := Close (oBroker o1), oBridgeServing := False\<rparr>"
| "shutdown_do ord now ShutdownExecutor o1 = o1\<lparr>oRuns := map Shutdown (oRuns o1)\<rparr>"
| "shutdown_do ord now StopSupervisor o1 =
     o1\<lparr>oBridge := (oBridge o1)\<lparr>brSv := Stop ord now (brSv (oBridge o1))\<rparr>\<rparr>"

definition gracefulShutdown :: "string map_order \<Rightarrow> gtime \<Rightarrow> Orchestrator \<Rightarrow> Orchestrator" where
  "gracefulShutdown ord now o1 = fold (shutdown_do ord now) shutdown_steps o1"

text \<open>
  The restart, beside the main goroutine: after resolving the binary the steps of the shutdown, then the
  exec. The main goroutine serves gRPC; \<open>Serve\<close> returns once the server was stopped, and the return of
  \<open>main\<close> ends the process with all its goroutines.
\<close>

datatype process = Alive "shutdown_step list option" Orchestrator | Reexeced string Orchestrator | Exited Orchestrator

inductive process_step :: "MainEnv \<Rightarrow> string map_order \<Rightarrow> process \<Rightarrow> process \<Rightarrow> bool" for me ord where
  restart_begins: "resolveRestartBinary me = Inr bin \<Longrightarrow>
     process_step me ord (Alive None o1) (Alive (Some shutdown_steps) o1)"
| restart_aborts: "resolveRestartBinary me = Inl err \<Longrightarrow> process_step me ord (Alive None o1) (Alive None o1)"
| shutdown_goes_on: "process_step me ord (Alive (Some (st # sts)) o1) (Alive (Some sts) (shutdown_do ord now st o1))"
| reexec: "resolveRestartBinary me = Inr bin \<Longrightarrow> process_step me ord (Alive (Some []) o1) (Reexeced bin o1)"
| main_returns: "\<not> oGRPCServing o1 \<Longrightarrow> process_step me ord (Alive prog o1) (Exited o1)"

subsection \<open>A quest from end to end\<close>

text \<open>The supervisor of a fresh program, and after one registration: one idle agent, nothing queued.\<close>

definition lone_agent :: "string \<Rightarrow> Supervisor \<Rightarrow> bool" where
  "lone_agent a sv \<longleftrightarrow> (\<exists>r. agents (store sv) = [a \<mapsto> r] \<and> fState r = StateIdle \<and> fCurrentTaskID r = '''') \<and>
     queue (store sv) = [] \<and> healthy (store sv) \<and> agentMu sv = {a} \<and> nextAssignAttempt sv = 0 \<and>
     agentCooldown sv = Map.empty \<and> circuitOpen sv = Map.empty \<and>
     completionRegistry sv = Some (NewCompletionRegistry [])"

lemma main_supervisor_simps [simp]:
  "store (main_supervisor me) = NewMockStore" "agentMu (main_supervisor me) = {}"
  "nextAssignAttempt (main_supervisor me) = 0" "agentCooldown (main_supervisor me) = Map.empty"
  "circuitOpen (main_supervisor me) = Map.empty" "stopped (main_supervisor me) = False"
  "completionRegistry (main_supervisor me) = Some (NewCompletionRegistry [])"
  by (simp_all add: main_supervisor_def NewSupervisor_def WithCompletionRegistry_def WithSubstrate_def split: option.split)

lemma main_bridge_simps [simp]:
  "brSv (main_bridge me) = main_supervisor me" "brFloors (main_bridge me) = Map.empty"
  "brSpawner (main_bridge me) = Some (main_spawner me)" "apiKey (main_bridge me) = meGetenv me ''BRIDGE_API_KEY''"
  "brRestart (main_bridge me)" "brokerInterval (main_bridge me) = 0"
  by (simp_all add: main_bridge_def bridge_options_def NewBridge_def WithBridgeSubstrate_def WithBridgeRegistry_def
      WithAgentSpawner_def WithSupervisor_def WithAPIKey_def WithRestartFunc_def split: option.split)

text \<open>
  The program's broker and store are the initial state of the streaming system of Broker, with the
  default poll interval, and its restart endpoint is wired.
\<close>

lemma main_program_stream:
  "sse_init (brStore (main_bridge me)) ssePollInterval =
     \<lparr>ysStore = NewMockStore, ysBroker = oBroker (main_program me), ysConn = Map.empty\<rparr>"
  by (simp add: sse_init_def main_program_def NewBridge_broker_def)

lemma main_program_restart: "snd (handleRestartAdmin (oBridge (main_program me))) = Some restartDelay"
  by (simp add: main_program_def handleRestartAdmin_def)

lemma publish_attempt [simp]: "nextAssignAttempt (publish now ev sv) = nextAssignAttempt sv"
  by (simp add: publish_def)

lemma RegisterAgent_healthy:
  assumes "valid_agent_id a" and "healthy (store sv)" and "\<not> stopped sv"
  obtains sv' r where "RegisterAgent now a sv = (None, sv')" and "agents (store sv') = (agents (store sv))(a \<mapsto> r)"
    and "fState r = StateIdle" and "fCurrentTaskID r = ''''" and "queue (store sv') = queue (store sv)"
    and "healthy (store sv')" and "\<not> stopped sv'" and "agentMu sv' = insert a (agentMu sv)"
    and "nextAssignAttempt sv' = nextAssignAttempt sv" and "agentCooldown sv' = agentCooldown sv"
    and "circuitOpen sv' = circuitOpen sv" and "completionRegistry sv' = completionRegistry sv"
proof -
  have "\<exists>sv' r. RegisterAgent now a sv = (None, sv') \<and> agents (store sv') = (agents (store sv))(a \<mapsto> r) \<and>
    fState r = StateIdle \<and> fCurrentTaskID r = '''' \<and> queue (store sv') = queue (store sv) \<and>
    healthy (store sv') \<and> \<not> stopped sv' \<and> agentMu sv' = insert a (agentMu sv) \<and>
    nextAssignAttempt sv' = nextAssignAttempt sv \<and> agentCooldown sv' = agentCooldown sv \<and>
    circuitOpen sv' = circuitOpen sv \<and> completionRegistry sv' = completionRegistry sv"
    using assms by (auto simp: RegisterAgent_def healthy_ops Let_def zeroAgentFields_def split: option.split)
  then show thesis using that by blast
qed

lemma RegisterAgent_first:
  assumes "valid_agent_id a"
  shows "\<exists>sv. RegisterAgent now a (main_supervisor me) = (None, sv) \<and> lone_agent a sv"
proof -
  have new: "healthy NewMockStore" "agents NewMockStore = Map.empty" "queue NewMockStore = []"
    by (simp_all add: healthy_def NewMockStore_def)
  have "healthy (store (main_supervisor me))" "\<not> stopped (main_supervisor me)" by (simp_all add: new)
  then show ?thesis
    by (rule RegisterAgent_healthy [OF assms, of _ now]) (auto simp: lone_agent_def new)
qed

lemma spawner_first:
  assumes "valid_agent_id (meFreshID me (main_supervisor me))" and "seDial (meSpawn me) = None"
    and "kind = ''sim'' \<or> (\<exists>bin. cliBinaries kind = Some bin \<and> seLookPath (meSpawn me) bin = None) \<and>
      (if workdir = '''' then \<forall>d. seMkdir (meSpawn me) d = None else seIsDir (meSpawn me) workdir)"
  shows "\<exists>sv. main_spawner me kind name tier workdir (main_supervisor me) = (Inr (meFreshID me (main_supervisor me)), sv) \<and>
    lone_agent (meFreshID me (main_supervisor me)) sv"
proof -
  let ?sv = "main_supervisor me"
  obtain sv where r: "RegisterAgent (meClock me ?sv) (meFreshID me ?sv) ?sv = (None, sv)" "lone_agent (meFreshID me ?sv) sv"
    using RegisterAgent_first [OF assms(1)] by blast
  then have reg: "rpc_RegisterAgent (meFreshID me ?sv) (meClock me ?sv) (server_of ?sv) =
      (Inr (meFreshID me ?sv), (server_of ?sv)\<lparr>osSupervisor := sv\<rparr>)"
    by (simp add: rpc_RegisterAgent_def server_of_def)
  show ?thesis
    using assms(2,3) r(2)
    by (auto simp: main_spawner_def sim_Spawn_def cli_Spawn_def reg Let_def split: option.split prod.split)
qed

lemma spawn_prepare_placed:
  assumes "srKind req \<in> {'''', ''sim'', ''claude'', ''codex'', ''opencode'', ''pi''}"
    and "q = spawn_defaults (spawnCounter b + 1) req"
    and "srWorkdir q = '''' \<or> HasPrefix (srWorkdir q) ''/'' \<and> is_dir (srWorkdir q)" and "srFloor q = None"
    and "reserveNextAvailableFloor ord (b\<lparr>spawnCounter := spawnCounter b + 1\<rparr>) = (flr, token, b')"
  shows "spawn_prepare ord is_dir req b = (Inr \<lparr>plKind = srKind q, plName = srName q, plTier = srTier q,
    plWorkdir = srWorkdir q, plFloor = flr, plToken = token\<rparr>, b')"
  using assms(1,3-5) unfolding spawn_prepare_def Let_def assms(2) [symmetric] by auto

lemma spawn_first:
  assumes "fair_order ord" and "valid_agent_id (meFreshID me (main_supervisor me))" and "seDial (meSpawn me) = None"
    and "srKind req \<in> {'''', ''sim'', ''claude'', ''codex'', ''opencode'', ''pi''}" and "srFloor req = None"
    and "srWorkdir req = '''' \<or> HasPrefix (srWorkdir req) ''/'' \<and> is_dir (srWorkdir req) \<and>
      seIsDir (meSpawn me) (srWorkdir req)"
    and "\<forall>bin. seLookPath (meSpawn me) bin = None" and "\<forall>d. seMkdir (meSpawn me) d = None"
  shows "\<exists>resp sv b1. handleSpawnAgent ord is_dir req (main_bridge me) = ((200, resp), b1) \<and> brSv b1 = sv \<and>
    lone_agent (meFreshID me (main_supervisor me)) sv \<and> apiKey b1 = apiKey (main_bridge me)"
proof -
  let ?b = "main_bridge me"
  have w: "srWorkdir req = '''' \<or> HasPrefix (srWorkdir req) ''/'' \<and> is_dir (srWorkdir req)" using assms(6) by blast
  let ?bump = "?b\<lparr>spawnCounter := spawnCounter ?b + 1\<rparr>" and ?req = "spawn_defaults (spawnCounter ?b + 1) req"
  have req: "srFloor ?req = None" "srWorkdir ?req = srWorkdir req"
    "srKind ?req = (if srKind req = '''' then ''sim'' else srKind req)"
    using assms(5) by (simp_all add: spawn_defaults_def Let_def)
  obtain flr token b1 where r: "reserveNextAvailableFloor ord ?bump = (flr, token, b1)" by (rule prod_cases3)
  let ?p = "\<lparr>plKind = srKind ?req, plName = srName ?req, plTier = srTier ?req, plWorkdir = srWorkdir ?req,
    plFloor = flr, plToken = token\<rparr>"
  have w': "srWorkdir ?req = '''' \<or> HasPrefix (srWorkdir ?req) ''/'' \<and> is_dir (srWorkdir ?req)" using w req(2) by simp
  have p0: "spawn_prepare ord is_dir req ?b = (Inr ?p, b1)"
    by (rule spawn_prepare_placed [where b = ?b and req = req and q = ?req and is_dir = is_dir, OF assms(4) refl w' req(1) r])
  obtain p where p: "p = ?p" by blast
  have "finite (dom (brFloors ?bump))" by simp
  from reserveNextAvailableFloor_spec(5) [OF assms(1) this r]
  have same: "brSv b1 = main_supervisor me" "apiKey b1 = apiKey ?b"
    "plKind p = (if srKind req = '''' then ''sim'' else srKind req)" "plWorkdir p = srWorkdir req"
    using req by (simp_all add: p)
  have "plKind p = ''sim'' \<or> (\<exists>bin. cliBinaries (plKind p) = Some bin \<and> seLookPath (meSpawn me) bin = None) \<and>
      (if plWorkdir p = '''' then \<forall>d. seMkdir (meSpawn me) d = None else seIsDir (meSpawn me) (plWorkdir p))"
    using assms(4,6-8) unfolding same by (auto simp: cliBinaries_def)
  from spawner_first [OF assms(2,3) this, of "plName p" "plTier p"] obtain sv where
    sp: "main_spawner me (plKind p) (plName p) (plTier p) (plWorkdir p) (brSv b1) =
      (Inr (meFreshID me (main_supervisor me)), sv)" and sv: "lone_agent (meFreshID me (main_supervisor me)) sv"
    unfolding same(1) by blast
  have "handleSpawnAgent ord is_dir req ?b = spawn_finish p (Inr (meFreshID me (main_supervisor me))) (b1\<lparr>brSv := sv\<rparr>)"
    using sp unfolding handleSpawnAgent_def p0 by (simp add: p)
  then show ?thesis
    using sv same(2) by (auto simp: spawn_finish_def Let_def setAgentName_def setAgentProvider_def commitFloorReservation_def)
qed

lemma assign_locked_rest:
  assumes "healthy (store sv)" and "agents (store sv) a = Some r" and "fState r = StateIdle"
  shows "taskMeta (store (assign_locked now a t p sv)) = taskMeta (store sv)"
    and "completionRegistry (assign_locked now a t p sv) = completionRegistry sv"
proof -
  have "Machine_ApplyEvent (store sv) a EventTaskAssigned =
      Inr (\<lparr>snAgentID = a, snPreviousState = StateIdle, snState = StateAssigned,
            snEvent = EventTaskAssigned\<rparr>, (store sv)\<lparr>agents := (agents (store sv))(a \<mapsto> r\<lparr>fState := StateAssigned\<rparr>)\<rparr>)"
    using Machine_healthy [OF assms(1,2), of EventTaskAssigned StateAssigned] assms(3) by (simp add: agent_states_def)
  then show "taskMeta (store (assign_locked now a t p sv)) = taskMeta (store sv)"
    "completionRegistry (assign_locked now a t p sv) = completionRegistry sv"
    using assms(1) by (simp_all add: assign_locked_def healthy_ops Let_def publish_def resetAssignBackoff_def)
qed

text \<open>One task, one agent: the tick gives it the task.\<close>

lemma lone_tick:
  assumes "fair_order ord" and "lone_agent a sv" and "t \<noteq> ''''"
    and "EnqueueTaskWithMeta t p meta (store sv) = Inr m" and "mDescription meta \<noteq> ''''"
    and "sv' = tryAssignTask ord now (sv\<lparr>store := m\<rparr>)"
  shows "\<exists>r. agents (store sv') = [a \<mapsto> r] \<and> fState r = StateAssigned \<and> fCurrentTaskID r = t" "queue (store sv') = []"
    and "task_prompt (store sv') a = (t, mDescription meta)"
    and "core (server_of sv') = (agents (store sv'), [], {a}, Some (NewCompletionRegistry []), True)"
proof -
  obtain r where r: "agents (store sv) = [a \<mapsto> r]" "fState r = StateIdle" and ok: "healthy (store sv)"
    "queue (store sv) = []" "agentMu sv = {a}" "nextAssignAttempt sv = 0" "agentCooldown sv = Map.empty"
    "circuitOpen sv = Map.empty" "completionRegistry sv = Some (NewCompletionRegistry [])"
    using assms(2) by (auto simp: lone_agent_def)
  have m: "m = (store sv)\<lparr>queue := [\<lparr>qTaskID = t, qPriority = p\<rparr>], taskMeta := (taskMeta (store sv))(t \<mapsto> meta)\<rparr>"
    using assms(4,5) ok(1,2) by (auto simp: EnqueueTaskWithMeta_def healthy_def TaskMeta_IsZero_def Let_def)
  let ?sv = "sv\<lparr>store := m\<rparr>" and ?sv1 = "sv\<lparr>store := m\<lparr>queue := []\<rparr>\<rparr>"
  have "assignable now ?sv1 b \<longleftrightarrow> b = a" for b
    using r ok(5,6) by (auto simp: assignable_def circuit_is_open_def in_cooldown_def m)
  moreover have "finite (dom (agents (store ?sv1)))" by (simp add: m r(1))
  ultimately have f: "findIdleAgent ord now ?sv1 = Some a"
    using findIdleAgent_None [OF assms(1)] findIdleAgent_Some by (metis not_None_eq)
  have "DequeueTask m = Inr (t, p, m\<lparr>queue := []\<rparr>)"
    using ok(1) by (simp add: DequeueTask_def m healthy_def)
  then have tick: "sv' = assign_locked now a t p ?sv1"
    using f ok(3,4) by (simp add: assms(6) tryAssignTask_def assign_backing_off_def IsZero_def getAgentMutex_def Let_def)
  have h1: "healthy (store ?sv1)" and r1: "agents (store ?sv1) a = Some r" using ok(1) r by (simp_all add: m)
  note A = assign_locked_idle [OF h1 r1 r(2), of now t p]
  let ?r = "r\<lparr>fState := StateAssigned, fCurrentTaskID := t, fCurrentTaskPriority := p\<rparr>"
  have ags: "agents (store sv') = [a \<mapsto> ?r]" unfolding tick A(1) by (simp add: m r(1))
  show "\<exists>r. agents (store sv') = [a \<mapsto> r] \<and> fState r = StateAssigned \<and> fCurrentTaskID r = t"
    unfolding ags by (rule exI [of _ ?r]) simp
  show q: "queue (store sv') = []" unfolding tick A(2) by simp
  have h: "healthy (store sv')" unfolding tick by (rule A(3))
  have "taskMeta (store sv') = (taskMeta (store sv))(t \<mapsto> meta) \<and> completionRegistry sv' = completionRegistry sv"
    unfolding tick assign_locked_rest [OF h1 r1 r(2)] by (simp add: m)
  then show "task_prompt (store sv') a = (t, mDescription meta)"
    and "core (server_of sv') = (agents (store sv'), [], {a}, Some (NewCompletionRegistry []), True)"
    using assms(5) ags q h A(4) ok(3,7)
    by (simp_all add: task_prompt_def promptFn_def healthy_ops(1) [OF h] GetTaskMeta_def core_def server_of_def tick [symmetric])
qed


definition demo_env :: MainEnv where
  "demo_env = \<lparr>meGetenv = (\<lambda>v. if v = ''BRIDGE_API_KEY'' then ''key'' else ''''), meTmux = None,
     meSpawn = \<lparr>seLookPath = (\<lambda>_. None), seDial = None, seMkdir = (\<lambda>_. None), seIsDir = (\<lambda>_. True), seTempDir = ''/tmp''\<rparr>,
     meQuote = (\<lambda>d. d), meFreshID = (\<lambda>_. ''a1''), meClock = (\<lambda>_. 3), meCancelled = (\<lambda>_. False),
     meExecutable = Inr ''/opt/orchestrator'', meLookPathSelf = Inr ''/opt/orchestrator''\<rparr>"

definition demo_quest_world :: HttpWorld where
  "demo_quest_world = demo_world\<lparr>hwTask := (\<lambda>_. Some \<lparr>sqTaskID = ''t1'', sqPriority = 2, sqDescription = '' fix it'',
     sqProject = '''', sqFloorName = ''''\<rparr>)\<rparr>"

definition demo_post :: "string list \<Rightarrow> HttpRequest" where
  "demo_post path = (demo_request ''Bearer key'')\<lparr>rqPath := path\<rparr>"


subsection \<open>cmd/demoworker\<close>

text \<open>The demo client registers three simulated agents and gives up at the first that fails.\<close>

definition demoAgents :: "(string \<times> string) list" where
  "demoAgents = [(''Pyromancer'', ''opus''), (''Runescribe'', ''sonnet''), (''Apprentice'', ''haiku'')]"

definition demoworker_addr :: "MainEnv \<Rightarrow> string" where
  "demoworker_addr me = env_or me ''GRPC_ADDR'' ''127.0.0.1:50051''"

fun demoworker ::
  "goerror option \<Rightarrow> (string \<Rightarrow> string) \<Rightarrow> gtime \<Rightarrow> (string \<times> string) list \<Rightarrow> OrchestratorServer \<Rightarrow>
   goerror option \<times> OrchestratorServer" where
  "demoworker dial fresh now [] s = (None, s)"
| "demoworker dial fresh now ((name, tier) # rest) s =
     (case sim_Spawn dial (fresh name) now name s of
        (Inl err, s1) \<Rightarrow> (Some (Errorf ''spawn %s: %v'' [name] err), s1)
      | (Inr _, s1) \<Rightarrow> demoworker dial fresh now rest s1)"

lemma demoworker_registers:
  assumes "healthy (store (osSupervisor s))" and "\<not> stopped (osSupervisor s)"
    and "\<forall>(name, tier) \<in> set ags. valid_agent_id (fresh name)"
  shows "\<exists>s'. demoworker None fresh now ags s = (None, s') \<and>
    dom (agents (store (osSupervisor s'))) = dom (agents (store (osSupervisor s))) \<union> (fresh \<circ> fst) ` set ags"
  using assms
proof (induction ags arbitrary: s)
  case (Cons ag ags)
  obtain name tier where ag: "ag = (name, tier)" by fastforce
  then have v: "valid_agent_id (fresh name)" using Cons.prems(3) by auto
  obtain sv' r where r: "RegisterAgent now (fresh name) (osSupervisor s) = (None, sv')"
    "agents (store sv') = (agents (store (osSupervisor s)))(fresh name \<mapsto> r)" "healthy (store sv')" "\<not> stopped sv'"
    using RegisterAgent_healthy [OF v Cons.prems(1,2), of now] by metis
  have "sim_Spawn None (fresh name) now name s = (Inr (fresh name), s\<lparr>osSupervisor := sv'\<rparr>)"
    by (simp add: sim_Spawn_def rpc_RegisterAgent_def r(1))
  moreover have "\<exists>s'. demoworker None fresh now ags (s\<lparr>osSupervisor := sv'\<rparr>) = (None, s') \<and>
      dom (agents (store (osSupervisor s'))) = dom (agents (store sv')) \<union> (fresh \<circ> fst) ` set ags"
    using Cons.IH [of "s\<lparr>osSupervisor := sv'\<rparr>"] r(3,4) Cons.prems(3) by auto
  ultimately show ?case using r(2) by (auto simp: ag)
qed simp

subsection \<open>Restarting\<close>

fun step_done :: "shutdown_step \<Rightarrow> Orchestrator \<Rightarrow> bool" where
  "step_done CancelContext o1 \<longleftrightarrow> oContextDone o1"
| "step_done StopGRPC o1 \<longleftrightarrow> \<not> oGRPCServing o1"
| "step_done ShutdownHealthHTTP o1 \<longleftrightarrow> \<not> oHealthServing o1"
| "step_done ShutdownBridge o1 \<longleftrightarrow> \<not> oBridgeServing o1 \<and> brClosed (oBroker o1) \<and> brSubs (oBroker o1) = {}"
| "step_done ShutdownExecutor o1 \<longleftrightarrow> list_all rCancelled (oRuns o1)"
| "step_done StopSupervisor o1 \<longleftrightarrow> stopped (brSv (oBridge o1))"

lemma Stop_stopped [simp]: "stopped (Stop ord now sv)"
proof -
  have "stopped (foldl (\<lambda>s a. destroy_session now a s) sv' ids) = stopped sv'" for sv' ids
    by (induction ids arbitrary: sv') simp_all
  then show ?thesis by (simp add: Stop_def Let_def)
qed

lemma shutdown_do_done: "step_done st (shutdown_do ord now st o1)"
  by (cases st) (simp_all add: Close_def Shutdown_def list_all_iff)

lemma shutdown_do_mono: "step_done st o1 \<Longrightarrow> step_done st (shutdown_do ord now st' o1)"
  by (cases st; cases st') (simp_all add: Close_def Shutdown_def list_all_iff)

lemma gracefulShutdown_done: "list_all (\<lambda>st. step_done st (gracefulShutdown ord now o1)) shutdown_steps"
  by (simp add: gracefulShutdown_def shutdown_steps_def Close_def Shutdown_def list_all_iff)

definition process_ok :: "MainEnv \<Rightarrow> Orchestrator \<Rightarrow> process \<Rightarrow> bool" where
  "process_ok me o0 p =
     (case p of
        Alive None o1 \<Rightarrow> o1 = o0
      | Alive (Some sts) o1 \<Rightarrow> (\<exists>bin. resolveRestartBinary me = Inr bin) \<and>
          (\<exists>sts'. shutdown_steps = sts' @ sts \<and> list_all (\<lambda>st. step_done st o1) sts')
      | Reexeced bin o1 \<Rightarrow> resolveRestartBinary me = Inr bin \<and> list_all (\<lambda>st. step_done st o1) shutdown_steps
      | Exited o1 \<Rightarrow> \<exists>bin. resolveRestartBinary me = Inr bin)"

lemma process_step_ok:
  assumes "process_step me ord p q" and "process_ok me o0 p" and "oGRPCServing o0"
  shows "process_ok me o0 q"
  using assms
proof cases
  case (shutdown_goes_on st sts o1 now)
  then obtain sts' where "shutdown_steps = sts' @ st # sts" "list_all (\<lambda>st. step_done st o1) sts'"
    "\<exists>bin. resolveRestartBinary me = Inr bin"
    using assms(2) by (auto simp: process_ok_def)
  then have "shutdown_steps = (sts' @ [st]) @ sts" "list_all (\<lambda>s. step_done s (shutdown_do ord now st o1)) (sts' @ [st])"
    by (auto simp: list_all_iff shutdown_do_done shutdown_do_mono)
  then have "\<exists>sts'. shutdown_steps = sts' @ sts \<and> list_all (\<lambda>s. step_done s (shutdown_do ord now st o1)) sts'" by blast
  then show ?thesis
    using assms(2) shutdown_goes_on by (simp add: process_ok_def)
next
  case (main_returns o1 prog)
  then show ?thesis using assms(2,3) by (cases prog) (auto simp: process_ok_def)
qed (use assms in \<open>auto simp: process_ok_def\<close>)



end
