(* ===== verification/Dag_System.thy ===== *)
theory Dag_System
  imports Dag_Executor Supervisor_Loops
begin

section \<open>A graph running on the supervisor\<close>

text \<open>
  The composition main.go makes: the executor's submitter is a \<open>BlockingSubmitter\<close> over the store and the
  completion registry that the supervisor uses too. A step of the system is an action of the
  executor (\<open>run_step\<close>), of the submitter of one node (\<open>BlockingSubmitter_step\<close>), or of anybody else
  who shares the store and the registry (\<open>env_step\<close>): the handlers and loops of the supervisor, the
  bridge, which writes to the store and signals the tasks it cancels, the sweeper of the registry, the
  submitters of other graphs. The call of \<open>SubmitTask\<close> and its return synchronise the executor with the
  submitter. The log records when a task of the graph enters the queue and when the completion of
  any task is signalled.
\<close>

subsection \<open>The others\<close>

datatype dag_event = Enqueued string | Signalled string

text \<open>What \<open>completeAgent\<close> signals.\<close>

definition completion_signal :: "string \<Rightarrow> string \<Rightarrow> Supervisor \<Rightarrow> dag_event list" where
  "completion_signal agentID taskID sv =
     (let tid = signalled_task taskID (GetAgentFields (store sv) agentID)
      in if tid = '''' then [] else [Signalled tid])"

text \<open>The set holds the tasks of the graph, which nobody else waits for or cleans up.\<close>

inductive env_step :: "string set \<Rightarrow> Supervisor \<Rightarrow> dag_event list \<Rightarrow> Supervisor \<Rightarrow> bool" for T where
  env_assign: "assign_phase ord now pc sv = (pc', sv') \<Longrightarrow> env_step T sv [] sv'"
| env_check: "env_step T sv [] (checkHeartbeats ord now sv)"
| env_reap: "env_step T sv [] (reapOrphanedAgents ord now sv)"
| env_register: "RegisterAgent now a sv = (err, sv') \<Longrightarrow> env_step T sv [] sv'"
| env_heartbeat: "Heartbeat now a sv = (err, sv') \<Longrightarrow> env_step T sv [] sv'"
| env_start: "StartWork now a sv = (err, sv') \<Longrightarrow> env_step T sv [] sv'"
| env_report: "ReportOutput now a sv = (err, sv') \<Longrightarrow> env_step T sv [] sv'"
| env_complete: "CompleteAgent now a tid sv = (err, sv') \<Longrightarrow>
     env_step T sv (if err = None then completion_signal a tid sv else []) sv'"
| env_remove: "env_step T sv [] (RemoveAgent now a sv)"
| env_stop: "env_step T sv [] (Stop ord now sv)"
| env_store: "env_step T sv [] (sv\<lparr>store := m\<rparr>)"
| env_cancel: "completionRegistry sv = Some reg \<Longrightarrow>
     env_step T sv [Signalled t] (sv\<lparr>completionRegistry := Some (Complete now t reg)\<rparr>)"
| env_sweep: "completionRegistry sv = Some reg \<Longrightarrow>
     env_step T sv [] (sv\<lparr>completionRegistry := Some (SweepOnce now reg)\<rparr>)"
| env_wait: "completionRegistry sv = Some reg \<Longrightarrow> t \<notin> T \<Longrightarrow>
     env_step T sv [] (sv\<lparr>completionRegistry := Some (snd (Wait_begin t reg))\<rparr>)"
| env_cleanup: "completionRegistry sv = Some reg \<Longrightarrow> t \<notin> T \<Longrightarrow>
     env_step T sv [] (sv\<lparr>completionRegistry := Some (Cleanup now t reg)\<rparr>)"

subsection \<open>The system\<close>

record DagSystem =
  dgRun :: Run
  dgSub :: "string \<Rightarrow> submit_phase"
  dgSv :: Supervisor
  dgLog :: "dag_event list"

definition task_id :: "Graph \<Rightarrow> string \<Rightarrow> string" where
  "task_id g n = (case TaskSpec_of g n of None \<Rightarrow> '''' | Some ts \<Rightarrow> tsTaskId ts)"

definition task_priority :: "Graph \<Rightarrow> string \<Rightarrow> rat" where
  "task_priority g n = (case TaskSpec_of g n of None \<Rightarrow> 0 | Some ts \<Rightarrow> tsPriority ts)"

fun returned_pc :: "goerror option \<Rightarrow> string \<Rightarrow> node_pc" where
  "returned_pc None msg = SubmitOk"
| "returned_pc (Some err) msg = SubmitErr msg"

inductive dag_step :: "Graph \<Rightarrow> string list list \<Rightarrow> string \<Rightarrow> DagSystem \<Rightarrow> DagSystem \<Rightarrow> bool" for g levels e where
  dg_run: "run_step levels e (dgRun S) r' \<Longrightarrow> rLog r' = rLog (dgRun S) \<Longrightarrow>
     \<forall>n. rNode (dgRun S) n = Submitted \<longrightarrow> rNode r' n = Submitted \<Longrightarrow>
     dag_step g levels e S (S\<lparr>dgRun := r'\<rparr>)"
| dg_call: "run_step levels e (dgRun S) r' \<Longrightarrow> rLog r' = rLog (dgRun S) @ [n] \<Longrightarrow>
     dag_step g levels e S (S\<lparr>dgRun := r', dgSub := (dgSub S)(n := SbEnqueue)\<rparr>)"
| dg_submitter: "rNode (dgRun S) n = Submitted \<Longrightarrow> completionRegistry (dgSv S) = Some reg \<Longrightarrow>
     BlockingSubmitter_step EnqueueTask (task_id g n) (task_priority g n)
       (dgSub S n, store (dgSv S), reg) (ph, m, reg') \<Longrightarrow>
     dag_step g levels e S (S\<lparr>dgSub := (dgSub S)(n := ph),
       dgSv := (dgSv S)\<lparr>store := m, completionRegistry := Some reg'\<rparr>,
       dgLog := dgLog S @ (if ph = SbWait then [Enqueued (task_id g n)] else [])\<rparr>)"
| dg_return: "rNode (dgRun S) n = Submitted \<Longrightarrow> dgSub S n = SbDone res \<Longrightarrow>
     dag_step g levels e S (S\<lparr>dgRun := (dgRun S)\<lparr>rNode := (rNode (dgRun S))(n := returned_pc res msg)\<rparr>\<rparr>)"
| dg_shutdown: "dag_step g levels e S (S\<lparr>dgRun := Shutdown (dgRun S)\<rparr>)"
| dg_env: "env_step (task_id g ` set (concat levels)) (dgSv S) evs sv' \<Longrightarrow>
     dag_step g levels e S (S\<lparr>dgSv := sv', dgLog := dgLog S @ evs\<rparr>)"

inductive dag_reach :: "Graph \<Rightarrow> string list list \<Rightarrow> string \<Rightarrow> DagSystem \<Rightarrow> DagSystem \<Rightarrow> bool" for g levels e S0 where
  dag_start: "dag_reach g levels e S0 S0"
| dag_more: "dag_reach g levels e S0 S \<Longrightarrow> dag_step g levels e S S' \<Longrightarrow> dag_reach g levels e S0 S'"

definition start_dag :: "Run \<Rightarrow> Supervisor \<Rightarrow> DagSystem" where
  "start_dag r sv = \<lparr>dgRun = r, dgSub = (\<lambda>_. SbEnqueue), dgSv = sv, dgLog = []\<rparr>"

subsection \<open>The executor in the system is the executor alone\<close>

lemma dag_step_run:
  assumes "dag_step g levels e S S'" and "exec_reach levels e r0 (dgRun S)"
  shows "exec_reach levels e r0 (dgRun S')"
  using assms
proof (cases rule: dag_step.cases)
  case (dg_return n res msg)
  have "run_step levels e (dgRun S) ((dgRun S)\<lparr>rNode := (rNode (dgRun S))(n := returned_pc res msg)\<rparr>)"
    using submit_ok [OF dg_return(2)] submit_err [OF dg_return(2)] by (cases res) simp_all
  then show ?thesis using dg_return(1) reach_step [OF assms(2)] by simp
qed (auto intro: reach_step reach_shutdown)

lemma dag_reach_run:
  assumes "dag_reach g levels e S0 S"
  shows "exec_reach levels e (dgRun S0) (dgRun S)"
  using assms by (induction) (auto intro: dag_step_run reach_start)

subsection \<open>What the others do to the registry\<close>

lemma foldl_registry:
  "(\<And>s x. completionRegistry (f s x) = completionRegistry s) \<Longrightarrow>
    completionRegistry (foldl f sv xs) = completionRegistry sv"
  by (induction xs arbitrary: sv) simp_all

lemma handler_registry [simp]:
  "completionRegistry (enqueue_logged t p sv) = completionRegistry sv"
  "completionRegistry (recordAssignError now sv) = completionRegistry sv"
  "completionRegistry (resetAssignBackoff sv) = completionRegistry sv"
  "completionRegistry (RemoveAgent now a sv) = completionRegistry sv"
  by (simp_all add: enqueue_logged_def recordAssignError_def resetAssignBackoff_def RemoveAgent_def Let_def)

lemma crashAgent_registry [simp]: "completionRegistry (crashAgent now a sv) = completionRegistry sv"
  by (auto simp: crashAgent_def Let_def split: sum.split prod.split)

lemma assign_locked_registry [simp]:
  "completionRegistry (assign_locked now a t p sv) = completionRegistry sv"
  by (auto simp: assign_locked_def Let_def split: sum.split prod.split)

lemma assign_phase_registry:
  "assign_phase ord now pc sv = (pc', sv') \<Longrightarrow> completionRegistry sv' = completionRegistry sv"
  by (cases pc) (auto split: if_splits sum.splits prod.splits option.splits)

lemma RegisterAgent_registry:
  "RegisterAgent now a sv = (err, sv') \<Longrightarrow> completionRegistry sv' = completionRegistry sv"
  by (auto simp: RegisterAgent_def Let_def split: if_splits sum.splits option.splits)

lemma agent_call_registry:
  "Heartbeat now a sv = (err, sv') \<Longrightarrow> completionRegistry sv' = completionRegistry sv"
  "StartWork now a sv = (err, sv') \<Longrightarrow> completionRegistry sv' = completionRegistry sv"
  "ReportOutput now a sv = (err, sv') \<Longrightarrow> completionRegistry sv' = completionRegistry sv"
  by (auto simp: Heartbeat_def StartWork_def ReportOutput_def apply_and_publish_def
      split: if_splits sum.splits prod.splits)

lemma loop_registry [simp]:
  "completionRegistry (checkHeartbeats ord now sv) = completionRegistry sv"
  "completionRegistry (reapOrphanedAgents ord now sv) = completionRegistry sv"
  "completionRegistry (Stop ord now sv) = completionRegistry sv"
  by (simp_all add: checkHeartbeats_def reapOrphanedAgents_def Stop_def reapAgent_def Let_def foldl_registry
      split: sum.split option.split)

lemma signalled_publish:
  "signalled_task tid (GetAgentFields (store (publish now ev sv)) a) = signalled_task tid (GetAgentFields (store sv) a)"
  by (auto simp: publish_def PublishEvent_def GetAgentFields_def Let_def split: option.split)

lemma signalled_apply:
  "Machine_ApplyEvent m a ev = Inr (snap, m') \<Longrightarrow>
    signalled_task tid (GetAgentFields m' a) = signalled_task tid (GetAgentFields m a)"
  by (auto simp: Machine_ApplyEvent_Inr GetAgentFields_def signalled_task_def split: option.split)

lemma CompleteAgent_registry:
  assumes "CompleteAgent now a tid sv = (err, sv')" and "completionRegistry sv = Some reg"
  shows "err \<noteq> None \<and> completionRegistry sv' = Some reg \<or>
    err = None \<and> completion_signal a tid sv = [] \<and> completionRegistry sv' = Some reg \<or>
    err = None \<and> (\<exists>t. completion_signal a tid sv = [Signalled t] \<and> completionRegistry sv' = Some (Complete now t reg))"
proof (cases "getAgentMutex sv a \<and> (\<exists>x. Machine_ApplyEvent (store sv) a EventOutputDelivered = Inr x)")
  case True
  then obtain snap m where m: "getAgentMutex sv a" "Machine_ApplyEvent (store sv) a EventOutputDelivered = Inr (snap, m)"
    by force
  define sv1 where "sv1 = publish now (agent_event EventOutputDelivered (snAgentID snap) now) (sv\<lparr>store := m\<rparr>)"
  let ?sv2 = "sv1\<lparr>policy := RecordSuccess (policy sv1) a\<rparr>"
  have tid: "signalled_task tid (GetAgentFields (store ?sv2) a) = signalled_task tid (GetAgentFields (store sv) a)"
    by (simp add: sv1_def signalled_publish signalled_apply [OF m(2)])
  have reg: "completionRegistry ?sv2 = Some reg" using assms(2) by (simp add: sv1_def)
  have "err = None" "completionRegistry sv' = completionRegistry (signal_completion now a tid ?sv2)"
    using assms(1) m by (simp_all add: CompleteAgent_def completeAgent_def Let_def flip: sv1_def) (auto simp: sv1_def)
  then show ?thesis
    using reg unfolding signal_completion_def completion_signal_def Let_def tid by auto
next
  case False
  then show ?thesis
    using assms by (cases "Machine_ApplyEvent (store sv) a EventOutputDelivered")
      (auto simp: CompleteAgent_def completeAgent_def split: if_splits)
qed

lemma env_step_registry:
  assumes "env_step T sv evs sv'" and "completionRegistry sv = Some reg"
  shows "completionRegistry sv' = Some reg \<or>
    (\<exists>op. completionRegistry sv' = Some (reg_step reg op) \<and> (\<forall>t \<in> T. \<forall>now. op \<noteq> RCleanup t now) \<and>
       (\<forall>t now. op = RComplete t now \<longrightarrow> Signalled t \<in> set evs))"
  using assms
proof (cases rule: env_step.cases)
  case (env_complete now a tid err)
  show ?thesis
    using CompleteAgent_registry [OF env_complete(2) assms(2)] env_complete(1)
    by (auto intro!: exI [of _ "RComplete _ now"])
next
  case (env_cancel reg t now)
  then show ?thesis using assms(2) by (auto intro!: exI [of _ "RComplete t now"])
next
  case (env_sweep reg now)
  then show ?thesis using assms(2) by (auto intro!: exI [of _ "RSweep now"])
next
  case (env_wait reg t)
  then show ?thesis using assms(2) by (auto intro!: exI [of _ "RWait t"])
next
  case (env_cleanup reg t now)
  then show ?thesis using assms(2) by (auto intro!: exI [of _ "RCleanup t now"])
qed (auto simp: assign_phase_registry RegisterAgent_registry agent_call_registry)

lemma env_step_log: "env_step T sv evs sv' \<Longrightarrow> Enqueued t \<notin> set evs"
  by (auto elim!: env_step.cases simp: completion_signal_def Let_def split: if_splits)

subsection \<open>The invariant of one submitter\<close>

definition sub_inv :: "dag_event list \<Rightarrow> string \<Rightarrow> submit_phase \<Rightarrow> CompletionRegistry \<Rightarrow> bool" where
  "sub_inv tr t ph reg \<longleftrightarrow> (\<exists>ops. submit_inv t ops (ph, NewMockStore, reg) \<and>
     (\<forall>now. RComplete t now \<in> set ops \<longrightarrow> Signalled t \<in> set tr))"

lemma submit_inv_store: "submit_inv t ops (ph, s, reg) = submit_inv t ops (ph, s', reg)"
  by (simp add: submit_inv_def)

lemma sub_inv_mono: "sub_inv tr t ph reg \<Longrightarrow> sub_inv (tr @ evs) t ph reg"
  unfolding sub_inv_def by auto

lemma sub_inv_call: "sub_inv tr t ph reg \<Longrightarrow> sub_inv tr t SbEnqueue reg"
  unfolding sub_inv_def submit_inv_def by auto

lemma sub_inv_done: "sub_inv tr t (SbDone None) reg \<Longrightarrow> Signalled t \<in> set tr"
  unfolding sub_inv_def submit_inv_def by auto

lemma sub_inv_waits: "sub_inv tr t ph reg \<Longrightarrow> ph = SbWaiting ch \<Longrightarrow> waits_on reg t ch"
  unfolding sub_inv_def submit_inv_def by auto

lemma sub_inv_env:
  assumes "sub_inv tr t ph reg" and "\<forall>now. op \<noteq> RCleanup t now"
    and "\<And>now. op = RComplete t now \<Longrightarrow> Signalled t \<in> set evs"
  shows "sub_inv (tr @ evs) t ph (reg_step reg op)"
proof -
  obtain ops where "submit_inv t ops (ph, NewMockStore, reg)"
    and "\<forall>now. RComplete t now \<in> set ops \<longrightarrow> Signalled t \<in> set tr"
    using assms(1) unfolding sub_inv_def by blast
  then show ?thesis
    unfolding sub_inv_def using assms(3) submit_env_inv [OF _ assms(2), of ops ph NewMockStore reg NewMockStore]
    by (intro exI [of _ "ops @ [op]"]) auto
qed

lemma sub_inv_own:
  assumes "BlockingSubmitter_step enq t p (ph, m, reg) (ph', m', reg')" and "sub_inv tr t ph reg"
  shows "sub_inv (tr @ evs) t ph' reg'"
proof -
  obtain ops where ops: "submit_inv t ops (ph, NewMockStore, reg)"
    "\<forall>now. RComplete t now \<in> set ops \<longrightarrow> Signalled t \<in> set tr"
    using assms(2) unfolding sub_inv_def by blast
  have "submit_inv t ops (ph, m, reg)" using ops(1) by (simp add: submit_inv_def)
  from submit_own_inv [OF assms(1) this] have "submit_inv t ops (ph', NewMockStore, reg')"
    by (simp add: submit_inv_def)
  then show ?thesis unfolding sub_inv_def using ops(2) by auto
qed

lemma sub_inv_other:
  assumes "BlockingSubmitter_step enq u p (ph, m, reg) (ph', m', reg')" and "sub_inv tr t x reg" and "t \<noteq> u"
  shows "sub_inv (tr @ evs) t x reg'"
  using assms(1)
proof (cases rule: BlockingSubmitter_step.cases)
  case (sb_wait ch)
  then show ?thesis using sub_inv_env [OF assms(2), of "RWait u" evs] by simp
next
  case (sb_cleanup res now)
  then show ?thesis using sub_inv_env [OF assms(2), of "RCleanup u now" evs] assms(3) by simp
qed (use sub_inv_mono [OF assms(2)] in simp_all)

subsection \<open>What the executor does by itself\<close>

lemma run_step_completed:
  assumes "run_step levels e r r'" and "node_state (rTracker r') e n = Some DAG_COMPLETED"
  shows "node_state (rTracker r) e n = Some DAG_COMPLETED \<or> rNode r n = SubmitOk"
  using assms by (cases rule: run_step.cases) (auto split: if_splits)

lemma run_step_pcs:
  assumes "run_step levels e r r'"
  shows "rNode r' n = SubmitOk \<Longrightarrow> rNode r n = SubmitOk \<or> rNode r n = Submitted"
    and "rNode r' n = Submitted \<Longrightarrow> rNode r n = Submitted \<or> rLog r' = rLog r @ [n]"
    and "rLog r' = rLog r @ [m] \<Longrightarrow> rNode r m = MarkedRunning \<and> rNode r' = (rNode r)(m := Submitted)"
  using assms by (cases rule: run_step.cases; auto split: if_splits)+

subsection \<open>The invariant of the system\<close>

definition enqueued :: "dag_event list \<Rightarrow> string list" where
  "enqueued tr = concat (map (\<lambda>ev. case ev of Enqueued t \<Rightarrow> [t] | Signalled t \<Rightarrow> []) tr)"

lemma enqueued_simps [simp]:
  "enqueued [] = []" "enqueued (xs @ ys) = enqueued xs @ enqueued ys" "enqueued [Enqueued t] = [t]"
  "t \<in> set (enqueued xs) \<longleftrightarrow> Enqueued t \<in> set xs"
  by (force simp: enqueued_def split: dag_event.splits)+

lemma enqueued_env: "env_step T sv evs sv' \<Longrightarrow> enqueued evs = []"
  using env_step_log [of T sv evs sv'] enqueued_simps(4) by (metis list.set_intros(1) neq_Nil_conv)

text \<open>Before a task of the graph is enqueued the tasks of all dependencies of its node are signalled.\<close>

definition in_order :: "Graph \<Rightarrow> string set \<Rightarrow> dag_event list \<Rightarrow> bool" where
  "in_order g V tr \<longleftrightarrow> (\<forall>k < length tr. \<forall>n \<in> V. tr ! k = Enqueued (task_id g n) \<longrightarrow>
     (\<forall>d \<in> set (Predecessors g n). Signalled (task_id g d) \<in> set (take k tr)))"

lemma in_order_quiet:
  assumes "in_order g V tr" and "enqueued evs = []"
  shows "in_order g V (tr @ evs)"
  unfolding in_order_def
proof (intro allI impI ballI)
  fix k n d assume k: "k < length (tr @ evs)" "n \<in> V" "(tr @ evs) ! k = Enqueued (task_id g n)" "d \<in> set (Predecessors g n)"
  have "k < length tr"
  proof (rule ccontr)
    assume "\<not> k < length tr"
    then have "k - length tr < length evs" "evs ! (k - length tr) = Enqueued (task_id g n)"
      using k(1,3) by (simp_all add: nth_append)
    then have "Enqueued (task_id g n) \<in> set evs" by (metis nth_mem)
    then show False using assms(2) enqueued_simps(4) [of "task_id g n" evs] by simp
  qed
  then show "Signalled (task_id g d) \<in> set (take k (tr @ evs))"
    using assms(1) k by (auto simp: in_order_def nth_append)
qed

lemma in_order_enqueue:
  assumes "in_order g V tr" and "\<And>m d. m \<in> V \<Longrightarrow> task_id g m = task_id g n \<Longrightarrow> d \<in> set (Predecessors g m) \<Longrightarrow>
      Signalled (task_id g d) \<in> set tr"
  shows "in_order g V (tr @ [Enqueued (task_id g n)])"
  using assms unfolding in_order_def by (auto simp: nth_append less_Suc_eq)

definition dag_inv :: "Graph \<Rightarrow> string list list \<Rightarrow> string \<Rightarrow> DagSystem \<Rightarrow> bool" where
  "dag_inv g levels e S \<longleftrightarrow> run_inv levels e (dgRun S) \<and>
     (\<exists>reg. completionRegistry (dgSv S) = Some reg \<and>
        (\<forall>n \<in> set (concat levels). sub_inv (dgLog S) (task_id g n) (dgSub S n) reg)) \<and>
     (\<forall>n \<in> set (concat levels). rNode (dgRun S) n = SubmitOk \<or>
        node_state (rTracker (dgRun S)) e n = Some DAG_COMPLETED \<longrightarrow> Signalled (task_id g n) \<in> set (dgLog S)) \<and>
     (\<forall>n. rNode (dgRun S) n = Submitted \<longrightarrow> n \<in> set (rLog (dgRun S))) \<and>
     (\<forall>n \<in> set (concat levels). Enqueued (task_id g n) \<in> set (dgLog S) \<longrightarrow>
        n \<in> set (rLog (dgRun S)) \<and> dgSub S n \<noteq> SbEnqueue) \<and>
     distinct (enqueued (dgLog S)) \<and> in_order g (set (concat levels)) (dgLog S)"

lemma dag_invI:
  assumes "run_inv levels e (dgRun S)" and "completionRegistry (dgSv S) = Some reg"
    and "\<And>n. n \<in> set (concat levels) \<Longrightarrow> sub_inv (dgLog S) (task_id g n) (dgSub S n) reg"
    and "\<And>n. n \<in> set (concat levels) \<Longrightarrow> rNode (dgRun S) n = SubmitOk \<or>
        node_state (rTracker (dgRun S)) e n = Some DAG_COMPLETED \<Longrightarrow> Signalled (task_id g n) \<in> set (dgLog S)"
    and "\<And>n. rNode (dgRun S) n = Submitted \<Longrightarrow> n \<in> set (rLog (dgRun S))"
    and "\<And>n. n \<in> set (concat levels) \<Longrightarrow> Enqueued (task_id g n) \<in> set (dgLog S) \<Longrightarrow>
        n \<in> set (rLog (dgRun S)) \<and> dgSub S n \<noteq> SbEnqueue"
    and "distinct (enqueued (dgLog S))" and "in_order g (set (concat levels)) (dgLog S)"
  shows "dag_inv g levels e S"
  using assms unfolding dag_inv_def by blast

lemma dag_invD:
  assumes "dag_inv g levels e S"
  obtains reg where "completionRegistry (dgSv S) = Some reg"
    and "\<And>n. n \<in> set (concat levels) \<Longrightarrow> sub_inv (dgLog S) (task_id g n) (dgSub S n) reg"
    and "run_inv levels e (dgRun S)"
    and "\<And>n. n \<in> set (concat levels) \<Longrightarrow> rNode (dgRun S) n = SubmitOk \<or>
        node_state (rTracker (dgRun S)) e n = Some DAG_COMPLETED \<Longrightarrow> Signalled (task_id g n) \<in> set (dgLog S)"
    and "\<And>n. rNode (dgRun S) n = Submitted \<Longrightarrow> n \<in> set (rLog (dgRun S))"
    and "\<And>n. n \<in> set (concat levels) \<Longrightarrow> Enqueued (task_id g n) \<in> set (dgLog S) \<Longrightarrow>
        n \<in> set (rLog (dgRun S)) \<and> dgSub S n \<noteq> SbEnqueue"
    and "distinct (enqueued (dgLog S))" and "in_order g (set (concat levels)) (dgLog S)"
  using assms unfolding dag_inv_def by blast

text \<open>One step: the executor, a call, a submitter, a return, a shutdown, the others.\<close>

lemma dag_step_inv:
  assumes "dag_step g levels e S S'" and "dag_inv g levels e S"
    and "distinct (concat levels)" and "inj_on (task_id g) (set (concat levels))"
    and "\<And>r n d. run_inv levels e r \<Longrightarrow> n \<in> set (rLog r) \<Longrightarrow> d \<in> set (Predecessors g n) \<Longrightarrow>
      d \<in> set (concat levels) \<and> node_state (rTracker r) e d = Some DAG_COMPLETED"
  shows "dag_inv g levels e S'"
proof -
  let ?V = "set (concat levels)"
  obtain reg where I: "completionRegistry (dgSv S) = Some reg"
    "\<And>n. n \<in> ?V \<Longrightarrow> sub_inv (dgLog S) (task_id g n) (dgSub S n) reg"
    "run_inv levels e (dgRun S)"
    "\<And>n. n \<in> ?V \<Longrightarrow> rNode (dgRun S) n = SubmitOk \<or>
        node_state (rTracker (dgRun S)) e n = Some DAG_COMPLETED \<Longrightarrow> Signalled (task_id g n) \<in> set (dgLog S)"
    "\<And>n. rNode (dgRun S) n = Submitted \<Longrightarrow> n \<in> set (rLog (dgRun S))"
    "\<And>n. n \<in> ?V \<Longrightarrow> Enqueued (task_id g n) \<in> set (dgLog S) \<Longrightarrow>
        n \<in> set (rLog (dgRun S)) \<and> dgSub S n \<noteq> SbEnqueue"
    "distinct (enqueued (dgLog S))" "in_order g ?V (dgLog S)"
    using dag_invD [OF assms(2)] by metis
  have run: "run_inv levels e (dgRun S')"
    if "exec_reach levels e (dgRun S) (dgRun S) \<Longrightarrow> exec_reach levels e (dgRun S) (dgRun S')"
    by (rule exec_reach_inv [OF that [OF reach_start] assms(3) I(3)])
  have run': "run_inv levels e (dgRun S')" by (rule run [OF dag_step_run [OF assms(1)]])
  show ?thesis
    using assms(1)
  proof (cases rule: dag_step.cases)
    case (dg_run r')
    show ?thesis
    proof (rule dag_invI [OF run'])
      show "Signalled (task_id g n) \<in> set (dgLog S')"
        if "n \<in> ?V" "rNode (dgRun S') n = SubmitOk \<or> node_state (rTracker (dgRun S')) e n = Some DAG_COMPLETED" for n
        using that I(4) [OF that(1)] run_step_completed [OF dg_run(2), of n] run_step_pcs(1) [OF dg_run(2), of n]
          dg_run(1,4) by auto
      show "n \<in> set (rLog (dgRun S'))" if "rNode (dgRun S') n = Submitted" for n
        using that I(5) [of n] run_step_pcs(2) [OF dg_run(2), of n] dg_run(1,3) by auto
    qed (use I dg_run(1,3) in auto)
  next
    case (dg_call r' n)
    note pc = run_step_pcs(3) [OF dg_call(2,3)]
    have new: "n \<notin> set (rLog (dgRun S))" using run_invD(6) [OF run'] dg_call(1,3) by simp
    show ?thesis
    proof (rule dag_invI [OF run'])
      show "sub_inv (dgLog S') (task_id g m) (dgSub S' m) reg" if "m \<in> ?V" for m
        using I(2) [OF that] dg_call(1) by (auto intro: sub_inv_call)
      show "Signalled (task_id g m) \<in> set (dgLog S')"
        if "m \<in> ?V" "rNode (dgRun S') m = SubmitOk \<or> node_state (rTracker (dgRun S')) e m = Some DAG_COMPLETED" for m
        using that I(4) [OF that(1)] run_step_completed [OF dg_call(2), of m] pc dg_call(1) by (auto split: if_splits)
      show "m \<in> set (rLog (dgRun S'))" if "rNode (dgRun S') m = Submitted" for m
        using that I(5) [of m] pc dg_call(1,3) by (auto split: if_splits)
      show "m \<in> set (rLog (dgRun S')) \<and> dgSub S' m \<noteq> SbEnqueue"
        if "m \<in> ?V" "Enqueued (task_id g m) \<in> set (dgLog S')" for m
        using that I(6) [OF that(1)] new dg_call(1,3) by auto
    qed (use I dg_call(1) in auto)
  next
    case (dg_submitter n reg1 ph m reg')
    have reg1: "reg1 = reg" using I(1) dg_submitter(3) by simp
    let ?ev = "if ph = SbWait then [Enqueued (task_id g n)] else []"
    have n: "n \<in> set (rLog (dgRun S))" by (rule I(5) [OF dg_submitter(2)])
    have nV: "n \<in> ?V" using run_invD(2) [OF I(3), of n] dg_submitter(2) by auto
    have ph: "ph \<noteq> SbEnqueue" and before: "ph = SbWait \<Longrightarrow> dgSub S n = SbEnqueue"
      using dg_submitter(4) by (auto elim: BlockingSubmitter_step.cases)
    have same: "k = n" if "k \<in> ?V" "task_id g k = task_id g n" for k
      using that assms(4) nV by (auto dest: inj_onD)
    show ?thesis
    proof (rule dag_invI [OF run'])
      show "completionRegistry (dgSv S') = Some reg'" using dg_submitter(1) by simp
      show "sub_inv (dgLog S') (task_id g k) (dgSub S' k) reg'" if "k \<in> ?V" for k
      proof (cases "k = n")
        case True
        then show ?thesis
          using sub_inv_own [OF dg_submitter(4) I(2) [OF nV, folded reg1], of ?ev] dg_submitter(1) by simp
      next
        case False
        then have "task_id g k \<noteq> task_id g n" using same [OF that] by blast
        then show ?thesis
          using sub_inv_other [OF dg_submitter(4) I(2) [OF that, folded reg1], of ?ev] False dg_submitter(1) by simp
      qed
      show "Signalled (task_id g k) \<in> set (dgLog S')"
        if "k \<in> ?V" "rNode (dgRun S') k = SubmitOk \<or> node_state (rTracker (dgRun S')) e k = Some DAG_COMPLETED" for k
        using that I(4) [OF that(1)] dg_submitter(1) by auto
      show "k \<in> set (rLog (dgRun S')) \<and> dgSub S' k \<noteq> SbEnqueue"
        if "k \<in> ?V" "Enqueued (task_id g k) \<in> set (dgLog S')" for k
        using that I(6) [OF that(1)] same [OF that(1)] n ph dg_submitter(1) by (auto split: if_splits)
      show "distinct (enqueued (dgLog S'))"
        using I(7) I(6) [OF nV] before dg_submitter(1) by auto
      have "in_order g ?V (dgLog S @ [Enqueued (task_id g n)])"
        by (rule in_order_enqueue [OF I(8)]) (use same I(4) assms(5) [OF I(3) n] in blast)
      then show "in_order g ?V (dgLog S')" using I(8) dg_submitter(1) by simp
    qed (use I(5) dg_submitter(1) in auto)
  next
    case (dg_return n res msg)
    have nV: "n \<in> ?V" using run_invD(2) [OF I(3), of n] dg_return(2) by auto
    have ok: "Signalled (task_id g n) \<in> set (dgLog S)" if "res = None"
      using sub_inv_done I(2) [OF nV] dg_return(3) that by metis
    have pc: "returned_pc res msg \<noteq> Submitted" "returned_pc res msg = SubmitOk \<Longrightarrow> res = None" by (cases res; simp)+
    show ?thesis
    proof (rule dag_invI [OF run'])
      show "Signalled (task_id g k) \<in> set (dgLog S')"
        if "k \<in> ?V" "rNode (dgRun S') k = SubmitOk \<or> node_state (rTracker (dgRun S')) e k = Some DAG_COMPLETED" for k
        using that I(4) [OF that(1)] ok pc(2) dg_return(1) by (cases "k = n") auto
      show "k \<in> set (rLog (dgRun S'))" if "rNode (dgRun S') k = Submitted" for k
        using that I(5) [of k] pc(1) dg_return(1) by (auto split: if_splits)
    qed (use I dg_return(1) in auto)
  next
    case dg_shutdown
    show ?thesis by (rule dag_invI [OF run']) (use I dg_shutdown in \<open>auto simp: Shutdown_def\<close>)
  next
    case (dg_env evs sv')
    obtain reg' where reg': "completionRegistry sv' = Some reg'"
      "\<And>n. n \<in> ?V \<Longrightarrow> sub_inv (dgLog S @ evs) (task_id g n) (dgSub S n) reg'"
      using env_step_registry [OF dg_env(2) I(1)] I(2) sub_inv_mono sub_inv_env by (metis image_eqI)
    show ?thesis
    proof (rule dag_invI [OF run'])
      show "completionRegistry (dgSv S') = Some reg'" using reg'(1) dg_env(1) by simp
      show "sub_inv (dgLog S') (task_id g n) (dgSub S' n) reg'" if "n \<in> ?V" for n
        using reg'(2) [OF that] dg_env(1) by simp
      show "in_order g ?V (dgLog S')" using in_order_quiet [OF I(8) enqueued_env [OF dg_env(2)]] dg_env(1) by simp
    qed (use I(4-7) dg_env(1) enqueued_env [OF dg_env(2)] env_step_log [OF dg_env(2)] in auto)
  qed
qed

subsection \<open>The start\<close>

lemma Execute_graph:
  assumes "fair_order ord" and "NewGraph ord (Some spec) = Inr g"
    and "Execute ord e now (Some spec) t = Inr (levels, r0)"
  shows "graph_ok g" and "acyclic (deps g)" and "levels = graph_levels g" and "set (concat levels) = spec_ids spec"
    and "run_inv levels e r0" and "\<And>n. n \<in> set (dsNodes spec) \<Longrightarrow> Predecessors g (dnNodeId n) = dnDependsOn n"
    and "rNode r0 = (\<lambda>_. Idle)" and "\<And>n. node_state (rTracker r0) e n \<in> {None, Some DAG_PENDING}"
    and "\<not> rCancelled r0" and "rMain r0 = NextLevel 0"
proof -
  have r0: "TopologicalSort ord g = Inr levels" "r0 = start_run (CreateExecution now e (DAGID g) (Nodes g) t)"
    using assms(2,3) by (auto simp: Execute_def split: sum.splits)
  have o: "spec_ok spec" "acyclic (deps g)" "graph_ok g" "nodeOrder g = map dnNodeId (dsNodes spec)"
    "\<And>n. n \<in> set (dsNodes spec) \<Longrightarrow> Predecessors g (dnNodeId n) = dnDependsOn n"
    using NewGraph_outcome [OF assms(1), of spec] assms(2) by auto
  show "graph_ok g" "acyclic (deps g)" by fact+
  show lv: "levels = graph_levels g"
    using r0(1) TopologicalSort_fair [OF fair_order_sorted assms(1), of g] by (simp add: graph_levels_def)
  have V: "set (concat levels) = set (nodeOrder g)" by (rule TopologicalSort_Inr(2) [OF o(3) assms(1) r0(1)])
  have ids: "set (nodeOrder g) = spec_ids spec" "nodeOrder g \<noteq> []"
    using o(1,4) by (simp_all add: spec_ids_def spec_ok_def)
  show "set (concat levels) = spec_ids spec" using V ids(1) by simp
  show "run_inv levels e r0" unfolding r0(2) by (rule start_run_inv) (use V ids(2) in \<open>simp_all add: Nodes_def\<close>)
  show "\<And>n. n \<in> set (dsNodes spec) \<Longrightarrow> Predecessors g (dnNodeId n) = dnDependsOn n" by fact
  show "rNode r0 = (\<lambda>_. Idle)" "\<not> rCancelled r0" "rMain r0 = NextLevel 0"
    "\<And>n. node_state (rTracker r0) e n \<in> {None, Some DAG_PENDING}"
    by (simp_all add: r0(2) start_run_def CreateExecution_state)
qed

lemma start_dag_inv:
  assumes "run_inv levels e r0" and "rNode r0 = (\<lambda>_. Idle)"
    and "\<And>n. node_state (rTracker r0) e n \<in> {None, Some DAG_PENDING}"
    and "completionRegistry sv = Some reg" and "reg_inv reg" and "\<And>n. n \<in> set (concat levels) \<Longrightarrow> waiters reg (task_id g n) = None"
  shows "dag_inv g levels e (start_dag r0 sv)"
proof (rule dag_invI [where reg = reg])
  show "sub_inv (dgLog (start_dag r0 sv)) (task_id g n) (dgSub (start_dag r0 sv) n) reg" if "n \<in> set (concat levels)" for n
    unfolding sub_inv_def using assms(5,6) that by (intro exI [of _ "[]"]) (simp add: submit_inv_def start_dag_def)
  show "Signalled (task_id g n) \<in> set (dgLog (start_dag r0 sv))"
    if "rNode (dgRun (start_dag r0 sv)) n = SubmitOk \<or> node_state (rTracker (dgRun (start_dag r0 sv))) e n = Some DAG_COMPLETED" for n
    using that assms(2) assms(3) [of n] by (auto simp: start_dag_def)
qed (use assms in \<open>simp_all add: start_dag_def in_order_def\<close>)

lemma dag_reach_inv:
  assumes "dag_reach g levels e S0 S" and "dag_inv g levels e S0" and "graph_ok g" and "acyclic (deps g)"
    and "levels = graph_levels g" and "inj_on (task_id g) (set (concat levels))"
  shows "dag_inv g levels e S"
proof -
  have dist: "distinct (concat levels)" unfolding assms(5) by (rule kahn.plan_distinct) (use assms(3,4) in simp)
  have pre: "d \<in> set (concat levels) \<and> node_state (rTracker r) e d = Some DAG_COMPLETED"
    if "run_inv levels e r" "n \<in> set (rLog r)" "d \<in> set (Predecessors g n)" for r n d
  proof -
    have "node_state (rTracker r) e d = Some DAG_COMPLETED"
      by (rule kahn.submitted_deps_completed) (use that assms(3-5) in auto)
    moreover have "d \<in> nodes_of (rTracker r) e" using calculation by (auto simp: nodes_of_def node_state_def split: option.splits)
    ultimately show ?thesis using run_invD(1) [OF that(1)] by simp
  qed
  show ?thesis
    using assms(1,2) by (induction) (auto intro: dag_step_inv [OF _ _ dist assms(6)] dest: pre)
qed

subsection \<open>A graph can be completed\<close>

text \<open>
  Nothing has failed: the executor is not cancelled, no node failed, no submission returned an error. From
  such a state the system can always go on, if the tasks that wait are signalled, until the run is done.
\<close>

definition unfailed :: "string \<Rightarrow> DagSystem \<Rightarrow> bool" where
  "unfailed e S \<longleftrightarrow> \<not> rCancelled (dgRun S) \<and> (\<forall>ns. rMain (dgRun S) \<noteq> SkipNodes ns) \<and>
     (\<forall>n. node_state (rTracker (dgRun S)) e n \<noteq> Some DAG_FAILED) \<and>
     (\<forall>n. rNode (dgRun S) n \<in> {Idle, Spawned, MarkedRunning, Submitted, SubmitOk, Returned}) \<and>
     (\<forall>n err. dgSub S n \<noteq> SbDone (Some err) \<and> dgSub S n \<noteq> SbCleanup (Some err)) \<and>
     enqueueTaskErr (store (dgSv S)) = None"

lemma dag_trans: "dag_reach g levels e S1 S2 \<Longrightarrow> dag_reach g levels e S0 S1 \<Longrightarrow> dag_reach g levels e S0 S2"
  by (induction rule: dag_reach.induct) (auto intro: dag_more)

lemmas dag_one = dag_more [OF dag_start]

text \<open>The submitter of a node runs to its end, with its task signalled while it waits.\<close>

lemma submitter_finishes:
  assumes "unfailed e S" and "rNode (dgRun S) n = Submitted" and "completionRegistry (dgSv S) = Some reg"
    and "\<And>ch. dgSub S n = SbWaiting ch \<Longrightarrow> waits_on reg (task_id g n) ch"
  shows "\<exists>S'. dag_reach g levels e S S' \<and> unfailed e S' \<and> dgRun S' = dgRun S \<and> dgSub S' n = SbDone None"
proof -
  let ?t = "task_id g n" and ?p = "task_priority g n"
  let ?good = "\<lambda>S1. dag_reach g levels e S S1 \<and> unfailed e S1 \<and> dgRun S1 = dgRun S"
  have step: "\<exists>S2. ?good S2 \<and> dgSub S2 n = ph \<and> completionRegistry (dgSv S2) = Some reg'"
    if "?good S1" "completionRegistry (dgSv S1) = Some reg1"
      "BlockingSubmitter_step EnqueueTask ?t ?p (dgSub S1 n, store (dgSv S1), reg1) (ph, m, reg')"
      "enqueueTaskErr m = None" "\<And>err. ph \<noteq> SbDone (Some err) \<and> ph \<noteq> SbCleanup (Some err)" for S1 reg1 ph m reg'
    using that dag_more [OF _ dg_submitter [of S1 n reg1 g ph m reg' levels e]] assms(2)
    by (intro exI [of _ "S1\<lparr>dgSub := (dgSub S1)(n := ph), dgSv := (dgSv S1)\<lparr>store := m, completionRegistry := Some reg'\<rparr>,
      dgLog := dgLog S1 @ (if ph = SbWait then [Enqueued ?t] else [])\<rparr>"]) (auto simp: unfailed_def)
  have cleanup: "\<exists>S2. ?good S2 \<and> dgSub S2 n = SbDone None"
    if "?good S1" "completionRegistry (dgSv S1) = Some reg1" "dgSub S1 n = SbCleanup None" for S1 reg1
    using step [OF that(1,2), of "SbDone None" "store (dgSv S1)" "Cleanup 0 ?t reg1"] that
      sb_cleanup [of EnqueueTask ?t ?p None "store (dgSv S1)" reg1 0] by (auto simp: unfailed_def)
  have waiting: "\<exists>S2. ?good S2 \<and> dgSub S2 n = SbDone None"
    if S1: "?good S1" "completionRegistry (dgSv S1) = Some reg1" "dgSub S1 n = SbWaiting ch" "waits_on reg1 ?t ch" for S1 reg1 ch
  proof -
    let ?reg2 = "Complete 0 ?t reg1"
    let ?S2 = "S1\<lparr>dgSv := (dgSv S1)\<lparr>completionRegistry := Some ?reg2\<rparr>, dgLog := dgLog S1 @ [Signalled ?t]\<rparr>"
    have good2: "?good ?S2"
      using S1(1) dag_more [OF _ dg_env [where g = g and levels = levels and e = e, OF env_cancel [OF S1(2)]]]
      by (auto simp: unfailed_def)
    have "None \<in> Wait_outcomes ch None ?reg2"
      using S1(4) by (simp add: waits_on_def Complete_def Wait_outcomes_def)
    then obtain S3 where "?good S3" "dgSub S3 n = SbCleanup None" "completionRegistry (dgSv S3) = Some ?reg2"
      using step [OF good2, of ?reg2 "SbCleanup None" "store (dgSv S1)" ?reg2] S1
        sb_woken [of None ch None ?reg2 EnqueueTask ?t ?p "store (dgSv S1)"] by (auto simp: unfailed_def)
    then show ?thesis using cleanup by blast
  qed
  have wait: "\<exists>S2. ?good S2 \<and> dgSub S2 n = SbDone None"
    if S1: "?good S1" "completionRegistry (dgSv S1) = Some reg1" "dgSub S1 n = SbWait" for S1 reg1
  proof -
    obtain ch r2 where w: "Wait_begin ?t reg1 = (ch, r2)" by fastforce
    obtain S2 where "?good S2" "dgSub S2 n = SbWaiting ch" "completionRegistry (dgSv S2) = Some r2"
      using step [OF S1(1,2), of "SbWaiting ch" "store (dgSv S1)" r2] S1
        sb_wait [OF w, of EnqueueTask ?p "store (dgSv S1)"] by (auto simp: unfailed_def)
    then show ?thesis using waiting Wait_begin_waits [OF w] by blast
  qed
  have start: "?good S" using assms(1) by (simp add: dag_start)
  show ?thesis
  proof (cases "dgSub S n")
    case SbEnqueue
    obtain m where m: "EnqueueTask ?t ?p (store (dgSv S)) = Inr m" "enqueueTaskErr m = None"
      using assms(1) by (auto simp: unfailed_def EnqueueTask_def EnqueueTaskWithMeta_def Let_def zeroTaskMeta_def TaskMeta_IsZero_def)
    obtain S1 where "?good S1" "dgSub S1 n = SbWait" "completionRegistry (dgSv S1) = Some reg"
      using step [OF start assms(3), of SbWait m reg] SbEnqueue m(2) sb_enqueue_ok [of EnqueueTask, OF m(1)] by auto
    then show ?thesis using wait by blast
  next
    case (SbWaiting ch)
    then show ?thesis using waiting [OF start assms(3)] assms(4) by blast
  next
    case (SbCleanup res)
    then show ?thesis using cleanup [OF start assms(3)] assms(1) by (cases res) (auto simp: unfailed_def)
  next
    case (SbDone res)
    then show ?thesis using start assms(1) by (cases res) (auto simp: unfailed_def)
  qed (use wait [OF start assms(3)] in blast)
qed

lemma dag_progress:
  assumes "unfailed e S" and "dag_inv g levels e S" and "distinct (concat levels)" and "rMain (dgRun S) \<noteq> RunDone"
  shows "\<exists>S'. dag_reach g levels e S S' \<and> unfailed e S' \<and> work levels (dgRun S') < work levels (dgRun S)"
proof -
  obtain reg where reg: "completionRegistry (dgSv S) = Some reg" and run: "run_inv levels e (dgRun S)"
    and sub: "\<And>n. n \<in> set (concat levels) \<Longrightarrow> sub_inv (dgLog S) (task_id g n) (dgSub S n) reg"
    using dag_invD [OF assms(2)] by metis
  have exec: ?thesis
    if "run_step levels e (dgRun S) r'" "rLog r' = rLog (dgRun S)"
      "\<forall>n. rNode (dgRun S) n = Submitted \<longrightarrow> rNode r' n = Submitted" "unfailed e (S\<lparr>dgRun := r'\<rparr>)" for r'
    using dag_one [OF dg_run [OF that(1-3)]] that(4) run_step_work [OF that(1) run assms(3)]
    by (intro exI [of _ "S\<lparr>dgRun := r'\<rparr>"]) simp
  have U: "\<not> rCancelled (dgRun S)" "\<And>ns. rMain (dgRun S) \<noteq> SkipNodes ns"
    "\<And>n. node_state (rTracker (dgRun S)) e n \<noteq> Some DAG_FAILED"
    "\<And>n. rNode (dgRun S) n \<in> {Idle, Spawned, MarkedRunning, Submitted, SubmitOk, Returned}"
    using assms(1) unfolding unfailed_def by blast+
  show ?thesis
  proof (cases "rMain (dgRun S)")
    case (NextLevel i)
    then have ph: "i \<le> length levels" "\<forall>n \<in> future levels i. pending_node e (dgRun S) n"
      using run_invD(3) [OF run] by simp_all
    show ?thesis
    proof (cases "i = length levels")
      case True
      then show ?thesis using exec [OF all_levels_done] NextLevel assms(1) by (simp add: unfailed_def)
    next
      case False
      then have i: "i < length levels" using ph(1) by simp
      then have idle: "rNode (dgRun S) n = Idle" if "n \<in> set (levels ! i)" for n
        using ph(2) level_split(6) [OF i assms(3)] that by (auto simp: pending_node_def)
      show ?thesis
        by (rule exec [OF spawn_level [OF NextLevel i]]) (use idle assms(1) in \<open>auto simp: unfailed_def\<close>)
    qed
  next
    case (WaitLevel i)
    show ?thesis
    proof (cases "\<forall>n \<in> set (levels ! i). rNode (dgRun S) n = Returned")
      case True
      show ?thesis by (rule exec [OF barrier [OF WaitLevel True]]) (use assms(1) in \<open>auto simp: unfailed_def\<close>)
    next
      case False
      then obtain n where n: "n \<in> set (levels ! i)" "rNode (dgRun S) n \<noteq> Returned" by blast
      have i: "i < length levels" and pc: "rNode (dgRun S) n \<noteq> Idle" using run_invD(3) [OF run] WaitLevel n(1) by simp_all
      then have nV: "n \<in> set (concat levels)" using n(1) by auto
      consider "rNode (dgRun S) n = Spawned" | "rNode (dgRun S) n = MarkedRunning" | "rNode (dgRun S) n = Submitted"
        | "rNode (dgRun S) n = SubmitOk" using U(4) [of n] n(2) pc by auto
      then show ?thesis
      proof cases
        case 1
        show ?thesis by (rule exec [OF mark_running [OF 1, where now = 0]]) (use 1 assms(1) in \<open>auto simp: unfailed_def\<close>)
      next
        case 2
        let ?S1 = "S\<lparr>dgRun := (dgRun S)\<lparr>rNode := (rNode (dgRun S))(n := Submitted), rLog := rLog (dgRun S) @ [n]\<rparr>,
            dgSub := (dgSub S)(n := SbEnqueue)\<rparr>"
        have "dag_reach g levels e S ?S1" by (rule dag_one [OF dg_call [OF submit [OF 2]]]) simp
        then show ?thesis
          using assms(1) run_step_work [OF submit [OF 2] run assms(3)] by (intro exI [of _ ?S1]) (auto simp: unfailed_def)
      next
        case 3
        obtain S1 where S1: "dag_reach g levels e S S1" "unfailed e S1" "dgRun S1 = dgRun S" "dgSub S1 n = SbDone None"
          using submitter_finishes [OF assms(1) 3 reg, of g levels] sub_inv_waits sub [OF nV] by metis
        let ?S2 = "S1\<lparr>dgRun := (dgRun S1)\<lparr>rNode := (rNode (dgRun S1))(n := SubmitOk)\<rparr>\<rparr>"
        have "dag_step g levels e S1 ?S2"
          using dg_return [of S1 n None g levels e] S1(3,4) 3 by simp
        then show ?thesis
          using dag_more [OF S1(1)] S1(2,3) run_step_work [OF submit_ok [OF 3] run assms(3)]
          by (intro exI [of _ ?S2]) (auto simp: unfailed_def)
      next
        case 4
        show ?thesis by (rule exec [OF mark_completed [OF 4, where now = 0]]) (use 4 assms(1) in \<open>auto simp: unfailed_def\<close>)
      qed
    qed
  qed (use U(2) assms(4) in simp_all)
qed

text \<open>So there is a run that completes every node.\<close>

lemma dag_can_complete:
  assumes "fair_order ord" and "NewGraph ord (Some spec) = Inr g" and "Execute ord e now (Some spec) t = Inr (levels, r0)"
    and "inj_on (task_id g) (spec_ids spec)" and "completionRegistry sv = Some reg" and "reg_inv reg"
    and "\<And>n. n \<in> spec_ids spec \<Longrightarrow> waiters reg (task_id g n) = None" and "enqueueTaskErr (store sv) = None"
  shows "\<exists>S. dag_reach g levels e (start_dag r0 sv) S \<and> rMain (dgRun S) = RunDone \<and>
    (\<forall>n \<in> spec_ids spec. node_state (rTracker (dgRun S)) e n = Some DAG_COMPLETED)"
proof -
  note G = Execute_graph [OF assms(1-3)]
  have dist: "distinct (concat levels)" unfolding G(3) by (rule kahn.plan_distinct) (use G in simp)
  let ?S0 = "start_dag r0 sv"
  have inv0: "dag_inv g levels e ?S0"
    by (rule start_dag_inv [OF G(5,7,8) assms(5,6)]) (use assms(7) G(4) in \<open>simp del: set_concat\<close>)
  have "node_state (rTracker r0) e n \<noteq> Some DAG_FAILED" for n using G(8) [of n] by auto
  then have "unfailed e ?S0" using G(7,9,10) assms(8) by (simp add: unfailed_def start_dag_def)
  moreover have "\<exists>S'. dag_reach g levels e S S' \<and> unfailed e S' \<and> rMain (dgRun S') = RunDone"
    if "unfailed e S" "dag_inv g levels e S" for S
    using that
  proof (induction "work levels (dgRun S)" arbitrary: S rule: less_induct)
    case less
    show ?case
    proof (cases "rMain (dgRun S) = RunDone")
      case False
      then obtain S1 where S1: "dag_reach g levels e S S1" "unfailed e S1" "work levels (dgRun S1) < work levels (dgRun S)"
        using dag_progress [OF less.prems dist] by blast
      have "dag_inv g levels e S1"
        by (rule dag_reach_inv [OF S1(1) less.prems(2) G(1-3)]) (use assms(4) G(4) in simp)
      then show ?thesis using less.hyps [OF S1(3,2)] dag_trans S1(1) by blast
    qed (use less.prems dag_start in blast)
  qed
  ultimately obtain S where S: "dag_reach g levels e ?S0 S" "unfailed e S" "rMain (dgRun S) = RunDone"
    using inv0 by blast
  have "dag_inv g levels e S" by (rule dag_reach_inv [OF S(1) inv0 G(1-3)]) (use assms(4) G(4) in simp)
  then have "phase_inv levels e (dgRun S) RunDone" using run_invD(3) S(3) unfolding dag_inv_def by metis
  then show ?thesis using S G(4) by (intro exI [of _ S]) (auto simp: final_node_def unfailed_def simp del: set_concat)
qed

subsection \<open>Property\<close>


definition demo_pair :: DAGSpec where
  "demo_pair = \<lparr>dsDagId = ''dag'', dsNodes =
     [\<lparr>dnNodeId = ''b'', dnTask = Some (demo_task\<lparr>tsTaskId := ''t2''\<rparr>), dnDependsOn = [''a'']\<rparr>,
      \<lparr>dnNodeId = ''a'', dnTask = Some (demo_task\<lparr>tsTaskId := ''t1''\<rparr>), dnDependsOn = []\<rparr>], dsEdges = []\<rparr>"

definition demo_registry_supervisor :: Supervisor where
  "demo_registry_supervisor =
     NewSupervisor NewMockStore (NewRestartPolicy []) [WithCompletionRegistry (reg_after 60 [])]"


end
