(* ===== verification/Task_Pool.thy ===== *)
theory Task_Pool
  imports Supervisor_Tasks
begin

section \<open>The supervisor as a pool of tasks\<close>

text \<open>
  What the supervisor promises about tasks, without records, mutexes, back-off or phases: a task waits, or
  one agent runs it, or it is done. A task is given only to an agent that runs none; only the agent that
  runs a task finishes it or gives it back. The abstraction of a state of \<open>sys_step\<close> counts the task
  the assignment loop holds as waiting and an idle agent as running none. Each step of the supervisor is
  matched by a sequence of steps of the pool (a heartbeat check may take the tasks of several agents
  back, most handlers match the empty sequence).
\<close>

subsection \<open>The abstract machine\<close>

record TaskPool =
  tpWaiting :: "(string \<times> rat) multiset"
  tpRunning :: "string \<rightharpoonup> string \<times> rat"
  tpDone :: "(string \<times> rat) multiset"

definition empty_pool :: TaskPool where
  "empty_pool = \<lparr>tpWaiting = {#}, tpRunning = Map.empty, tpDone = {#}\<rparr>"

inductive pool_step :: "TaskPool \<Rightarrow> TaskPool \<Rightarrow> bool" where
  pool_submit: "pool_step P (P\<lparr>tpWaiting := add_mset x (tpWaiting P)\<rparr>)"
| pool_assign: "x \<in># tpWaiting P \<Longrightarrow> tpRunning P a = None \<Longrightarrow>
     pool_step P (P\<lparr>tpWaiting := tpWaiting P - {#x#}, tpRunning := (tpRunning P)(a \<mapsto> x)\<rparr>)"
| pool_give_back: "tpRunning P a = Some x \<Longrightarrow>
     pool_step P (P\<lparr>tpWaiting := add_mset x (tpWaiting P), tpRunning := (tpRunning P)(a := None)\<rparr>)"
| pool_finish: "tpRunning P a = Some x \<Longrightarrow>
     pool_step P (P\<lparr>tpDone := add_mset x (tpDone P), tpRunning := (tpRunning P)(a := None)\<rparr>)"

subsection \<open>The abstraction\<close>

definition running_of :: "(string \<rightharpoonup> AgentFields) \<Rightarrow> string \<rightharpoonup> string \<times> rat" where
  "running_of A a =
     (case A a of None \<Rightarrow> None
      | Some r \<Rightarrow> if fState r = StateIdle \<or> fCurrentTaskID r = '''' then None
                 else Some (fCurrentTaskID r, fCurrentTaskPriority r))"

definition pool_of :: "System \<Rightarrow> TaskPool" where
  "pool_of S = \<lparr>tpWaiting = queue_items (store (sysSv S)) + held (sysPc S),
     tpRunning = running_of (agents (store (sysSv S))), tpDone = sysCompleted S\<rparr>"

fun task_bag :: "(string \<times> rat) option \<Rightarrow> (string \<times> rat) multiset" where
  "task_bag None = {#}"
| "task_bag (Some x) = {#x#}"

lemma task_at_running: "task_at A a = task_bag (running_of A a)"
  by (simp add: task_at_def task_of_def running_of_def split: option.split)

subsection \<open>A handler that touches one agent and conserves the tasks\<close>

text \<open>Giving back what the agent ran and assigning what it runs now.\<close>

lemma pool_reassign:
  assumes "\<forall>b. b \<noteq> a \<longrightarrow> R' b = R b" and "W' + task_bag (R' a) = W + task_bag (R a)"
  shows "pool_step\<^sup>*\<^sup>* \<lparr>tpWaiting = W, tpRunning = R, tpDone = D\<rparr> \<lparr>tpWaiting = W', tpRunning = R', tpDone = D\<rparr>"
proof -
  let ?mid = "\<lparr>tpWaiting = W + task_bag (R a), tpRunning = R(a := None), tpDone = D\<rparr>"
  have given_back: "pool_step\<^sup>*\<^sup>* \<lparr>tpWaiting = W, tpRunning = R, tpDone = D\<rparr> ?mid"
  proof (cases "R a")
    case None
    then have "R(a := None) = R" by auto
    then show ?thesis using None by simp
  next
    case (Some x)
    then show ?thesis using pool_give_back [of "\<lparr>tpWaiting = W, tpRunning = R, tpDone = D\<rparr>" a x] by simp
  qed
  have "pool_step\<^sup>*\<^sup>* ?mid \<lparr>tpWaiting = W', tpRunning = R', tpDone = D\<rparr>"
  proof (cases "R' a")
    case None
    then have "R(a := None) = R'" using assms(1) by auto
    then show ?thesis using None assms(2) by simp
  next
    case (Some y)
    then have "R(a \<mapsto> y) = R'" using assms(1) by auto
    moreover have "y \<in># W + task_bag (R a)" and "W + task_bag (R a) - {#y#} = W'"
      using assms(2) [symmetric] Some by simp_all
    ultimately show ?thesis using pool_assign [of y ?mid a] by simp
  qed
  with given_back show ?thesis by (rule rtranclp_trans)
qed

lemma pool_finished:
  assumes "\<forall>b. b \<noteq> a \<longrightarrow> R' b = R b" and "W' + task_bag (R' a) = W"
  shows "pool_step\<^sup>*\<^sup>* \<lparr>tpWaiting = W, tpRunning = R, tpDone = D\<rparr>
    \<lparr>tpWaiting = W', tpRunning = R', tpDone = D + task_bag (R a)\<rparr>"
proof -
  let ?mid = "\<lparr>tpWaiting = W, tpRunning = R(a := None), tpDone = D + task_bag (R a)\<rparr>"
  have "pool_step\<^sup>*\<^sup>* \<lparr>tpWaiting = W, tpRunning = R, tpDone = D\<rparr> ?mid"
  proof (cases "R a")
    case None
    then have "R(a := None) = R" by auto
    then show ?thesis using None by simp
  next
    case (Some x)
    then show ?thesis using pool_finish [of "\<lparr>tpWaiting = W, tpRunning = R, tpDone = D\<rparr>" a x] by simp
  qed
  moreover have "pool_step\<^sup>*\<^sup>* ?mid \<lparr>tpWaiting = W', tpRunning = R', tpDone = D + task_bag (R a)\<rparr>"
    by (rule pool_reassign [where a = a]) (use assms in auto)
  ultimately show ?thesis by (rule rtranclp_trans)
qed

text \<open>Conservation of the known tasks is conservation at the one agent.\<close>

lemma local_conservation:
  assumes "finite (dom A)" and "\<forall>b. b \<noteq> a \<longrightarrow> A' b = A b" and "W' + in_flight A' = W + in_flight A"
  shows "W' + task_at A' a = W + task_at A a"
proof -
  have A': "A' = A(a := A' a)" using assms(2) by auto
  have "in_flight A + task_at A' a = in_flight A' + task_at A a"
    using in_flight_upd [OF assms(1), of a "A' a"] A' by simp
  then have "W' + (in_flight A + task_at A' a) = (W' + in_flight A') + task_at A a" by (simp only: add.assoc)
  then have "(W' + task_at A' a) + in_flight A = (W + task_at A a) + in_flight A"
    unfolding assms(3) by (simp only: ac_simps)
  then show ?thesis by (rule add_right_imp_eq)
qed

lemma running_frame: "\<forall>b. b \<noteq> a \<longrightarrow> A' b = A b \<Longrightarrow> \<forall>b. b \<noteq> a \<longrightarrow> running_of A' b = running_of A b"
  by (simp add: running_of_def)

subsection \<open>Each handler touches one agent\<close>

lemma apply_and_publish_frame:
  "apply_and_publish now a ev sv = (err, sv') \<Longrightarrow> b \<noteq> a \<Longrightarrow> agents (store sv') b = agents (store sv) b"
  by (auto simp: apply_and_publish_def Machine_ApplyEvent_Inr split: sum.splits if_splits)

lemma agent_call_frame:
  "Heartbeat now a sv = (err, sv') \<Longrightarrow> b \<noteq> a \<Longrightarrow> agents (store sv') b = agents (store sv) b"
  "StartWork now a sv = (err, sv') \<Longrightarrow> b \<noteq> a \<Longrightarrow> agents (store sv') b = agents (store sv) b"
  "ReportOutput now a sv = (err, sv') \<Longrightarrow> b \<noteq> a \<Longrightarrow> agents (store sv') b = agents (store sv) b"
  by (auto simp: Heartbeat_def SetAgentFields_def StartWork_def ReportOutput_def apply_and_publish_frame
      split: if_splits sum.splits option.splits)

lemma RegisterAgent_frame:
  "RegisterAgent now a sv = (err, sv') \<Longrightarrow> b \<noteq> a \<Longrightarrow> agents (store sv') b = agents (store sv) b"
  by (auto simp: RegisterAgent_def SetAgentFields_def Let_def split: if_splits sum.splits option.splits)

lemma signal_completion_store [simp]: "store (signal_completion now a tid sv) = store sv"
  by (simp add: signal_completion_def Let_def split: option.split)

lemma completeAgent_frame:
  assumes "healthy (store sv)" and "completeAgent now a tid sv = (err, sv')" and "b \<noteq> a"
  shows "agents (store sv') b = agents (store sv) b"
proof (cases "Machine_ApplyEvent (store sv) a EventOutputDelivered")
  case (Inr x)
  then obtain snap m where x: "Machine_ApplyEvent (store sv) a EventOutputDelivered = Inr (snap, m)" by (cases x) auto
  then have "healthy m" "agents m b = agents (store sv) b"
    using assms(1,3) by (auto simp: Machine_ApplyEvent_Inr)
  then show ?thesis
    using assms(2,3) x by (auto simp: completeAgent_def Let_def healthy_ops split: if_splits option.splits)
qed (use assms in \<open>auto simp: completeAgent_def split: if_splits\<close>)

lemma heartbeat_check_frame:
  assumes "sv_ok sv" and "b \<noteq> a"
  shows "agents (store (heartbeat_check now sv a)) b = agents (store sv) b"
  using crashAgent_agents(1) [of sv now a b] assms by (auto simp: heartbeat_check_def sv_ok_def split: sum.split)

lemma pool_assign_locked_frame:
  assumes "sv_ok sv" and "b \<noteq> a"
  shows "agents (store (assign_locked now a t p sv)) b = agents (store sv) b"
proof (cases "\<exists>r. agents (store sv) a = Some r \<and> fState r = StateIdle")
  case True
  then show ?thesis using assign_locked_idle(1) assms by (auto simp: sv_ok_def)
next
  case False
  then have "agents (store sv) a = None \<or> (\<exists>r. agents (store sv) a = Some r \<and> fState r \<noteq> StateIdle)"
    by (cases "agents (store sv) a") auto
  then show ?thesis using assign_locked_refused(1) assms by (auto simp: sv_ok_def)
qed

lemma assign_phase_frame:
  assumes "sv_ok sv" and "assign_phase ord now pc sv = (pc', sv')"
  shows "\<exists>a. \<forall>b. b \<noteq> a \<longrightarrow> agents (store sv') b = agents (store sv) b"
proof (cases pc)
  case Looking
  then show ?thesis
    using assms(2) by (auto simp: DequeueTask_def recordAssignError_def Let_def
        split: if_splits sum.splits prod.splits option.splits list.splits)
next
  case (Holding t p)
  then show ?thesis
    using assms by (auto simp: enqueue_logged_healthy sv_ok_def split: option.splits)
next
  case (Chosen t p a)
  then show ?thesis
    using assms pool_assign_locked_frame [OF assms(1), of _ a]
    by (intro exI [of _ a]) (auto simp: enqueue_logged_healthy sv_ok_def split: if_splits)
qed

subsection \<open>The simulation\<close>

text \<open>A handler that conserves what is known, or what is known and held.\<close>

lemma conserving_step:
  assumes "sv_ok (sysSv S)" and "\<forall>b. b \<noteq> a \<longrightarrow> agents (store sv') b = agents (store (sysSv S)) b"
    and "known_tasks sv' + held pc' = known_tasks (sysSv S) + held (sysPc S)"
  shows "pool_step\<^sup>*\<^sup>* (pool_of S) (pool_of (S\<lparr>sysPc := pc', sysSv := sv'\<rparr>))"
proof -
  have fin: "finite (dom (agents (store (sysSv S))))" using assms(1) by (simp add: sv_ok_def)
  have "(queue_items (store sv') + held pc') + in_flight (agents (store sv')) =
      (queue_items (store (sysSv S)) + held (sysPc S)) + in_flight (agents (store (sysSv S)))"
    using assms(3) by (simp add: known_tasks_def ac_simps)
  from local_conservation [OF fin assms(2) this] show ?thesis
    using pool_reassign [OF running_frame [OF assms(2)]] by (simp add: pool_of_def task_at_running)
qed

corollary conserving_handler:
  assumes "sv_ok (sysSv S)" and "\<And>b. b \<noteq> a \<Longrightarrow> agents (store sv') b = agents (store (sysSv S)) b"
    and "known_tasks sv' = known_tasks (sysSv S)"
  shows "pool_step\<^sup>*\<^sup>* (pool_of S) (pool_of (S\<lparr>sysSv := sv'\<rparr>))"
  using conserving_step [OF assms(1), of a sv' "sysPc S"] assms(2,3) by simp

lemma heartbeat_sweep_pool:
  assumes "sv_ok (sysSv S)"
  shows "pool_step\<^sup>*\<^sup>* (pool_of S) (pool_of (S\<lparr>sysSv := foldl (heartbeat_check now) (sysSv S) ids\<rparr>))"
  using assms
proof (induction ids arbitrary: S)
  case (Cons a ids)
  let ?S1 = "S\<lparr>sysSv := heartbeat_check now (sysSv S) a\<rparr>"
  have "pool_step\<^sup>*\<^sup>* (pool_of S) (pool_of ?S1)"
    by (rule conserving_handler [OF Cons.prems heartbeat_check_frame [OF Cons.prems] heartbeat_check_tasks(1) [OF Cons.prems]])
  moreover have "pool_step\<^sup>*\<^sup>* (pool_of ?S1) (pool_of (?S1\<lparr>sysSv := foldl (heartbeat_check now) (sysSv ?S1) ids\<rparr>))"
    by (rule Cons.IH) (use heartbeat_check_tasks(2) [OF Cons.prems] in simp)
  ultimately show ?case by simp
qed simp

lemma sys_step_pool:
  assumes "sys_step S S'" and "sys_inv S"
  shows "pool_step\<^sup>*\<^sup>* (pool_of S) (pool_of S')"
proof -
  have ok: "sv_ok (sysSv S)" "pc_named (sysPc S)" using assms(2) by (simp_all add: sys_inv_def)
  then have h: "healthy (store (sysSv S))" "states_ok (store (sysSv S))" by (simp_all add: sv_ok_def)
  note same = conserving_handler [OF ok(1)]
  show ?thesis
    using assms(1)
  proof (cases rule: sys_step.cases)
    case (st_assign ord now pc' sv')
    then show ?thesis
      using assign_phase_frame [OF ok(1) st_assign(2)] assign_phase_tasks(1) [OF ok st_assign(2)]
        conserving_step [OF ok(1)] by metis
  next
    case (st_submit t p meta m)
    have "agents m = agents (store (sysSv S))"
      using st_submit(3) by (auto simp: EnqueueTaskWithMeta_def Let_def split: option.splits if_splits)
    then have "pool_of S' = (pool_of S)\<lparr>tpWaiting := add_mset (t, p) (tpWaiting (pool_of S))\<rparr>"
      using st_submit(1) EnqueueTaskWithMeta_items [OF st_submit(3)] by (simp add: pool_of_def)
    then show ?thesis using pool_submit [of "pool_of S" "(t, p)"] by auto
  next
    case (st_register a now err sv')
    show ?thesis
      unfolding st_register(1)
      by (rule same [OF RegisterAgent_frame [OF st_register(3)] RegisterAgent_tasks(1) [OF ok(1) st_register(3,2)]])
  next
    case (st_heartbeat now a err sv')
    show ?thesis
      unfolding st_heartbeat(1)
      by (rule same [OF agent_call_frame(1) [OF st_heartbeat(2)] Heartbeat_tasks(1) [OF ok(1) st_heartbeat(2)]])
  next
    case (st_start now a err sv')
    have "known_tasks sv' = known_tasks (sysSv S)"
      using st_start(2) apply_and_publish_tasks(1) [OF ok(1), of now a EventWorkStarted err sv']
      by (auto simp: StartWork_def split: if_splits)
    then show ?thesis using same [OF agent_call_frame(2) [OF st_start(2)]] st_start(1) by simp
  next
    case (st_report now a err sv')
    have "known_tasks sv' = known_tasks (sysSv S)"
      using st_report(2) apply_and_publish_tasks(1) [OF ok(1), of now a EventOutputReady err sv']
      by (auto simp: ReportOutput_def split: if_splits)
    then show ?thesis using same [OF agent_call_frame(3) [OF st_report(2)]] st_report(1) by simp
  next
    case (st_complete now a tid err sv')
    have c: "completeAgent now a tid (sysSv S) = (err, sv')" using st_complete(2) by (simp add: CompleteAgent_def)
    have frame: "\<forall>b. b \<noteq> a \<longrightarrow> agents (store sv') b = agents (store (sysSv S)) b"
      using completeAgent_frame [OF h(1) c] by blast
    show ?thesis
    proof (cases "err = None")
      case False
      then have "known_tasks sv' = known_tasks (sysSv S)" using completeAgent_tasks(1) [OF ok(1) c] by auto
      then show ?thesis using same [of a sv'] frame st_complete(1) False by simp
    next
      case True
      let ?W = "queue_items (store (sysSv S)) + held (sysPc S)" and ?W' = "queue_items (store sv') + held (sysPc S)"
      have "(?W' + task_at (agents (store (sysSv S))) a) + in_flight (agents (store sv')) =
          ?W + in_flight (agents (store (sysSv S)))"
        using completeAgent_tasks(1) [OF ok(1) c] True by (simp add: known_tasks_def ac_simps)
      from local_conservation [OF _ frame this] have "(?W' + task_at (agents (store sv')) a) +
          task_at (agents (store (sysSv S))) a = ?W + task_at (agents (store (sysSv S))) a"
        using ok(1) by (simp add: sv_ok_def ac_simps)
      then have "?W' + task_at (agents (store sv')) a = ?W" by (rule add_right_imp_eq)
      then show ?thesis
        using pool_finished [OF running_frame [OF frame]] st_complete(1) True by (simp add: pool_of_def task_at_running)
    qed
  next
    case (st_check ord now)
    then show ?thesis using heartbeat_sweep_pool [OF ok(1)] h by (simp add: checkHeartbeats_foldl)
  next
    case (st_crash now a)
    show ?thesis
      unfolding st_crash
      by (rule same [of a, OF _ crashAgent_tasks(1) [OF ok(1)]]) (use crashAgent_agents(1) [OF h] in simp)
  next
    case (st_registry reg)
    then show ?thesis by (simp add: pool_of_def)
  qed
qed

subsection \<open>Property\<close>

lemma pool_of_start: "pool_of (start_system (NewSupervisor NewMockStore pol [])) = empty_pool"
  by (simp add: pool_of_def start_system_def NewSupervisor_def NewMockStore_def queue_items_def running_of_def
      empty_pool_def fun_eq_iff)



end
