(* ===== verification/Shutdown_Handler.thy ===== *)
theory Shutdown_Handler
  imports Prelude
begin

section \<open>internal/supervisor/shutdown.go: draining on a signal\<close>

text \<open>
  \<open>WaitForSignal\<close> waits for SIGTERM, SIGINT or the end of its context and then calls the drain it was
  built with, under a context of its own. A drain is a parameter: given the deadline of its context, the
  time and the state of the program it answers its error, the time it returns and the state it leaves.
  The two sources of wake-up are the moments at which they come, if ever; that the signal comes after
  the registration of the channel is assumed (before, the signal ends the process).
\<close>

record 's ShutdownHandler =
  shDrain :: "gtime \<Rightarrow> gtime \<Rightarrow> 's \<Rightarrow> goerror option \<times> gtime \<times> 's"
  shTimeout :: duration

definition NewShutdownHandler ::
  "(gtime \<Rightarrow> gtime \<Rightarrow> 's \<Rightarrow> goerror option \<times> gtime \<times> 's) \<Rightarrow> duration \<Rightarrow> 's ShutdownHandler" where
  "NewShutdownHandler drain timeout = \<lparr>shDrain = drain, shTimeout = timeout\<rparr>"

fun woken_at :: "gtime option \<Rightarrow> gtime option \<Rightarrow> gtime option" where
  "woken_at None ctxDone = ctxDone"
| "woken_at sig None = sig"
| "woken_at (Some t1) (Some t2) = Some (min t1 t2)"

text \<open>\<open>None\<close> is a wait that never ends.\<close>

definition WaitForSignal ::
  "'s ShutdownHandler \<Rightarrow> gtime option \<Rightarrow> gtime option \<Rightarrow> 's \<Rightarrow> (goerror option \<times> gtime \<times> 's) option" where
  "WaitForSignal h sig ctxDone s =
     (case woken_at sig ctxDone of
        None \<Rightarrow> None
      | Some t \<Rightarrow> Some (shDrain h (t + shTimeout h) t s))"

lemma woken_at_None [simp]: "woken_at sig ctxDone = None \<longleftrightarrow> sig = None \<and> ctxDone = None"
  by (cases "(sig, ctxDone)" rule: woken_at.cases) auto

lemma WaitForSignal_never_iff: "WaitForSignal h sig ctxDone s = None \<longleftrightarrow> sig = None \<and> ctxDone = None"
  by (simp add: WaitForSignal_def option.case_eq_if)

text \<open>A drain that honours its deadline bounds the wait; nothing else does.\<close>

lemma WaitForSignal_bounded:
  assumes "\<forall>deadline now s. fst (snd (drain deadline now s)) \<le> max deadline now"
    and "woken_at sig ctxDone = Some t" and "0 \<le> timeout"
    and "WaitForSignal (NewShutdownHandler drain timeout) sig ctxDone s = Some (err, t', s')"
  shows "t' \<le> t + timeout"
proof -
  have "drain (t + timeout) t s = (err, t', s')"
    using assms(2,4) by (simp add: WaitForSignal_def NewShutdownHandler_def)
  then show ?thesis using assms(1,3) by (metis add_increasing2 fst_conv max.absorb1 order_refl snd_conv)
qed

definition deaf_drain :: "duration \<Rightarrow> gtime \<Rightarrow> gtime \<Rightarrow> 's \<Rightarrow> goerror option \<times> gtime \<times> 's" where
  "deaf_drain need deadline now s = (None, now + need, s)"

lemma WaitForSignal_waits_for_drain:
  "WaitForSignal (NewShutdownHandler (deaf_drain need) timeout) (Some t) ctxDone s =
     Some (None, (case ctxDone of None \<Rightarrow> t | Some c \<Rightarrow> min t c) + need, s)"
  by (simp add: WaitForSignal_def NewShutdownHandler_def deaf_drain_def split: option.split)

end
