(* ===== verification/Sprites.thy ===== *)
theory Sprites
  imports "HOL-Library.Word"
begin

section \<open>cmd/spritegen and cmd/assetslice: the placeholder art\<close>

text \<open>
  The generators of the game client's placeholder images. An image is its size and its pixels, and
  \<open>SetNRGBA\<close> outside the bounds does nothing, as in the package \<open>image\<close>; a counting loop is a fold over
  the interval. Encoding to PNG and the files are left out. Colours are bytes that wrap around. The sky's
  gradient is computed in floating point and truncated: its exact value is an integer at the two ends only,
  where the computation is exact, and otherwise at least 1/511 away from one, so the truncation is that
  of the exact value.
\<close>

subsection \<open>Images\<close>

record NRGBA =
  cR :: "8 word"
  cG :: "8 word"
  cB :: "8 word"
  cA :: "8 word"

definition rgba :: "int \<Rightarrow> int \<Rightarrow> int \<Rightarrow> int \<Rightarrow> NRGBA" where
  "rgba r g b a = \<lparr>cR = word_of_int r, cG = word_of_int g, cB = word_of_int b, cA = word_of_int a\<rparr>"

record Image =
  imWidth :: int
  imHeight :: int
  imPix :: "int \<times> int \<Rightarrow> NRGBA"

definition NewNRGBA :: "int \<Rightarrow> int \<Rightarrow> Image" where
  "NewNRGBA w h = \<lparr>imWidth = w, imHeight = h, imPix = (\<lambda>_. rgba 0 0 0 0)\<rparr>"

definition in_bounds :: "Image \<Rightarrow> int \<Rightarrow> int \<Rightarrow> bool" where
  "in_bounds im x y \<longleftrightarrow> 0 \<le> x \<and> x < imWidth im \<and> 0 \<le> y \<and> y < imHeight im"

definition SetNRGBA :: "int \<Rightarrow> int \<Rightarrow> NRGBA \<Rightarrow> Image \<Rightarrow> Image" where
  "SetNRGBA x y c im = (if in_bounds im x y then im\<lparr>imPix := (imPix im)((x, y) := c)\<rparr> else im)"

definition for_range :: "int \<Rightarrow> int \<Rightarrow> (int \<Rightarrow> 's \<Rightarrow> 's) \<Rightarrow> 's \<Rightarrow> 's" where
  "for_range lo hi body = fold body [lo..hi - 1]"

subsection \<open>Wizards\<close>

definition wizard :: "string list" where
  "wizard =
     [''................'',
      ''.......HH.......'',
      ''......HHHH......'',
      ''.....HHHHHH.....'',
      ''....HHHHHHHH....'',
      ''...HHHHHHHHHH...'',
      ''..BBBBBBBBBBBB..'',
      ''.....SSSSSS.....'',
      ''....SSESSES...O.'',
      ''....SSSSSSS...W.'',
      ''.....SSSS.....W.'',
      ''...RRRRRRRR...W.'',
      ''..RRRRRRRRRR..W.'',
      ''..RRDRRRRDRR..W.'',
      ''..RRDRRRRDRR..W.'',
      ''.RRRRRRRRRRRR.W.'',
      ''.RRRRRRRRRRRR.W.'',
      ''.RRRRRRRRRRRR.W.'',
      ''.DDRRRRRRRRDD...'',
      ''.DDDDDDDDDDDD...'']"

record palette =
  plRobe :: NRGBA
  plShade :: NRGBA
  plHat :: NRGBA
  plBand :: NRGBA
  plOrb :: NRGBA

definition shadeOf :: "NRGBA \<Rightarrow> NRGBA" where
  "shadeOf c = \<lparr>cR = cR c div 2, cG = cG c div 2, cB = cB c div 2, cA = 255\<rparr>"

definition mkPalette :: "NRGBA \<Rightarrow> NRGBA \<Rightarrow> palette" where
  "mkPalette robe orb =
     \<lparr>plRobe = robe, plShade = shadeOf robe,
      plHat = \<lparr>cR = cR robe div 2 + 40, cG = cG robe div 2 + 40, cB = cB robe div 2 + 40, cA = 255\<rparr>,
      plBand = rgba 240 210 120 255, plOrb = orb\<rparr>"

definition classes :: "string \<rightharpoonup> palette" where
  "classes =
     [''alchemist'' \<mapsto> mkPalette (rgba 217 140 0 255) (rgba 120 255 120 255),
      ''scribe'' \<mapsto> mkPalette (rgba 89 153 242 255) (rgba 255 255 180 255),
      ''archmage'' \<mapsto> mkPalette (rgba 191 51 230 255) (rgba 140 240 255 255),
      ''wardkeeper'' \<mapsto> mkPalette (rgba 64 191 77 255) (rgba 255 220 120 255),
      ''librarian'' \<mapsto> mkPalette (rgba 166 102 38 255) (rgba 200 240 255 255),
      ''enchanter'' \<mapsto> mkPalette (rgba 26 217 204 255) (rgba 255 160 220 255),
      ''apprentice'' \<mapsto> mkPalette (rgba 166 166 191 255) (rgba 200 200 255 255)]"

definition skin :: NRGBA where "skin = rgba 240 200 160 255"
definition eye :: NRGBA where "eye = rgba 40 40 60 255"
definition wood :: NRGBA where "wood = rgba 120 80 40 255"
definition clear :: NRGBA where "clear = rgba 0 0 0 0"

definition wizard_colour :: "palette \<Rightarrow> char \<Rightarrow> NRGBA" where
  "wizard_colour p ch =
     (if ch = CHR ''H'' then plHat p
      else if ch = CHR ''B'' then plBand p
      else if ch = CHR ''S'' then skin
      else if ch = CHR ''E'' then eye
      else if ch = CHR ''R'' then plRobe p
      else if ch = CHR ''D'' then plShade p
      else if ch = CHR ''W'' then wood
      else if ch = CHR ''O'' then plOrb p
      else clear)"

definition drawWizard :: "palette \<Rightarrow> Image" where
  "drawWizard p =
     fold (\<lambda>(y, row) im. fold (\<lambda>(x, ch) im. SetNRGBA (int x) (int y) (wizard_colour p ch) im) (enumerate 0 row) im)
       (enumerate 0 wizard) (NewNRGBA 16 20)"

subsection \<open>The stone tile\<close>

definition stone_shades :: "NRGBA list" where
  "stone_shades = [rgba 78 82 96 255, rgba 70 74 88 255, rgba 86 90 104 255, rgba 64 68 80 255]"

definition mortar :: NRGBA where "mortar = rgba 30 32 38 255"
definition moss :: NRGBA where "moss = rgba 72 96 60 255"

definition brick_offset :: "int \<Rightarrow> int" where
  "brick_offset y = (y div 8 mod 2) * 8"

definition brickIdx :: "int \<Rightarrow> int \<Rightarrow> int" where
  "brickIdx x y = (x + brick_offset y) div 16 + (y div 8) * 3"

definition stone_pixel :: "int \<Rightarrow> int \<Rightarrow> NRGBA" where
  "stone_pixel x y =
     (let c = stone_shades ! nat (brickIdx x y mod int (length stone_shades))
      in if y mod 8 = 7 \<or> (x + brick_offset y) mod 16 = 15 then mortar
         else if y mod 8 = 0 then \<lparr>cR = cR c + 18, cG = cG c + 18, cB = cB c + 18, cA = 255\<rparr>
         else if (x * 7 + y * 13) mod 37 = 0 then moss
         else c)"

definition drawStoneTile :: Image where
  "drawStoneTile =
     for_range 0 32 (\<lambda>y. for_range 0 32 (\<lambda>x. SetNRGBA x y (stone_pixel x y))) (NewNRGBA 32 32)"

subsection \<open>The sky\<close>

definition sky_gradient :: "int \<Rightarrow> NRGBA" where
  "sky_gradient y =
     rgba (14 + (58 - 14) * y div 511) (12 + (44 - 12) * y div 511) (34 + (82 - 34) * y div 511) 255"

definition draw_star :: "int \<Rightarrow> Image \<Rightarrow> Image" where
  "draw_star i im =
     (let x = (i * 97 + 31) mod 256;
          y = ((i * 53 + 17) * (i mod 7 + 1) + i * i * 3) mod 512
      in if y > 380 then im
         else
           let b = 150 + (i * 37) mod 105;
               im1 = SetNRGBA x y (rgba b b (min 255 (uint (word_of_int b :: 8 word) + 20)) 255) im
           in if i mod 9 = 0
              then let im2 = SetNRGBA ((x + 1) mod 256) y (rgba b b 255 200) im1
                   in if y + 1 < 512 then SetNRGBA x (y + 1) (rgba b b 255 200) im2 else im2
              else im1)"

definition disc :: "int \<Rightarrow> int \<Rightarrow> int \<Rightarrow> NRGBA \<Rightarrow> Image \<Rightarrow> Image" where
  "disc cx cy r c =
     for_range (- r) (r + 1) (\<lambda>dy. for_range (- r) (r + 1) (\<lambda>dx im.
       if dx * dx + dy * dy \<le> r * r then SetNRGBA (cx + dx) (cy + dy) c im else im))"

definition drawSky :: Image where
  "drawSky =
     (let im = for_range 0 512 (\<lambda>y. for_range 0 256 (\<lambda>x. SetNRGBA x y (sky_gradient y))) (NewNRGBA 256 512);
          im1 = for_range 0 180 draw_star im;
          im2 = disc 206 56 9 (rgba 226 224 210 255) im1
      in disc 203 54 2 (rgba 200 198 186 255) im2)"

subsection \<open>Window and torch\<close>

definition window_frame :: NRGBA where "window_frame = rgba 34 30 42 255"

definition window_pixel :: "int \<Rightarrow> int \<Rightarrow> NRGBA" where
  "window_pixel x y =
     (let inArch = (if y = 0 then x \<ge> 3 \<and> x \<le> 6 else if y = 1 then x \<ge> 2 \<and> x \<le> 7 else x \<ge> 1 \<and> x \<le> 8);
          edge = (x \<le> 1 \<or> x \<ge> 8 \<or> y \<ge> 13 \<or> y \<le> 1 \<or> x = 4 \<or> x = 5 \<and> False);
          center = (x \<ge> 3 \<and> x \<le> 6 \<and> y \<ge> 3 \<and> y \<le> 10)
      in if \<not> inArch then clear
         else if edge then window_frame
         else if center then rgba 255 214 120 255
         else rgba 214 150 70 255)"

definition drawWindow :: Image where
  "drawWindow =
     (let im = for_range 0 14 (\<lambda>y. for_range 0 10 (\<lambda>x. SetNRGBA x y (window_pixel x y))) (NewNRGBA 10 14);
          im1 = for_range 2 13 (\<lambda>y. SetNRGBA 5 y window_frame) im
      in for_range 1 9 (\<lambda>x. SetNRGBA x 7 window_frame) im1)"

definition drawTorch :: Image where
  "drawTorch =
     (let flameOut = rgba 255 140 40 255; flameIn = rgba 255 230 120 255; bracket = rgba 90 90 100 255;
          im = for_range 0 12 (\<lambda>y. for_range 0 6 (\<lambda>x. SetNRGBA x y clear)) (NewNRGBA 6 12);
          im = SetNRGBA 3 0 flameOut (SetNRGBA 2 0 flameOut im);
          im = for_range 1 4 (\<lambda>y. for_range 1 5 (\<lambda>x. SetNRGBA x y flameOut)) im;
          im = SetNRGBA 3 3 flameIn (SetNRGBA 2 3 flameIn (SetNRGBA 3 2 flameIn (SetNRGBA 2 2 flameIn im)));
          im = for_range 4 11 (\<lambda>y im. SetNRGBA 3 y wood (SetNRGBA 2 y wood im)) im
      in SetNRGBA 4 10 bracket (SetNRGBA 1 10 bracket im))"

subsection \<open>Slicing\<close>

definition tileNames :: "string list" where
  "tileNames = [''stone_floor'', ''stone_cracked'', ''stone_wall'', ''wall_moss'',
     ''moss_overlay'', ''rune_floor'', ''stairs'', ''wood_floor'']"

text \<open>A rectangle is its minimum and its maximum, exclusive; \<open>SubImage\<close> intersects it with the bounds.\<close>

type_synonym rect = "(int \<times> int) \<times> (int \<times> int)"

fun rect_intersect :: "rect \<Rightarrow> rect \<Rightarrow> rect" where
  "rect_intersect ((x0, y0), (x1, y1)) ((u0, v0), (u1, v1)) =
     (let a = max x0 u0; b = max y0 v0; c = min x1 u1; d = min y1 v1
      in if a \<ge> c \<or> b \<ge> d then ((0, 0), (0, 0)) else ((a, b), (c, d)))"

definition tile_slices :: "rect \<Rightarrow> (string \<times> rect) list" where
  "tile_slices bounds =
     map (\<lambda>(i, name). (name, rect_intersect ((int i * 16, 0), ((int i + 1) * 16, 16)) bounds)) (enumerate 0 tileNames)"

fun in_rect :: "int \<times> int \<Rightarrow> rect \<Rightarrow> bool" where
  "in_rect (x, y) ((x0, y0), (x1, y1)) \<longleftrightarrow> x0 \<le> x \<and> x < x1 \<and> y0 \<le> y \<and> y < y1"

subsection \<open>What is drawn\<close>

lemma SetNRGBA_size [simp]:
  "imWidth (SetNRGBA x y c im) = imWidth im" "imHeight (SetNRGBA x y c im) = imHeight im"
  "in_bounds (SetNRGBA x y c im) = in_bounds im"
  by (simp_all add: SetNRGBA_def in_bounds_def fun_eq_iff)

lemma SetNRGBA_pix:
  "imPix (SetNRGBA x y c im) (a, b) = (if a = x \<and> b = y \<and> in_bounds im a b then c else imPix im (a, b))"
  by (auto simp: SetNRGBA_def)

lemma fold_bounds: "(\<And>x im. in_bounds (f x im) = in_bounds im) \<Longrightarrow> in_bounds (fold f xs im) = in_bounds im"
  by (induction xs arbitrary: im) simp_all

lemma pix_row:
  "imPix (fold (\<lambda>x. SetNRGBA x y (c x)) xs im) (a, b) =
     (if b = y \<and> a \<in> set xs \<and> in_bounds im a b then c a else imPix im (a, b))"
  by (induction xs arbitrary: im) (auto simp: SetNRGBA_pix)

lemma pix_grid:
  "imPix (fold (\<lambda>y. fold (\<lambda>x. SetNRGBA x y (c x y)) xs) ys im) (a, b) =
     (if b \<in> set ys \<and> a \<in> set xs \<and> in_bounds im a b then c a b else imPix im (a, b))"
  by (induction ys arbitrary: im) (auto simp: pix_row fold_bounds)

lemma for_grid:
  "imPix (for_range 0 h (\<lambda>y. for_range 0 w (\<lambda>x. SetNRGBA x y (c x y))) (NewNRGBA w h)) (a, b) =
     (if 0 \<le> a \<and> a < w \<and> 0 \<le> b \<and> b < h then c a b else clear)"
  by (auto simp: for_range_def pix_grid in_bounds_def NewNRGBA_def clear_def)

text \<open>
  The stone texture is called tileable, but it has a seam. Inside the tile two bricks side by side are
  always parted by mortar; across the border they are not: in a row of bricks shifted by half a
  brick, the last pixel and the first are of different bricks in different shades with no mortar between.
\<close>

theorem stone_tile_seam:
  "(0 \<le> x \<and> x < 31 \<and> 0 \<le> y \<and> y < 32 \<and> brickIdx x y \<noteq> brickIdx (x + 1) y \<longrightarrow> imPix drawStoneTile (x, y) = mortar) \<and>
   imPix drawStoneTile (31, 9) = stone_shades ! 1 \<and> imPix drawStoneTile (0, 9) = stone_shades ! 3"
proof -
  have edge: "z mod 16 = 15" if "z div 16 \<noteq> (z + 1) div 16" for z :: int
  proof (rule ccontr)
    assume "z mod 16 \<noteq> 15"
    then have "(z mod 16 + 1) div 16 = 0" using pos_mod_bound [of 16 z] by (intro div_pos_pos_trivial) simp_all
    moreover have "z + 1 = (z mod 16 + 1) + (z div 16) * 16" using div_mult_mod_eq [of z 16] by linarith
    then have "(z + 1) div 16 = z div 16 + (z mod 16 + 1) div 16" by (metis div_mult_self1 zero_neq_numeral)
    ultimately show False using that by simp
  qed
  have "(x + brick_offset y) mod 16 = 15" if "brickIdx x y \<noteq> brickIdx (x + 1) y"
    using that by (intro edge) (simp add: brickIdx_def ac_simps)
  then have "imPix drawStoneTile (x, y) = mortar"
    if "0 \<le> x \<and> x < 31 \<and> 0 \<le> y \<and> y < 32 \<and> brickIdx x y \<noteq> brickIdx (x + 1) y"
    using that unfolding drawStoneTile_def for_grid by (simp add: stone_pixel_def Let_def)
  moreover have "stone_pixel 31 9 = stone_shades ! 1" "stone_pixel 0 9 = stone_shades ! 3"
    by (simp_all add: stone_pixel_def brickIdx_def brick_offset_def Let_def stone_shades_def)
  ultimately show ?thesis by (simp add: drawStoneTile_def for_grid)
qed

text \<open>A wizard's pixel has the colour of the legend, and is transparent where the drawing has a dot.\<close>

lemma pix_text_row:
  "imPix (fold (\<lambda>(x, ch) im. SetNRGBA (int x) y (g ch) im) (enumerate n row) im) (a, b) =
     (if b = y \<and> int n \<le> a \<and> a < int (n + length row) \<and> in_bounds im a b then g (row ! nat (a - int n))
      else imPix im (a, b))"
proof (induction row arbitrary: n im a b)
  case (Cons ch row)
  consider "a < int n" | "a = int n" | "int (Suc n) \<le> a" by linarith
  then show ?case
  proof cases
    case 3
    then have "nat (a - int n) = Suc (nat (a - int (Suc n)))" by linarith
    then show ?thesis using 3 by (auto simp: Cons.IH SetNRGBA_pix)
  qed (auto simp: Cons.IH SetNRGBA_pix)
qed auto

lemma pix_text:
  assumes "\<forall>row \<in> set rows. length row = k"
  shows "imPix (fold (\<lambda>(y, row) im. fold (\<lambda>(x, ch) im. SetNRGBA (int x) (int y) (g ch) im) (enumerate 0 row) im)
      (enumerate n rows) im) (a, b) =
     (if int n \<le> b \<and> b < int (n + length rows) \<and> 0 \<le> a \<and> a < int k \<and> in_bounds im a b
      then g (rows ! nat (b - int n) ! nat a) else imPix im (a, b))"
  using assms
proof (induction rows arbitrary: n im a b)
  case (Cons row rows)
  have inb: "in_bounds (fold (\<lambda>(x, ch) im. SetNRGBA (int x) (int n) (g ch) im) (enumerate 0 row) im) = in_bounds im"
    by (rule fold_bounds) auto
  consider "b < int n" | "b = int n" | "int (Suc n) \<le> b" by linarith
  then show ?case
  proof cases
    case 3
    then have "nat (b - int n) = Suc (nat (b - int (Suc n)))" by linarith
    then show ?thesis using 3 Cons.prems by (auto simp: Cons.IH pix_text_row inb)
  qed (use Cons.prems in \<open>auto simp: Cons.IH pix_text_row inb\<close>)
qed auto

theorem wizard_pixels:
  "imPix (drawWizard p) (x, y) =
     (if 0 \<le> x \<and> x < 16 \<and> 0 \<le> y \<and> y < 20 then wizard_colour p (wizard ! nat y ! nat x) else clear)"
proof -
  have "\<forall>row \<in> set wizard. length row = 16" and "length wizard = 20" by (simp_all add: wizard_def)
  then show ?thesis
    unfolding drawWizard_def by (subst pix_text [where k = 16]) (auto simp: in_bounds_def NewNRGBA_def clear_def)
qed

text \<open>The eight tiles of the strip cover it without overlap.\<close>

lemma tile_slices_partition:
  assumes "in_rect (x, y) ((0, 0), (128, 16))"
  shows "length (filter (\<lambda>(name, r). in_rect (x, y) r) (tile_slices ((0, 0), (128, 16)))) = 1"
  using assms by (auto simp: tile_slices_def tileNames_def)

end
