(* ===== verification/Spec2Isabelle.thy ===== *)
theory Spec2Isabelle
  imports Gateway Redis_Store Orchestrator Dag_System Task_Pool Shutdown_Handler Sprites
begin

text \<open>
  A verification library for the agent orchestrator (Go, module agenKic-orKistrator).

  The program. \<open>cmd/orchestrator/main.go\<close> builds one store, one completion registry, one supervisor, an
  executor of task graphs, a gRPC server, a health aggregator and an HTTP bridge for the game client,
  all sharing the store and the registry. Agents register, send heartbeats and report through gRPC;
  the supervisor assigns queued tasks to idle agents, crashes agents that fall silent and reaps those
  whose tmux session is gone; the executor submits the nodes of a graph level by level and waits on the
  registry for each; the bridge offers spawning, submitting, cancelling, reassigning and despawning, and
  streams the store's events to its clients. The gateway chooses a language model for a prompt; no
  other part calls it.

  The theories, and the files under src/ they model.

    \<^item> Prelude and Go_Strings: errors as values with wrapping, Go's time and map order, decimal text; the
      functions of the packages \<open>strings\<close> and \<open>strconv\<close> the code uses, on lists of bytes.
    \<^item> State_Store (internal/state: store.go, mock.go, errors.go): the in-memory store the program runs on,
      as a record, every method with its injectable error; the queue, the event stream, consumer groups;
      the interface \<open>StateStore\<close> as a record of methods, which both stores fill.
    \<^item> Redis_Store (internal/state/redis.go): the same interface over a Redis client, which is a record of
      functions with named laws; the two Lua scripts; refinement of the in-memory store.
    \<^item> Agent_Machine (internal/agent): states, events, the transition table, \<open>ApplyEvent\<close> over any store with
      a compare-and-set (a locale, interpreted on the store).
    \<^item> Restart_Policy and Completion (internal/supervisor/restart.go, completion.go): the circuit breaker and
      back-off on 64-bit durations; the registry of completion channels with its tombstones.
    \<^item> Dag_Graph, Dag_Status, Dag_Executor (internal/dag): building and levelling of a graph, the status
      tracker, the executor and its submitters as step relations over all interleavings.
    \<^item> Supervisor, Supervisor_Tasks, Supervisor_Loops (internal/supervisor/supervisor.go, reaper.go,
      export_e2e.go): the handlers and test hooks; the conservation of tasks over their interleavings and
      the reaper; the loops of \<open>Run\<close>.
    \<^item> Task_Pool: what the supervisor promises as a machine of its own, a pool in which a task is waiting or
      held, with the simulation that the interleaved handlers implement it.
    \<^item> Dag_System: the executor with its blocking submitters on the supervisor's store and registry, the
      composition main.go makes, as one step relation synchronised at the call and return of \<open>SubmitTask\<close>.
    \<^item> Ipc (internal/ipc: handlers.go, convert.go) and Health (internal/health, internal/ipc/health_http.go and
      health_grpc.go): the gRPC handlers with their status codes; the aggregator and its endpoints.
    \<^item> Terminal (internal/terminal): each operation of the tmux substrate as the calls of tmux it makes and
      what it answers to their results.
    \<^item> Broker (internal/httpbridge/broker.go, sse.go): the poll goroutine, the subscriptions and a client's
      stream as a step relation.
    \<^item> Http_Mux, Bridge and Http_Api (internal/httpbridge: bridge.go, handlers.go, errors.go, types.go): the
      matching of a request against a table of patterns; every REST handler, the floors and their
      reservations; the routing table and the check of the key.
    \<^item> Worker (internal/cliagent, internal/simagent): the workers as clients of the modelled gRPC server.
    \<^item> Orchestrator (cmd/orchestrator/main.go, cmd/demoworker/main.go): configuration, composition, spawner,
      shutdown, restart; the demo client.
    \<^item> Shutdown_Handler (internal/supervisor/shutdown.go): the drain on a signal, which the command does not use.
    \<^item> Gateway (internal/gateway and internal/gateway/providers): configuration, fallback chain, judge router,
      provider adapters, LiteLLM client, cost tracker.
    \<^item> Sprites (cmd/spritegen, cmd/assetslice): the pixels of the generated images and the slices of a strip.

  What is shown. The properties carry the identifiers C1 to C40 before their statement. In the large: no task
  is lost or duplicated in any interleaving of the supervisor's handlers, which together implement an
  abstract pool of tasks; a task whose agent fell
  silent comes to another agent; the executor respects dependencies, ends, and reports each node
  once, and together with the supervisor queues a task only after the tasks it depends on; a client of the event stream is sent every event after its cursor exactly once; no floor is ever
  overfull; a request touches only what it may; a quest posted to the composed program is carried
  through to its completion; the Redis store answers as the in-memory one. In the small: each
  handler's effect on every branch, the accepted graphs as exactly the well-formed acyclic ones, the
  circuit breaker and the registry in terms of their history, the classification of errors. Some
  properties state behaviour that is probably not meant: they are marked as such in their text.

  How the code is modelled. A struct is a record and an enum a datatype or its string; a method takes the
  state and returns it updated, with the error beside it where a failing call has written before, and as
  a sum where it has not. A Go map is a partial function or a finite map, and ranging over it goes
  through a parameter \<open>ord\<close> that lists a finite set in any order (\<open>fair_order\<close>). The clock, made up identifiers, the answers of tmux, of the
  Redis server, of the model proxy and of the file system, JSON and protobuf coding are
  arguments. Handlers that hold an agent's mutex are one step, with one reading of the clock; where
  locks are released in between (the assignment loop, the executor, the broker, a spawn) there is an
  inductive step relation and the property is an invariant of its reachable states. Goroutine loops
  on tickers are sequences of ticks. Recursion is structural or has a termination proof; no fuel is used.
  The loop of \<open>backoff_loop\<close> and the levels of a graph are bounded by the count and the nodes they consume.

  Interfaces as locales, each interpreted on the model: the priority queue and the event log of the store, the
  compare-and-set store of the state machine, the level planner the executor relies on, the request
  adapters of the providers. The laws on the Redis client (\<open>redis_ok\<close>, \<open>float_ok\<close>) are proved of a
  reference server.

  Bounds and simplifications. Priorities are rational numbers (no NaN, no rounding). Durations are 64-bit words
  in the restart policy, integers elsewhere; counters are unbounded. Sorting of the queue is stable.
  \<open>TrimSpace\<close> and \<open>ToLower\<close> know ASCII only; the tables of printable runes and the quoting of \<open>%q\<close> are
  parameters. Formats keep their arguments unprinted. The day after which Redis forgets task metadata
  does not pass. Each component has its own log of the calls it makes of tmux.

  Not modelled: the Godot client, the servers' listening and TLS (internal/ipc/server.go), logging, the
  generated protobuf code, the printing of durations, the coding of PNG files.
\<close>

end
